(* ===== verification/Prelude.thy ===== *)
theory Prelude
  imports Main "HOL-Library.Word" "HOL-Library.Char_ord" "HOL-Library.List_Lexorder"
begin

text \<open>
  Shared vocabulary of the development: type names, the outcome of code that may
  fault or not end, 32-bit wrap-around, and generic facts about lists that several components
  use.
\<close>

text \<open>A byte array is a list of 8-bit characters; text of 16-bit units is used for JSON.\<close>

type_synonym bytes = string
type_synonym qchar = "16 word"
type_synonym qtext = "16 word list"

section \<open>Outcomes\<close>

text \<open>
  The outcome of code that may read outside its data or through a null pointer (\<open>Fault\<close>), or
  whose fuel ends (\<open>Loop\<close>).
\<close>

datatype 'a run = Done 'a | Fault | Loop

definition rbind :: "'a run \<Rightarrow> ('a \<Rightarrow> 'b run) \<Rightarrow> 'b run" where
  "rbind r f = (case r of Done x \<Rightarrow> f x | Fault \<Rightarrow> Fault | Loop \<Rightarrow> Loop)"

lemma rbind_simps [simp]:
  "rbind (Done x) f = f x" "rbind Fault f = Fault" "rbind Loop f = Loop"
  by (simp_all add: rbind_def)

lemma rbind_Done: "rbind r f = Done y \<longleftrightarrow> (\<exists>x. r = Done x \<and> f x = Done y)"
  by (cases r) auto

lemma rbind_not_Loop: "r \<noteq> Loop \<Longrightarrow> (\<And>x. f x \<noteq> Loop) \<Longrightarrow> rbind r f \<noteq> Loop"
  by (cases r) auto

section \<open>Machine integers\<close>

text \<open>
  The C++ type \<open>int\<close> has 32 bits on every platform the program is built for. A value of it is
  an \<open>int\<close> in range; \<open>i32\<close> is the two's complement reading of a result that left the range,
  \<open>u32\<close> the reading as \<open>unsigned\<close>.
\<close>

definition i32 :: "int \<Rightarrow> int" where
  "i32 n = signed_take_bit 31 n"

definition u32 :: "int \<Rightarrow> int" where
  "u32 n = take_bit 32 n"

definition in_i32 :: "int \<Rightarrow> bool" where
  "in_i32 n \<longleftrightarrow> - (2 ^ 31) \<le> n \<and> n < 2 ^ 31"

text \<open>The same for the 64-bit type of sizes and times.\<close>

definition i64 :: "int \<Rightarrow> int" where
  "i64 n = signed_take_bit 63 n"

definition in_i64 :: "int \<Rightarrow> bool" where
  "in_i64 n \<longleftrightarrow> - (2 ^ 63) \<le> n \<and> n < 2 ^ 63"

lemma i64_id: "in_i64 n \<Longrightarrow> i64 n = n"
  by (simp add: in_i64_def i64_def signed_take_bit_int_eq_self)

text \<open>Division of integers rounds towards zero, and the remainder has the sign of the dividend.\<close>

definition cdiv :: "int \<Rightarrow> int \<Rightarrow> int" where
  "cdiv a b = sgn a * sgn b * (\<bar>a\<bar> div \<bar>b\<bar>)"

definition cmod :: "int \<Rightarrow> int \<Rightarrow> int" where
  "cmod a b = a - b * cdiv a b"

lemma cdiv_nonneg: "0 \<le> a \<Longrightarrow> 0 < b \<Longrightarrow> cdiv a b = a div b"
  by (cases "a = 0") (simp_all add: cdiv_def)

lemma cmod_nonneg: "0 \<le> a \<Longrightarrow> 0 < b \<Longrightarrow> cmod a b = a mod b"
  by (simp add: cmod_def cdiv_nonneg minus_mult_div_eq_mod)

lemma i32_id: "in_i32 n \<Longrightarrow> i32 n = n"
  by (simp add: in_i32_def i32_def signed_take_bit_int_eq_self)

lemma i32_range: "in_i32 (i32 n)"
  using signed_take_bit_int_greater_eq_minus_exp [of 31 n]
    signed_take_bit_int_less_exp [of 31 n]
  by (simp add: in_i32_def i32_def)

lemma i32_wrap: "2 ^ 31 \<le> n \<Longrightarrow> n < 2 ^ 32 \<Longrightarrow> i32 n = n - 2 ^ 32"
proof -
  assume n: "2 ^ 31 \<le> n" "n < 2 ^ 32"
  have "i32 n = take_bit 32 (n + 2 ^ 31) - 2 ^ 31"
    by (simp add: i32_def signed_take_bit_eq_take_bit_shift)
  also have "take_bit 32 (n + 2 ^ 31) = n + 2 ^ 31 - 2 ^ 32"
  proof -
    have "(n + 2 ^ 31) mod 2 ^ 32 = (n + 2 ^ 31 - 2 ^ 32) mod (2 ^ 32 :: int)"
      by (rule minus_mod_self2 [symmetric])
    also have "\<dots> = n + 2 ^ 31 - 2 ^ 32"
      using n by (intro mod_pos_pos_trivial) simp_all
    finally show ?thesis by (simp only: take_bit_eq_mod)
  qed
  finally show ?thesis by simp
qed

lemma i32_mod: "i32 n = (n + 2 ^ 31) mod 2 ^ 32 - 2 ^ 31"
  by (simp add: i32_def signed_take_bit_eq_take_bit_shift take_bit_eq_mod)

lemma u32_mod: "u32 n = n mod 2 ^ 32"
  by (simp add: u32_def take_bit_eq_mod)

lemma u32_id: "0 \<le> n \<Longrightarrow> n < 2 ^ 32 \<Longrightarrow> u32 n = n"
  by (simp add: u32_mod)

lemma i32_u32 [simp]: "i32 (u32 n) = i32 n"
  by (simp add: i32_mod u32_mod mod_add_left_eq)

lemma i32_u32_mult: "i32 (u32 m * k) = i32 (m * k)"
proof -
  have "(u32 m * k + 2 ^ 31) mod 2 ^ 32 = (m * k + 2 ^ 31) mod 2 ^ 32"
    unfolding u32_mod by (metis mod_add_left_eq mod_mult_left_eq)
  then show ?thesis by (simp only: i32_mod)
qed

section \<open>Lists\<close>

lemma dropWhile_hd: "dropWhile P xs = y # ys \<Longrightarrow> \<not> P y"
  by (induction xs) (auto split: if_splits)

lemma length_dropWhile_append_le:
  "length (dropWhile P xs) \<le> length xs"
  by (rule length_dropWhile_le)

lemma length_takeWhile_less: "x \<in> set xs \<Longrightarrow> \<not> P x \<Longrightarrow> length (takeWhile P xs) < length xs"
  by (induction xs) auto

lemma those_Some_map: "those (map (\<lambda>x. Some (f x)) xs) = Some (map f xs)"
  by (induction xs) auto

lemma those_map_cong:
  "(\<And>x. x \<in> set xs \<Longrightarrow> g x = Some (f x)) \<Longrightarrow> those (map g xs) = Some (map f xs)"
  by (induction xs) auto

lemma take_length_append [simp]: "take (length xs) (xs @ ys) = xs"
  by simp

lemma drop_nth_Cons: "i < length xs \<Longrightarrow> drop i xs = xs ! i # drop (Suc i) xs"
  by (simp add: Cons_nth_drop_Suc)

end
