(* ===== verification/Qt_Bytes.thy ===== *)
theory Qt_Bytes
  imports Prelude
begin

text \<open>
  The string and number operations of the program's base library that its source calls on
  byte arrays and strings: trimming, searching, cutting, splitting, and the conversions
  between integers and text. They are modelled by their documented results; positions are
  \<open>int\<close>s because the source passes and tests \<open>-1\<close>. Operations the source applies to both
  byte arrays and 16-bit text are polymorphic.
\<close>

section \<open>White space\<close>

definition is_space :: "char \<Rightarrow> bool" where
  "is_space c \<longleftrightarrow> c = CHR '' '' \<or> (9 \<le> (of_char c :: nat) \<and> (of_char c :: nat) \<le> 13)"

definition ltrim :: "bytes \<Rightarrow> bytes" where
  "ltrim s = dropWhile is_space s"

definition trimmed :: "bytes \<Rightarrow> bytes" where
  "trimmed s = rev (ltrim (rev (ltrim s)))"

text \<open>A byte array without white space at either end.\<close>

definition tight :: "bytes \<Rightarrow> bool" where
  "tight s \<longleftrightarrow> s = [] \<or> (\<not> is_space (hd s) \<and> \<not> is_space (last s))"

lemma ltrim_suffix: "\<exists>p. s = p @ ltrim s"
  by (metis ltrim_def takeWhile_dropWhile_id)

lemma length_ltrim: "length (ltrim s) \<le> length s"
  by (simp add: ltrim_def length_dropWhile_le)

lemma length_trimmed: "length (trimmed s) \<le> length s"
  using length_ltrim [of "rev (ltrim s)"] length_ltrim [of s] by (simp add: trimmed_def)

lemma set_ltrim: "set (ltrim s) \<subseteq> set s"
  using set_dropWhileD by (fastforce simp: ltrim_def)

lemma set_trimmed: "set (trimmed s) \<subseteq> set s"
  using set_ltrim [of "rev (ltrim s)"] set_ltrim [of s] by (auto simp: trimmed_def)

lemma ltrim_tight: "ltrim s = [] \<or> \<not> is_space (hd (ltrim s))"
  unfolding ltrim_def using dropWhile_hd [of is_space s] by (cases "dropWhile is_space s") auto

lemma ltrim_id: "s = [] \<or> \<not> is_space (hd s) \<Longrightarrow> ltrim s = s"
  by (cases s) (auto simp: ltrim_def)

lemma trimmed_id: "tight s \<Longrightarrow> trimmed s = s"
  by (cases "s = []") (auto simp: tight_def trimmed_def ltrim_id hd_rev)

lemma last_ltrim: "ltrim s \<noteq> [] \<Longrightarrow> last (ltrim s) = last s"
  using ltrim_suffix [of s] by (metis last_appendR)

lemma tight_trimmed: "tight (trimmed s)"
proof -
  let ?r = "ltrim (rev (ltrim s))"
  have "?r \<noteq> [] \<Longrightarrow> \<not> is_space (last ?r)"
  proof -
    assume r: "?r \<noteq> []"
    have "ltrim s \<noteq> []"
    proof
      assume "ltrim s = []"
      with r show False by (auto simp: ltrim_def dest: set_dropWhileD)
    qed
    moreover from r have "last ?r = hd (ltrim s)"
      using last_ltrim [of "rev (ltrim s)"] by (simp add: last_rev)
    ultimately show ?thesis using ltrim_tight [of s] by simp
  qed
  then show ?thesis
    using ltrim_tight [of "rev (ltrim s)"]
    by (auto simp: tight_def trimmed_def hd_rev last_rev)
qed

lemma trimmed_trimmed: "trimmed (trimmed s) = trimmed s"
  by (rule trimmed_id [OF tight_trimmed])

section \<open>Searching and cutting\<close>

definition indexOf :: "'a list \<Rightarrow> 'a \<Rightarrow> int" where
  "indexOf s c = (if c \<in> set s then int (length (takeWhile (\<lambda>x. x \<noteq> c) s)) else - 1)"

definition indexOf_from :: "'a list \<Rightarrow> 'a \<Rightarrow> nat \<Rightarrow> int" where
  "indexOf_from s c n =
     (let r = indexOf (drop n s) c in if r < 0 then - 1 else r + int n)"

definition starts_with :: "'a list \<Rightarrow> 'a list \<Rightarrow> bool" where
  "starts_with s p \<longleftrightarrow> take (length p) s = p"

definition ends_with :: "'a list \<Rightarrow> 'a list \<Rightarrow> bool" where
  "ends_with s p \<longleftrightarrow> starts_with (rev s) (rev p)"

fun index_sub :: "'a list \<Rightarrow> 'a list \<Rightarrow> nat option" where
  "index_sub p [] = (if p = [] then Some 0 else None)"
| "index_sub p (x # xs) =
     (if starts_with (x # xs) p then Some 0 else map_option Suc (index_sub p xs))"

definition indexOf_sub :: "'a list \<Rightarrow> 'a list \<Rightarrow> nat \<Rightarrow> int" where
  "indexOf_sub s p n =
     (if length s < n then - 1
      else case index_sub p (drop n s) of None \<Rightarrow> - 1 | Some i \<Rightarrow> int (i + n))"

definition contains_sub :: "'a list \<Rightarrow> 'a list \<Rightarrow> bool" where
  "contains_sub s p \<longleftrightarrow> index_sub p s \<noteq> None"

text \<open>
  \<open>left\<close> and \<open>mid\<close> of a byte array: a negative length gives the empty array, a length past
  the end is cut, and \<open>mid\<close> without a length goes to the end.
\<close>

definition bleft :: "'a list \<Rightarrow> int \<Rightarrow> 'a list" where
  "bleft s n = take (nat n) s"

definition bmid :: "'a list \<Rightarrow> int \<Rightarrow> 'a list" where
  "bmid s pos = drop (nat pos) s"

definition bmid2 :: "'a list \<Rightarrow> int \<Rightarrow> int \<Rightarrow> 'a list" where
  "bmid2 s pos len =
     (if len < 0 then drop (nat pos) s
      else if pos < 0 then take (nat (len + pos)) s
      else take (nat len) (drop (nat pos) s))"

lemma indexOf_minus_one [simp]: "indexOf s c = - 1 \<longleftrightarrow> c \<notin> set s"
  by (simp add: indexOf_def)

lemma indexOf_neg: "indexOf s c < 0 \<longleftrightarrow> c \<notin> set s"
  by (simp add: indexOf_def)

lemma indexOf_ge0: "0 \<le> indexOf s c \<longleftrightarrow> c \<in> set s"
  by (simp add: indexOf_def)

lemma indexOf_append: "c \<notin> set xs \<Longrightarrow> indexOf (xs @ c # ys) c = int (length xs)"
proof -
  assume "c \<notin> set xs"
  then have "takeWhile (\<lambda>x. x \<noteq> c) (xs @ c # ys) = xs"
    by (induction xs) auto
  then show ?thesis by (simp add: indexOf_def)
qed

lemma indexOf_split:
  assumes "c \<in> set s"
  obtains xs ys where "s = xs @ c # ys" "c \<notin> set xs" "indexOf s c = int (length xs)"
  using split_list_first [OF assms] indexOf_append by metis

lemma indexOf_less: "c \<in> set s \<Longrightarrow> indexOf s c < int (length s)"
  by (erule indexOf_split) simp

lemma starts_with_append [simp]: "starts_with (p @ s) p"
  by (simp add: starts_with_def)

lemma starts_with_iff: "starts_with s p \<longleftrightarrow> (\<exists>t. s = p @ t)"
  unfolding starts_with_def by (metis append_eq_conv_conj append_take_drop_id)

section \<open>Splitting\<close>

fun split_on :: "'a \<Rightarrow> 'a list \<Rightarrow> 'a list list" where
  "split_on c [] = [[]]"
| "split_on c (x # xs) =
     (if x = c then [] # split_on c xs
      else case split_on c xs of [] \<Rightarrow> [[x]] | y # ys \<Rightarrow> (x # y) # ys)"

fun join_with :: "'a list \<Rightarrow> 'a list list \<Rightarrow> 'a list" where
  "join_with sep [] = []"
| "join_with sep [x] = x"
| "join_with sep (x # y # ys) = x @ sep @ join_with sep (y # ys)"

lemma split_on_nonempty [simp]: "split_on c s \<noteq> []"
  by (induction s) (auto split: list.splits)

lemma split_on_none: "c \<notin> set s \<Longrightarrow> split_on c s = [s]"
  by (induction s) auto

lemma split_on_append: "c \<notin> set x \<Longrightarrow> split_on c (x @ c # s) = x # split_on c s"
  by (induction x) auto

lemma split_join:
  "xs \<noteq> [] \<Longrightarrow> \<forall>x \<in> set xs. c \<notin> set x \<Longrightarrow> split_on c (join_with [c] xs) = xs"
  by (induction "[c]" xs rule: join_with.induct)
    (auto simp: split_on_none split_on_append)

lemma split_on_parts: "x \<in> set (split_on c s) \<Longrightarrow> c \<notin> set x"
  by (induction s arbitrary: x) (auto split: list.splits if_splits)

lemma join_split: "join_with [c] (split_on c s) = s"
proof (induction s)
  case (Cons x s)
  then show ?case
    by (cases "split_on c s"; cases "tl (split_on c s)") auto
qed simp

section \<open>Replacing\<close>

definition replace_char :: "'a \<Rightarrow> 'a list \<Rightarrow> 'a list \<Rightarrow> 'a list" where
  "replace_char c r s = concat (map (\<lambda>x. if x = c then r else [x]) s)"

lemma replace_char_append [simp]:
  "replace_char c r (s @ t) = replace_char c r s @ replace_char c r t"
  by (simp add: replace_char_def)

lemma replace_char_simps [simp]:
  "replace_char c r [] = []"
  "replace_char c r (x # s) = (if x = c then r else [x]) @ replace_char c r s"
  by (simp_all add: replace_char_def)

lemma replace_char_absent: "c \<notin> set s \<Longrightarrow> replace_char c r s = s"
  by (induction s) auto

section \<open>Integers as text\<close>

fun digits :: "nat \<Rightarrow> nat \<Rightarrow> nat list" where
  "digits b n = (if n < b \<or> b < 2 then [n] else digits b (n div b) @ [n mod b])"

declare digits.simps [simp del]

definition of_digits :: "nat \<Rightarrow> nat list \<Rightarrow> nat" where
  "of_digits b ds = foldl (\<lambda>a d. a * b + d) 0 ds"

lemma digits_nonempty [simp]: "digits b n \<noteq> []"
  by (subst digits.simps) simp

lemma digits_less: "2 \<le> b \<Longrightarrow> d \<in> set (digits b n) \<Longrightarrow> d < b"
proof (induction b n rule: digits.induct)
  case (1 b n)
  then show ?case
    by (cases "n < b") (auto simp: digits.simps [of b n])
qed

lemma of_digits_snoc: "of_digits b (ds @ [d]) = of_digits b ds * b + d"
  by (simp add: of_digits_def)

lemma of_digits_digits: "2 \<le> b \<Longrightarrow> of_digits b (digits b n) = n"
proof (induction b n rule: digits.induct)
  case (1 b n)
  then show ?case
    by (cases "n < b") (simp_all add: digits.simps [of b n] of_digits_snoc, simp add: of_digits_def)
qed

lemma hd_digits: "2 \<le> b \<Longrightarrow> 0 < n \<Longrightarrow> 0 < hd (digits b n)"
proof (induction b n rule: digits.induct)
  case (1 b n)
  then show ?case
    by (cases "n < b") (auto simp: digits.simps [of b n] div_greater_zero_iff)
qed

text \<open>The characters of digits: decimal digits, then lower case letters.\<close>

definition digit_char :: "nat \<Rightarrow> char" where
  "digit_char d = (if d < 10 then char_of (48 + d) else char_of (87 + d))"

definition char_digit :: "char \<Rightarrow> nat option" where
  "char_digit c =
     (let n = (of_char c :: nat) in
      if 48 \<le> n \<and> n \<le> 57 then Some (n - 48)
      else if 97 \<le> n \<and> n \<le> 122 then Some (n - 87)
      else if 65 \<le> n \<and> n \<le> 90 then Some (n - 55)
      else None)"

definition digit_in :: "nat \<Rightarrow> char \<Rightarrow> nat option" where
  "digit_in b c =
     (case char_digit c of None \<Rightarrow> None | Some d \<Rightarrow> if d < b then Some d else None)"

definition parse_nat :: "nat \<Rightarrow> bytes \<Rightarrow> nat option" where
  "parse_nat b s =
     (if s = [] then None else map_option (of_digits b) (those (map (digit_in b) s)))"

definition nat_text :: "nat \<Rightarrow> nat \<Rightarrow> bytes" where
  "nat_text b n = map digit_char (digits b n)"

definition int_text :: "nat \<Rightarrow> int \<Rightarrow> bytes" where
  "int_text b n = (if n < 0 then CHR ''-'' # nat_text b (nat (- n)) else nat_text b (nat n))"

lemma of_char_digit_char: "d < 36 \<Longrightarrow> (of_char (digit_char d) :: nat) = (if d < 10 then 48 + d else 87 + d)"
  by (simp add: digit_char_def)

lemma char_digit_char: "d < 36 \<Longrightarrow> char_digit (digit_char d) = Some d"
  by (simp add: char_digit_def of_char_digit_char Let_def)

lemma digit_in_char: "d < b \<Longrightarrow> b \<le> 36 \<Longrightarrow> digit_in b (digit_char d) = Some d"
  by (simp add: digit_in_def char_digit_char)

lemma nat_text_nonempty [simp]: "nat_text b n \<noteq> []"
  by (simp add: nat_text_def)

lemma nat_text_chars: "2 \<le> b \<Longrightarrow> c \<in> set (nat_text b n) \<Longrightarrow> \<exists>d<b. c = digit_char d"
  by (auto simp: nat_text_def dest: digits_less)

lemma parse_nat_text:
  assumes "2 \<le> b" "b \<le> 36"
  shows "parse_nat b (nat_text b n) = Some n"
proof -
  have "those (map (digit_in b) (nat_text b n)) = Some (map (\<lambda>d. d) (digits b n))"
    unfolding nat_text_def map_map
    by (rule those_map_cong) (use assms digits_less digit_in_char in auto)
  then show ?thesis using assms by (simp add: parse_nat_def of_digits_digits)
qed

text \<open>
  Reading an integer: an optional sign, in base 16 an optional \<open>0x\<close>, then digits to the
  end. A byte array may have leading white space, a string white space at both ends. The
  result must fit the type asked for.
\<close>

definition parse_unsigned :: "nat \<Rightarrow> bytes \<Rightarrow> nat option" where
  "parse_unsigned b s =
     (if b = 16 \<and> (starts_with s ''0x'' \<or> starts_with s ''0X'') then parse_nat 16 (drop 2 s)
      else parse_nat b s)"

definition parse_signed :: "nat \<Rightarrow> bytes \<Rightarrow> int option" where
  "parse_signed b s =
     (case s of [] \<Rightarrow> None
      | c # t \<Rightarrow>
          if c = CHR ''-'' then map_option (\<lambda>n. - int n) (parse_unsigned b t)
          else if c = CHR ''+'' then map_option int (parse_unsigned b t)
          else map_option int (parse_unsigned b s))"

definition int_in :: "int \<Rightarrow> int \<Rightarrow> int option \<Rightarrow> int option" where
  "int_in lo hi r = (case r of None \<Rightarrow> None | Some v \<Rightarrow> if lo \<le> v \<and> v \<le> hi then Some v else None)"

definition bytes_toInt :: "nat \<Rightarrow> bytes \<Rightarrow> int option" where
  "bytes_toInt b s = int_in (- (2 ^ 31)) (2 ^ 31 - 1) (parse_signed b (ltrim s))"

text \<open>\<open>toInt\<close> without the \<open>ok\<close> flag: a failed conversion is 0.\<close>

definition or_zero :: "int option \<Rightarrow> int" where
  "or_zero r = (case r of None \<Rightarrow> 0 | Some v \<Rightarrow> v)"

lemma digit_char_plain:
  assumes "d < 36"
  shows "digit_char d \<noteq> CHR ''-''" "digit_char d \<noteq> CHR ''+''" "\<not> is_space (digit_char d)"
proof -
  have *: "digit_char d = c \<Longrightarrow> (of_char c :: nat) = (if d < 10 then 48 + d else 87 + d)" for c
    using of_char_digit_char [OF assms] by auto
  show "digit_char d \<noteq> CHR ''-''" using * [of "CHR ''-''"] assms by (auto split: if_splits)
  show "digit_char d \<noteq> CHR ''+''" using * [of "CHR ''+''"] assms by (auto split: if_splits)
  show "\<not> is_space (digit_char d)"
  proof
    assume "is_space (digit_char d)"
    then have "(of_char (digit_char d) :: nat) \<le> 32" by (auto simp: is_space_def)
    then show False using of_char_digit_char [OF assms] by (auto split: if_splits)
  qed
qed

lemma nat_text_hd:
  assumes "2 \<le> b" "b \<le> 36"
  obtains d t where "nat_text b n = digit_char d # t" "d < 36"
  using assms digits_less [of b "hd (digits b n)" n]
  by (cases "digits b n") (auto simp: nat_text_def)

lemma parse_signed_text: "parse_signed 10 (int_text 10 n) = Some n"
proof -
  obtain d t where t: "nat_text 10 (nat n) = digit_char d # t" "d < 36"
    by (rule nat_text_hd [of 10 "nat n"]) auto
  have "parse_signed 10 (nat_text 10 (nat n)) = Some (int (nat n))"
    using parse_nat_text [of 10 "nat n"] t digit_char_plain [of d]
    by (simp add: parse_signed_def parse_unsigned_def)
  then show ?thesis
    using parse_nat_text [of 10 "nat (- n)"]
    by (auto simp: int_text_def parse_signed_def parse_unsigned_def)
qed

lemma int_text_tight: "ltrim (int_text 10 n) = int_text 10 n"
proof -
  obtain d t where "nat_text 10 (nat n) = digit_char d # t" "d < 36"
    by (rule nat_text_hd [of 10 "nat n"]) auto
  then show ?thesis
    using digit_char_plain [of d] by (auto simp: int_text_def ltrim_def is_space_def)
qed

lemma toInt_text: "in_i32 n \<Longrightarrow> bytes_toInt 10 (int_text 10 n) = Some n"
  by (simp add: bytes_toInt_def int_text_tight parse_signed_text int_in_def in_i32_def)

lemma bytes_toInt_range: "bytes_toInt b s = Some v \<Longrightarrow> in_i32 v"
  by (auto simp: bytes_toInt_def int_in_def in_i32_def split: option.splits if_splits)

lemma or_zero_range: "in_i32 (or_zero (bytes_toInt b s))"
  by (cases "bytes_toInt b s") (auto simp: or_zero_def in_i32_def dest: bytes_toInt_range)

definition to_hex :: "bytes \<Rightarrow> bytes" where
  "to_hex s = concat (map (\<lambda>c. [digit_char (of_char c div 16), digit_char (of_char c mod 16)]) s)"

lemma length_to_hex [simp]: "length (to_hex s) = 2 * length s"
  by (induction s) (simp_all add: to_hex_def)

text \<open>A string's number may have white space at both ends.\<close>

definition string_toInt :: "bytes \<Rightarrow> int option" where
  "string_toInt s = int_in (- (2 ^ 31)) (2 ^ 31 - 1) (parse_signed 10 (trimmed s))"

definition lower_case :: "bytes \<Rightarrow> bytes" where
  "lower_case s = map (\<lambda>c. let n = (of_char c :: nat) in if 65 \<le> n \<and> n \<le> 90 then char_of (n + 32) else c) s"

lemma trimmed_int_text: "trimmed (int_text 10 n) = int_text 10 n"
proof (rule trimmed_id)
  have "\<not> is_space c" if "c \<in> set (int_text 10 n)" for c
  proof -
    have "\<not> is_space x" if "x \<in> set (nat_text 10 m)" for x m
      using nat_text_chars [of 10 x m] that digit_char_plain(3) by auto
    moreover have "\<not> is_space (CHR ''-'')" by (simp add: is_space_def)
    ultimately show ?thesis using that by (auto simp: int_text_def split: if_splits)
  qed
  then show "tight (int_text 10 n)"
    by (cases "int_text 10 n = []") (auto simp: tight_def)
qed

text \<open>An IPv4 address as text: its four bytes in decimal.\<close>

definition ip_text :: "32 word \<Rightarrow> bytes" where
  "ip_text ip = join_with ''.'' (map (\<lambda>k. int_text 10 (int ((unat ip div 256 ^ k) mod 256))) [3, 2, 1, 0])"

end
