(* ===== verification/Qt_Maps.thy ===== *)
theory Qt_Maps
  imports Prelude
begin

text \<open>
  The containers with keys that the program uses. A \<open>QMap\<close> iterates in the order of its keys,
  so it is a list of pairs with strictly increasing keys; a \<open>QMultiMap\<close> keeps several values
  of a key, the most recently inserted first. The locale \<open>keyed_store\<close> is the contract its
  clients rely on; \<open>qm\<close> interprets it on the model of \<open>QMap\<close>.
\<close>

section \<open>The contract of a store with keys\<close>

locale keyed_store =
  fixes look :: "'s \<Rightarrow> 'k \<Rightarrow> 'v option"
    and ins :: "'k \<Rightarrow> 'v \<Rightarrow> 's \<Rightarrow> 's"
    and del :: "'k \<Rightarrow> 's \<Rightarrow> 's"
    and ok :: "'s \<Rightarrow> bool"
  assumes look_ins: "ok s \<Longrightarrow> look (ins k v s) = (look s)(k \<mapsto> v)"
    and look_del: "ok s \<Longrightarrow> look (del k s) = (look s)(k := None)"
    and ok_ins: "ok s \<Longrightarrow> ok (ins k v s)"
    and ok_del: "ok s \<Longrightarrow> ok (del k s)"
begin

lemma look_ins_same: "ok s \<Longrightarrow> look (ins k v s) k = Some v"
  by (simp add: look_ins)

lemma look_ins_other: "ok s \<Longrightarrow> k \<noteq> k' \<Longrightarrow> look (ins k v s) k' = look s k'"
  by (simp add: look_ins)

lemma look_del_ins: "ok s \<Longrightarrow> look (del k (ins k v s)) = (look s)(k := None)"
  by (simp add: look_del look_ins ok_ins)

lemma ok_fold_ins: "ok s \<Longrightarrow> ok (fold (\<lambda>(k, v). ins k v) kvs s)"
  by (induction kvs arbitrary: s) (auto simp: ok_ins)

text \<open>A loop of insertions leaves, for each key, the value inserted last.\<close>

lemma look_fold_ins:
  "ok s \<Longrightarrow> look (fold (\<lambda>(k, v). ins k v) kvs s) = look s ++ map_of (rev kvs)"
proof (induction kvs arbitrary: s)
  case (Cons kv kvs)
  obtain k v where kv: "kv = (k, v)" by (cases kv)
  from Cons show ?case by (auto simp: kv ok_ins look_ins map_add_def fun_eq_iff split: option.splits)
qed simp

lemma ok_fold_del: "ok s \<Longrightarrow> ok (fold del ks s)"
  by (induction ks arbitrary: s) (auto simp: ok_del)

text \<open>A loop of removals removes exactly the keys it names.\<close>

lemma look_fold_del: "ok s \<Longrightarrow> look (fold del ks s) k = (if k \<in> set ks then None else look s k)"
  by (induction ks arbitrary: s) (auto simp: ok_del look_del)

end

section \<open>QMap\<close>

lemma map_of_rev_distinct: "distinct (map fst xs) \<Longrightarrow> map_of (rev xs) = map_of xs"
proof
  fix k assume d: "distinct (map fst xs)"
  then have "distinct (map fst (rev xs))" by (simp add: rev_map [symmetric])
  show "map_of (rev xs) k = map_of xs k"
  proof (cases "map_of xs k")
    case None
    then have "map_of (rev xs) k = None" by (simp only: map_of_eq_None_iff set_rev simp_thms)
    with None show ?thesis by simp
  next
    case (Some v)
    then have "(k, v) \<in> set (rev xs)" by (auto dest: map_of_SomeD)
    with Some \<open>distinct (map fst (rev xs))\<close> show ?thesis by (simp only: map_of_is_SomeI)
  qed
qed

type_synonym ('k, 'v) qmap = "('k \<times> 'v) list"

definition qm_ok :: "('k::linorder, 'v) qmap \<Rightarrow> bool" where
  "qm_ok m \<longleftrightarrow> sorted_wrt (<) (map fst m)"

abbreviation qm_get :: "('k, 'v) qmap \<Rightarrow> 'k \<Rightarrow> 'v option" where
  "qm_get m k \<equiv> map_of m k"

fun qm_insert :: "'k::linorder \<Rightarrow> 'v \<Rightarrow> ('k, 'v) qmap \<Rightarrow> ('k, 'v) qmap" where
  "qm_insert k v [] = [(k, v)]"
| "qm_insert k v ((k', v') # m) =
     (if k < k' then (k, v) # (k', v') # m
      else if k = k' then (k, v) # m
      else (k', v') # qm_insert k v m)"

definition qm_remove :: "'k \<Rightarrow> ('k, 'v) qmap \<Rightarrow> ('k, 'v) qmap" where
  "qm_remove k m = filter (\<lambda>kv. fst kv \<noteq> k) m"

definition qm_contains :: "('k, 'v) qmap \<Rightarrow> 'k \<Rightarrow> bool" where
  "qm_contains m k \<longleftrightarrow> qm_get m k \<noteq> None"

definition qm_value :: "'v \<Rightarrow> ('k, 'v) qmap \<Rightarrow> 'k \<Rightarrow> 'v" where
  "qm_value d m k = (case qm_get m k of None \<Rightarrow> d | Some v \<Rightarrow> v)"

lemma qm_ok_Nil [simp]: "qm_ok []"
  by (simp add: qm_ok_def)

lemma qm_ok_Cons: "qm_ok (kv # m) \<longleftrightarrow> (\<forall>k \<in> fst ` set m. fst kv < k) \<and> qm_ok m"
  by (auto simp: qm_ok_def)

lemma qm_ok_distinct: "qm_ok m \<Longrightarrow> distinct (map fst m)"
  by (simp add: qm_ok_def strict_sorted_iff)

lemma qm_insert_keys: "fst ` set (qm_insert k v m) = insert k (fst ` set m)"
  by (induction k v m rule: qm_insert.induct) auto

lemma qm_insert_set: "set (qm_insert k v m) \<subseteq> insert (k, v) (set m)"
  by (induction k v m rule: qm_insert.induct) auto

lemma qm_insert_new: "k \<notin> fst ` set m \<Longrightarrow> set (qm_insert k v m) = insert (k, v) (set m)"
  by (induction k v m rule: qm_insert.induct) auto

lemma qm_remove_set: "set (qm_remove k m) = {kv \<in> set m. fst kv \<noteq> k}"
  by (auto simp: qm_remove_def)

lemma qm_ok_insert: "qm_ok m \<Longrightarrow> qm_ok (qm_insert k v m)"
proof (induction k v m rule: qm_insert.induct)
  case (2 k v k' v' m)
  then show ?case by (auto simp: qm_ok_Cons qm_insert_keys)
qed (simp add: qm_ok_Cons)

lemma qm_get_insert: "qm_get (qm_insert k v m) = (map_of m)(k \<mapsto> v)"
  by (induction k v m rule: qm_insert.induct) (auto simp: fun_eq_iff)

lemma qm_get_remove: "qm_get (qm_remove k m) = (map_of m)(k := None)"
  by (induction m) (auto simp: qm_remove_def fun_eq_iff)

lemma qm_ok_filter: "qm_ok m \<Longrightarrow> qm_ok (filter P m)"
  by (induction m) (auto simp: qm_ok_Cons)

lemma qm_ok_remove: "qm_ok m \<Longrightarrow> qm_ok (qm_remove k m)"
  by (simp add: qm_remove_def qm_ok_filter)

interpretation qm: keyed_store map_of qm_insert qm_remove qm_ok
  by unfold_locales (simp_all add: qm_get_insert qm_get_remove qm_ok_insert qm_ok_remove)

lemma qm_insert_last: "\<forall>kv \<in> set m. fst kv < k \<Longrightarrow> qm_insert k v m = m @ [(k, v)]"
  by (induction k v m rule: qm_insert.induct) auto

text \<open>Inserting the pairs of a map in its own order rebuilds the map.\<close>

lemma qm_fold_insert:
  "qm_ok (m @ n) \<Longrightarrow> fold (\<lambda>(k, v). qm_insert k v) n m = m @ n"
proof (induction n arbitrary: m)
  case (Cons kv n)
  obtain k v where kv: "kv = (k, v)" by (cases kv)
  have "\<forall>x \<in> set m. fst x < k"
    using Cons.prems by (auto simp: qm_ok_def sorted_wrt_append kv)
  then show ?case using Cons.IH [of "m @ [(k, v)]"] Cons.prems
    by (simp add: kv qm_insert_last)
qed simp

lemma qm_rebuild: "qm_ok m \<Longrightarrow> fold (\<lambda>(k, v). qm_insert k v) m [] = m"
  using qm_fold_insert [of "[]" m] by simp

section \<open>QMultiMap\<close>

fun mm_insert :: "'k::linorder \<Rightarrow> 'v \<Rightarrow> ('k \<times> 'v) list \<Rightarrow> ('k \<times> 'v) list" where
  "mm_insert k v [] = [(k, v)]"
| "mm_insert k v ((k', v') # m) =
     (if k \<le> k' then (k, v) # (k', v') # m else (k', v') # mm_insert k v m)"

definition mm_values :: "('k \<times> 'v) list \<Rightarrow> 'k \<Rightarrow> 'v list" where
  "mm_values m k = map snd (filter (\<lambda>kv. fst kv = k) m)"

definition mm_ok :: "('k::linorder \<times> 'v) list \<Rightarrow> bool" where
  "mm_ok m \<longleftrightarrow> sorted (map fst m)"

lemma mm_insert_set: "set (mm_insert k v m) = insert (k, v) (set m)"
  by (induction k v m rule: mm_insert.induct) auto

lemma mm_ok_insert: "mm_ok m \<Longrightarrow> mm_ok (mm_insert k v m)"
  unfolding mm_ok_def
  by (induction k v m rule: mm_insert.induct) (auto simp: mm_insert_set)

lemma mm_values_insert:
  "mm_ok m \<Longrightarrow> mm_values (mm_insert k v m) k' = (if k' = k then v # mm_values m k else mm_values m k')"
  unfolding mm_ok_def mm_values_def
  by (induction k v m rule: mm_insert.induct) auto

text \<open>\<open>value\<close> of a multi map gives the most recently inserted value of the key.\<close>

lemma mm_value_insert:
  "mm_ok m \<Longrightarrow> map_of (mm_insert k v m) = (map_of m)(k \<mapsto> v)"
proof (induction k v m rule: mm_insert.induct)
  case (2 k v k' v' m)
  then show ?case by (auto simp: mm_ok_def fun_eq_iff)
qed simp

interpretation mm: keyed_store map_of mm_insert qm_remove mm_ok
proof (unfold_locales, goal_cases)
  case (1 s k v) then show ?case by (rule mm_value_insert)
next
  case (2 s k) show ?case by (rule qm_get_remove)
next
  case (3 s k v) then show ?case by (rule mm_ok_insert)
next
  case (4 s k) then show ?case
    by (induction s) (auto simp: mm_ok_def qm_remove_def)
qed

end
