(* ===== verification/Json.thy ===== *)
theory Json
  imports Qt_Bytes Qt_Maps
begin

text \<open>
  The parser of \<open>json/json.cpp\<close> (namespace QtJson): the lexer with its position in the text,
  the string and number scanners, and the recursive descent over values, objects and arrays.
  A read of the text outside its bounds is the outcome \<open>Fault\<close>; the recursion of the parser
  runs on fuel, whose end is \<open>Loop\<close>. The lemmas show that neither ever happens.
\<close>

section \<open>Values and outcomes\<close>

text \<open>
  \<open>QVariant\<close> as far as \<open>json.cpp\<close> tells its types apart. A double has the abstract type
  \<open>'d\<close>. \<open>QOther\<close> is any other type, with its string conversion if it has one.
\<close>

datatype 'd qvariant =
    QInvalid
  | QBool bool
  | QInt int
  | QUInt int
  | QLongLong int
  | QULongLong int
  | QDouble 'd
  | QString qtext
  | QByteArray bytes
  | QStringList "qtext list"
  | QList "'d qvariant list"
  | QMap "(qtext \<times> 'd qvariant) list"
  | QHash "(qtext \<times> 'd qvariant) list"
  | QOther "qtext option"

definition qc :: "char \<Rightarrow> qchar" where
  "qc c = of_char c"

definition qs :: "bytes \<Rightarrow> qtext" where
  "qs s = map qc s"

definition char_at :: "qtext \<Rightarrow> nat \<Rightarrow> qchar option" where
  "char_at js i = (if i < length js then Some (js ! i) else None)"

lemma qc_eq [simp]: "qc c = qc d \<longleftrightarrow> c = d"
proof
  assume "qc c = qc d"
  then have "unat (qc c) = unat (qc d)" by simp
  moreover have "unat (qc x) = (of_char x :: nat)" for x
  proof -
    have "(of_char x :: nat) < 256" by simp
    then show ?thesis unfolding qc_def by (simp add: of_char_def unat_of_nat)
  qed
  ultimately show "c = d" by (metis char_of_char of_char_eq_iff)
qed simp

section \<open>The lexer\<close>

datatype json_token =
    JsonTokenNone | JsonTokenCurlyOpen | JsonTokenCurlyClose | JsonTokenSquaredOpen
  | JsonTokenSquaredClose | JsonTokenColon | JsonTokenComma | JsonTokenString
  | JsonTokenNumber | JsonTokenTrue | JsonTokenFalse | JsonTokenNull

definition is_ws :: "qchar \<Rightarrow> bool" where
  "is_ws c \<longleftrightarrow> c \<in> set (map qc [CHR '' '', CHR 0x09, CHR 0x0A, CHR 0x0D])"

definition is_number_char :: "qchar \<Rightarrow> bool" where
  "is_number_char c \<longleftrightarrow> c \<in> set (qs ''0123456789+-.eE'')"

function eatWhitespace :: "qtext \<Rightarrow> nat \<Rightarrow> nat" where
  "eatWhitespace js i = (if i < length js \<and> is_ws (js ! i) then eatWhitespace js (Suc i) else i)"
  by pat_completeness auto
termination by (relation "measure (\<lambda>(js, i). length js - i)") auto

declare eatWhitespace.simps [simp del]

text \<open>The single character tokens of the \<open>switch\<close> in \<open>nextToken\<close>.\<close>

definition token_of :: "qchar \<Rightarrow> json_token option" where
  "token_of c =
     (if c = qc (CHR ''{'') then Some JsonTokenCurlyOpen
      else if c = qc (CHR ''}'') then Some JsonTokenCurlyClose
      else if c = qc (CHR ''['') then Some JsonTokenSquaredOpen
      else if c = qc (CHR '']'') then Some JsonTokenSquaredClose
      else if c = qc (CHR '','') then Some JsonTokenComma
      else if c = qc (CHR 0x22) then Some JsonTokenString
      else if c \<in> set (qs ''0123456789-'') then Some JsonTokenNumber
      else if c = qc (CHR '':'') then Some JsonTokenColon
      else None)"

definition word_at :: "qtext \<Rightarrow> nat \<Rightarrow> bytes \<Rightarrow> bool" where
  "word_at js i w \<longleftrightarrow> int (length w) \<le> int (length js) - int i \<and> take (length w) (drop i js) = qs w"

definition nextToken :: "qtext \<Rightarrow> nat \<Rightarrow> (json_token \<times> nat) run" where
  "nextToken js i0 =
     (let i = eatWhitespace js i0 in
      if i = length js then Done (JsonTokenNone, i)
      else case char_at js i of
        None \<Rightarrow> Fault
      | Some c \<Rightarrow>
          (case token_of c of
             Some t \<Rightarrow> Done (t, Suc i)
           | None \<Rightarrow>
               if word_at js i ''true'' then Done (JsonTokenTrue, i + 4)
               else if word_at js i ''false'' then Done (JsonTokenFalse, i + 5)
               else if word_at js i ''null'' then Done (JsonTokenNull, i + 4)
               else Done (JsonTokenNone, i)))"

definition lookAhead :: "qtext \<Rightarrow> nat \<Rightarrow> json_token run" where
  "lookAhead js i = rbind (nextToken js i) (\<lambda>(t, _). Done t)"

lemma eatWhitespace_drop: "eatWhitespace js i = i + length (takeWhile is_ws (drop i js))"
proof (induction js i rule: eatWhitespace.induct)
  case (1 js i)
  show ?case
  proof (cases "i < length js")
    case True
    then have "drop i js = js ! i # drop (Suc i) js" by (rule drop_nth_Cons)
    with 1 True show ?thesis by (simp add: eatWhitespace.simps [of js i])
  qed (simp add: eatWhitespace.simps [of js i])
qed

lemma eatWhitespace_ge: "i \<le> eatWhitespace js i"
  by (simp add: eatWhitespace_drop)

lemma eatWhitespace_le: "i \<le> length js \<Longrightarrow> eatWhitespace js i \<le> length js"
  using length_takeWhile_le [of is_ws "drop i js"] by (simp add: eatWhitespace_drop)

lemma eatWhitespace_idem: "eatWhitespace js (eatWhitespace js i) = eatWhitespace js i"
proof (induction js i rule: eatWhitespace.induct)
  case (1 js i)
  then show ?case
    by (cases "i < length js \<and> is_ws (js ! i)") (auto simp: eatWhitespace.simps [of js i])
qed

lemma word_at_le: "word_at js i w \<Longrightarrow> i + length w \<le> length js"
  by (simp add: word_at_def)

text \<open>
  The lexer never reads outside the text, never moves back, and moves forward whenever it
  finds a token.
\<close>

lemma nextToken_run:
  assumes "i \<le> length js"
  shows "\<exists>t j. nextToken js i = Done (t, j) \<and> eatWhitespace js i \<le> j \<and> i \<le> j \<and> j \<le> length js
    \<and> (t \<noteq> JsonTokenNone \<longrightarrow> eatWhitespace js i < j)"
proof -
  let ?k = "eatWhitespace js i"
  have k: "i \<le> ?k" "?k \<le> length js"
    using assms eatWhitespace_ge eatWhitespace_le by auto
  then show ?thesis
    using word_at_le [of js ?k "''true''"] word_at_le [of js ?k "''false''"]
      word_at_le [of js ?k "''null''"]
    by (auto simp: nextToken_def Let_def char_at_def split: option.split)
qed

lemma nextToken_cases:
  assumes "i \<le> length js"
  obtains t j where "nextToken js i = Done (t, j)" "lookAhead js i = Done t" "i \<le> j"
    "j \<le> length js" "t \<noteq> JsonTokenNone \<Longrightarrow> eatWhitespace js i < j"
  using nextToken_run [OF assms] by (auto simp: lookAhead_def)

section \<open>Strings and numbers\<close>

text \<open>
  Reading an integer from 16-bit text: white space at both ends is skipped, and only ASCII
  digits count.
\<close>

definition ascii_of :: "qtext \<Rightarrow> bytes option" where
  "ascii_of s = those (map (\<lambda>u. if unat u < 128 then Some (char_of (unat u)) else None) s)"

definition qtext_int :: "nat \<Rightarrow> int \<Rightarrow> int \<Rightarrow> qtext \<Rightarrow> int option" where
  "qtext_int b lo hi s =
     (case ascii_of s of None \<Rightarrow> None | Some a \<Rightarrow> int_in lo hi (parse_signed b (trimmed a)))"

definition hex_symbol :: "qtext \<Rightarrow> qchar" where
  "hex_symbol s = word_of_int (or_zero (qtext_int 16 (- (2 ^ 31)) (2 ^ 31 - 1) s))"

text \<open>The escapes of one character, in the order of the source's tests.\<close>

definition simple_escape :: "qchar \<Rightarrow> qchar option" where
  "simple_escape e =
     (if e = qc (CHR 0x22) then Some (qc (CHR 0x22))
      else if e = qc (CHR 0x5C) then Some (qc (CHR 0x5C))
      else if e = qc (CHR ''/'') then Some (qc (CHR ''/''))
      else if e = qc (CHR ''b'') then Some (qc (CHR 0x08))
      else if e = qc (CHR ''f'') then Some (qc (CHR 0x0C))
      else if e = qc (CHR ''n'') then Some (qc (CHR 0x0A))
      else if e = qc (CHR ''r'') then Some (qc (CHR 0x0D))
      else if e = qc (CHR ''t'') then Some (qc (CHR 0x09))
      else None)"

text \<open>
  The loop of \<open>parseString\<close> after the opening character: \<open>s\<close> is the text read so far; the
  result is the position and the text, or no text when the closing quote is missing. An
  escape the parser does not know is dropped.
\<close>

function parseString_loop :: "qtext \<Rightarrow> nat \<Rightarrow> qtext \<Rightarrow> (nat \<times> qtext option) run" where
  "parseString_loop js i s =
     (if i = length js then Done (i, None)
      else if length js < i then Fault
      else let c = js ! i in
        if c = qc (CHR 0x22) then Done (Suc i, Some s)
        else if c = qc (CHR 0x5C) then
          (if Suc i = length js then Done (Suc i, None)
           else let e = js ! Suc i; j = Suc (Suc i) in
             case simple_escape e of
               Some x \<Rightarrow> parseString_loop js j (s @ [x])
             | None \<Rightarrow>
               if e = qc (CHR ''u'') then
               (if 4 \<le> int (length js) - int j
                then parseString_loop js (j + 4) (s @ [hex_symbol (take 4 (drop j js))])
                else Done (j, None))
             else parseString_loop js j s)
        else parseString_loop js (Suc i) (s @ [c]))"
  by pat_completeness auto
termination by (relation "measure (\<lambda>(js, i, s). length js - i)") auto

declare parseString_loop.simps [simp del]

text \<open>
  \<open>parseString\<close>: the value, the new position, and whether \<open>success\<close> is still set. The first
  character is consumed without looking at it.
\<close>

definition parseString :: "qtext \<Rightarrow> nat \<Rightarrow> ('d qvariant \<times> nat \<times> bool) run" where
  "parseString js i0 =
     (let i = eatWhitespace js i0 in
      case char_at js i of
        None \<Rightarrow> Fault
      | Some _ \<Rightarrow> rbind (parseString_loop js (Suc i) [])
          (\<lambda>(j, r). case r of None \<Rightarrow> Done (QInvalid, j, False) | Some s \<Rightarrow> Done (QString s, j, True)))"

text \<open>\<open>QVariant::toString\<close> on the results of \<open>parseString\<close>.\<close>

definition variant_text :: "'d qvariant \<Rightarrow> qtext" where
  "variant_text v = (case v of QString s \<Rightarrow> s | _ \<Rightarrow> [])"

function number_end :: "qtext \<Rightarrow> nat \<Rightarrow> nat" where
  "number_end js i = (if i < length js \<and> is_number_char (js ! i) then number_end js (Suc i) else i)"
  by pat_completeness auto
termination by (relation "measure (\<lambda>(js, i). length js - i)") auto

declare number_end.simps [simp del]

definition lastIndexOfNumber :: "qtext \<Rightarrow> nat \<Rightarrow> int" where
  "lastIndexOfNumber js i = int (number_end js i) - 1"

definition number_value :: "(qtext \<Rightarrow> 'd) \<Rightarrow> qtext \<Rightarrow> 'd qvariant" where
  "number_value dbl s =
     (if qc (CHR ''.'') \<in> set s then QDouble (dbl s)
      else if starts_with s (qs ''-'') then
        (case qtext_int 10 (- (2 ^ 31)) (2 ^ 31 - 1) s of
           Some n \<Rightarrow> QInt n
         | None \<Rightarrow>
             (case qtext_int 10 (- (2 ^ 63)) (2 ^ 63 - 1) s of
                Some n \<Rightarrow> QLongLong n | None \<Rightarrow> QString s))
      else
        (case qtext_int 10 0 (2 ^ 32 - 1) s of
           Some n \<Rightarrow> QUInt n
         | None \<Rightarrow>
             (case qtext_int 10 0 (2 ^ 64 - 1) s of
                Some n \<Rightarrow> QULongLong n | None \<Rightarrow> QString s)))"

definition parseNumber :: "(qtext \<Rightarrow> 'd) \<Rightarrow> qtext \<Rightarrow> nat \<Rightarrow> 'd qvariant \<times> nat" where
  "parseNumber dbl js i0 =
     (let i = eatWhitespace js i0;
          lastIndex = lastIndexOfNumber js i;
          charLength = (lastIndex - int i) + 1;
          numberStr = bmid2 js (int i) charLength
      in (number_value dbl numberStr, nat (lastIndex + 1)))"

text \<open>One iteration of the loop, by the character it reads.\<close>

lemma loop_end: "parseString_loop js (length js) s = Done (length js, None)"
  by (simp add: parseString_loop.simps)

lemma loop_quote:
  "i < length js \<Longrightarrow> js ! i = qc (CHR 0x22) \<Longrightarrow> parseString_loop js i s = Done (Suc i, Some s)"
  by (simp add: parseString_loop.simps [of js i])

lemma loop_plain:
  "i < length js \<Longrightarrow> js ! i \<noteq> qc (CHR 0x22) \<Longrightarrow> js ! i \<noteq> qc (CHR 0x5C) \<Longrightarrow>
    parseString_loop js i s = parseString_loop js (Suc i) (s @ [js ! i])"
  by (simp add: parseString_loop.simps [of js i])

lemma loop_cut:
  "Suc i = length js \<Longrightarrow> js ! i = qc (CHR 0x5C) \<Longrightarrow> parseString_loop js i s = Done (Suc i, None)"
  by (simp add: parseString_loop.simps [of js i])

lemma loop_escape:
  "Suc i < length js \<Longrightarrow> js ! i = qc (CHR 0x5C) \<Longrightarrow> simple_escape (js ! Suc i) = Some x \<Longrightarrow>
    parseString_loop js i s = parseString_loop js (Suc (Suc i)) (s @ [x])"
  by (simp add: parseString_loop.simps [of js i])

lemma loop_unicode:
  "Suc i < length js \<Longrightarrow> js ! i = qc (CHR 0x5C) \<Longrightarrow> js ! Suc i = qc (CHR ''u'') \<Longrightarrow>
    parseString_loop js i s =
      (if i + 6 \<le> length js
       then parseString_loop js (i + 6) (s @ [hex_symbol (take 4 (drop (i + 2) js))])
       else Done (i + 2, None))"
proof -
  assume *: "Suc i < length js" "js ! i = qc (CHR 0x5C)" "js ! Suc i = qc (CHR ''u'')"
  have "simple_escape (qc (CHR ''u'')) = None" by (simp add: simple_escape_def)
  moreover have "4 \<le> int (length js) - int (Suc (Suc i)) \<longleftrightarrow> i + 6 \<le> length js" by linarith
  moreover have "i + 6 = Suc (Suc i) + 4" "i + 2 = Suc (Suc i)" by simp_all
  ultimately show ?thesis
    using * by (simp only: parseString_loop.simps [of js i s]) (simp add: Let_def)
qed

lemma loop_unknown:
  "Suc i < length js \<Longrightarrow> js ! i = qc (CHR 0x5C) \<Longrightarrow> simple_escape (js ! Suc i) = None \<Longrightarrow>
    js ! Suc i \<noteq> qc (CHR ''u'') \<Longrightarrow>
    parseString_loop js i s = parseString_loop js (Suc (Suc i)) s"
  by (simp add: parseString_loop.simps [of js i])

text \<open>The loop ends inside the text, whatever the text is.\<close>

definition ends_within :: "qtext \<Rightarrow> nat \<Rightarrow> (nat \<times> 'a) run \<Rightarrow> bool" where
  "ends_within js i r \<longleftrightarrow> (\<exists>j x. r = Done (j, x) \<and> i \<le> j \<and> j \<le> length js)"

lemma ends_within_Done [simp]: "ends_within js i (Done (j, x)) \<longleftrightarrow> i \<le> j \<and> j \<le> length js"
  by (auto simp: ends_within_def)

lemma ends_within_mono: "ends_within js k r \<Longrightarrow> i \<le> k \<Longrightarrow> ends_within js i r"
  by (auto simp: ends_within_def)

lemma loop_progress:
  assumes "i \<le> length js"
  shows "ends_within js i (parseString_loop js i s) \<or>
    (\<exists>k t. parseString_loop js i s = parseString_loop js k t \<and> i < k \<and> k \<le> length js)"
proof (cases "i = length js")
  case True
  then show ?thesis by (simp add: loop_end)
next
  case False
  with assms have i: "i < length js" by simp
  show ?thesis
  proof (cases "js ! i = qc (CHR 0x5C)")
    case bs: True
    show ?thesis
    proof (cases "Suc i = length js")
      case True
      then show ?thesis using bs by (simp add: loop_cut)
    next
      case False
      with i have si: "Suc i < length js" by simp
      show ?thesis
      proof (cases "simple_escape (js ! Suc i)")
        case None
        show ?thesis
        proof (cases "js ! Suc i = qc (CHR ''u'')")
          case True
          show ?thesis
            using si by (cases "i + 6 \<le> length js")
              (auto simp: loop_unicode [OF si bs True] intro: exI [of _ "i + 6"])
        next
          case False
          then show ?thesis using loop_unknown [OF si bs None False, of s] si
            by (intro disjI2 exI [of _ "Suc (Suc i)"] exI [of _ s]) auto
        qed
      next
        case (Some x)
        then show ?thesis using loop_escape [OF si bs Some, of s] si
          by (intro disjI2 exI [of _ "Suc (Suc i)"] exI [of _ "s @ [x]"]) auto
      qed
    qed
  next
    case False
    then show ?thesis
      using i loop_quote [of i js s] loop_plain [of i js s]
      by (cases "js ! i = qc (CHR 0x22)") (auto intro: exI [of _ "Suc i"])
  qed
qed

lemma parseString_loop_run: "i \<le> length js \<Longrightarrow> ends_within js i (parseString_loop js i s)"
proof (induction "length js - i" arbitrary: i s rule: less_induct)
  case less
  show ?case
  proof (cases "ends_within js i (parseString_loop js i s)")
    case False
    then obtain k t where *: "parseString_loop js i s = parseString_loop js k t" "i < k" "k \<le> length js"
      using loop_progress [OF less.prems, of s] by blast
    then have "ends_within js k (parseString_loop js k t)"
      using less.hyps [of k t] by simp
    then show ?thesis using * by (simp add: ends_within_mono)
  qed
qed

lemma number_end_drop: "number_end js i = i + length (takeWhile is_number_char (drop i js))"
proof (induction js i rule: number_end.induct)
  case (1 js i)
  show ?case
  proof (cases "i < length js")
    case True
    then have "drop i js = js ! i # drop (Suc i) js" by (rule drop_nth_Cons)
    with 1 True show ?thesis by (simp add: number_end.simps [of js i])
  qed (simp add: number_end.simps [of js i])
qed

lemma parseNumber_eq:
  "parseNumber dbl js i =
     (let k = eatWhitespace js i; s = takeWhile is_number_char (drop k js)
      in (number_value dbl s, k + length s))"
  by (simp add: parseNumber_def lastIndexOfNumber_def number_end_drop bmid2_def Let_def
      takeWhile_eq_take [symmetric] flip: takeWhile_eq_take)

lemma parseNumber_run:
  assumes "i \<le> length js" "lookAhead js i = Done JsonTokenNumber"
  shows "\<exists>v j. parseNumber dbl js i = (v, j) \<and> i < j \<and> j \<le> length js"
proof -
  let ?k = "eatWhitespace js i"
  let ?s = "takeWhile is_number_char (drop ?k js)"
  have k: "i \<le> ?k" "?k \<le> length js"
    using assms eatWhitespace_ge eatWhitespace_le by auto
  have "?k < length js" "js ! ?k \<in> set (qs ''0123456789-'')"
    using assms(2)
    by (auto simp: lookAhead_def nextToken_def Let_def char_at_def token_of_def
        split: option.splits if_splits)
  then have "drop ?k js = js ! ?k # drop (Suc ?k) js" "is_number_char (js ! ?k)"
    by (auto simp: drop_nth_Cons is_number_char_def qs_def)
  then have "0 < length ?s" by (metis length_greater_0_conv list.distinct(1) takeWhile.simps(2))
  moreover have "length ?s \<le> length js - ?k"
    using length_takeWhile_le [of is_number_char "drop ?k js"] by simp
  ultimately show ?thesis using k unfolding parseNumber_eq Let_def
    by (intro exI conjI) (rule refl, linarith, linarith)
qed

section \<open>The parser\<close>

text \<open>
  The recursive descent. The result of each function is the value, the new position and
  whether \<open>success\<close> is still set; it is set on entry, because every caller returns at once
  when it is cleared. The loops of \<open>parseObject\<close> and \<open>parseArray\<close> carry the map and the
  list built so far.
\<close>

fun parseValue :: "(qtext \<Rightarrow> 'd) \<Rightarrow> nat \<Rightarrow> qtext \<Rightarrow> nat \<Rightarrow> ('d qvariant \<times> nat \<times> bool) run"
and parseObject_loop :: "(qtext \<Rightarrow> 'd) \<Rightarrow> nat \<Rightarrow> qtext \<Rightarrow> nat \<Rightarrow> (qtext \<times> 'd qvariant) list
      \<Rightarrow> ('d qvariant \<times> nat \<times> bool) run"
and parseArray_loop :: "(qtext \<Rightarrow> 'd) \<Rightarrow> nat \<Rightarrow> qtext \<Rightarrow> nat \<Rightarrow> 'd qvariant list
      \<Rightarrow> ('d qvariant \<times> nat \<times> bool) run" where
  "parseValue dbl 0 js i = Loop"
| "parseValue dbl (Suc f) js i =
     rbind (lookAhead js i) (\<lambda>t.
       case t of
         JsonTokenString \<Rightarrow> parseString js i
       | JsonTokenNumber \<Rightarrow> (let (v, j) = parseNumber dbl js i in Done (v, j, True))
       | JsonTokenCurlyOpen \<Rightarrow>
           rbind (nextToken js i) (\<lambda>(_, j). parseObject_loop dbl f js j [])
       | JsonTokenSquaredOpen \<Rightarrow>
           rbind (nextToken js i) (\<lambda>(_, j). parseArray_loop dbl f js j [])
       | JsonTokenTrue \<Rightarrow> rbind (nextToken js i) (\<lambda>(_, j). Done (QBool True, j, True))
       | JsonTokenFalse \<Rightarrow> rbind (nextToken js i) (\<lambda>(_, j). Done (QBool False, j, True))
       | JsonTokenNull \<Rightarrow> rbind (nextToken js i) (\<lambda>(_, j). Done (QInvalid, j, True))
       | _ \<Rightarrow> Done (QInvalid, i, False))"
| "parseObject_loop dbl 0 js i m = Loop"
| "parseObject_loop dbl (Suc f) js i m =
     rbind (lookAhead js i) (\<lambda>t.
       if t = JsonTokenNone then Done (QMap [], i, False)
       else if t = JsonTokenComma then
         rbind (nextToken js i) (\<lambda>(_, j). parseObject_loop dbl f js j m)
       else if t = JsonTokenCurlyClose then
         rbind (nextToken js i) (\<lambda>(_, j). Done (QMap m, j, True))
       else
         rbind (parseString js i) (\<lambda>(nv :: 'd qvariant, j, ok).
           if \<not> ok then Done (QMap [], j, False)
           else rbind (nextToken js j) (\<lambda>(t', k).
             if t' \<noteq> JsonTokenColon then Done (QMap [], k, False)
             else rbind (parseValue dbl f js k) (\<lambda>(v, l, ok').
               if \<not> ok' then Done (QMap [], l, False)
               else parseObject_loop dbl f js l (qm_insert (variant_text nv) v m)))))"
| "parseArray_loop dbl 0 js i vs = Loop"
| "parseArray_loop dbl (Suc f) js i vs =
     rbind (lookAhead js i) (\<lambda>t.
       if t = JsonTokenNone then Done (QList [], i, False)
       else if t = JsonTokenComma then
         rbind (nextToken js i) (\<lambda>(_, j). parseArray_loop dbl f js j vs)
       else if t = JsonTokenSquaredClose then
         rbind (nextToken js i) (\<lambda>(_, j). Done (QList vs, j, True))
       else
         rbind (parseValue dbl f js i) (\<lambda>(v, j, ok).
           if \<not> ok then Done (QList [], j, False)
           else parseArray_loop dbl f js j (vs @ [v])))"

definition parse_fuel :: "qtext \<Rightarrow> nat" where
  "parse_fuel js = 2 * length js + 1"

text \<open>
  \<open>parse\<close>: the value and \<open>success\<close>. A null string is an empty one, so the test that
  guards the call is true for every text but the null string.
\<close>

definition parse :: "(qtext \<Rightarrow> 'd) \<Rightarrow> qtext option \<Rightarrow> ('d qvariant \<times> bool) run" where
  "parse dbl json =
     (case json of None \<Rightarrow> Done (QInvalid, True)
      | Some js \<Rightarrow> rbind (parseValue dbl (parse_fuel js) js 0) (\<lambda>(v, _, ok). Done (v, ok)))"

text \<open>
  With fuel for the rest of the text the parser ends: never out of fuel, never reading out
  of bounds, and past its start whenever it succeeds.
\<close>

definition parsed :: "qtext \<Rightarrow> nat \<Rightarrow> ('d qvariant \<times> nat \<times> bool) run \<Rightarrow> bool" where
  "parsed js i r \<longleftrightarrow> (\<exists>v j ok. r = Done (v, j, ok) \<and> i \<le> j \<and> j \<le> length js \<and> (ok \<longrightarrow> i < j))"

lemma parsed_Done [simp]: "parsed js i (Done (v, j, ok)) \<longleftrightarrow> i \<le> j \<and> j \<le> length js \<and> (ok \<longrightarrow> i < j)"
  by (auto simp: parsed_def)

lemma parsed_mono: "parsed js k r \<Longrightarrow> i \<le> k \<Longrightarrow> parsed js i r"
  by (auto simp: parsed_def)

lemma parsed_cases:
  assumes "parsed js i r"
  obtains v j where "r = Done (v, j, True)" "i < j" "j \<le> length js"
    | v j where "r = Done (v, j, False)" "i \<le> j" "j \<le> length js"
  using assms by (auto simp: parsed_def)

lemma parseString_parsed:
  assumes "i \<le> length js" "eatWhitespace js i < length js"
  shows "parsed js i (parseString js i)"
proof -
  let ?k = "eatWhitespace js i"
  have "i \<le> ?k" by (rule eatWhitespace_ge)
  moreover obtain j r where "parseString_loop js (Suc ?k) [] = Done (j, r)" "Suc ?k \<le> j" "j \<le> length js"
    using parseString_loop_run [of "Suc ?k" js "[]"] assms(2) by (auto simp: ends_within_def)
  ultimately show ?thesis
    using assms(2) by (auto simp: parseString_def Let_def char_at_def split: option.split)
qed

lemma token_starts_inside:
  "i \<le> length js \<Longrightarrow> lookAhead js i = Done t \<Longrightarrow> t \<noteq> JsonTokenNone \<Longrightarrow> eatWhitespace js i < length js"
  using nextToken_run [of i js] by (auto simp: lookAhead_def rbind_Done)

lemma parse_runs:
  fixes dbl :: "qtext \<Rightarrow> 'd"
  shows "i \<le> length js \<Longrightarrow> 2 * (length js - i) + 1 \<le> f \<Longrightarrow> parsed js i (parseValue dbl f js i)"
  "i \<le> length js \<Longrightarrow> 2 * (length js - i) + 2 \<le> f \<Longrightarrow> parsed js i (parseObject_loop dbl f js i m)"
  "i \<le> length js \<Longrightarrow> 2 * (length js - i) + 2 \<le> f \<Longrightarrow> parsed js i (parseArray_loop dbl f js i vs)"
proof (induction dbl f js i and dbl f js i m and dbl f js i vs
    rule: parseValue_parseObject_loop_parseArray_loop.induct)
  case (2 dbl f js i)
  obtain t j where t: "nextToken js i = Done (t, j)" "lookAhead js i = Done t" "i \<le> j" "j \<le> length js"
    "t \<noteq> JsonTokenNone \<Longrightarrow> eatWhitespace js i < j"
    using nextToken_cases [OF "2.prems"(1)] by blast
  have less: "i < j" if "t \<noteq> JsonTokenNone"
    using t(5) [OF that] eatWhitespace_ge [of i js] by simp
  show ?case
  proof (cases t)
    case JsonTokenString
    then show ?thesis
      using t "2.prems" token_starts_inside [of i js t] by (simp add: parseString_parsed)
  next
    case JsonTokenNumber
    then show ?thesis using t "2.prems" parseNumber_run [of i js dbl] by auto
  next
    case JsonTokenCurlyOpen
    have "parsed js j (parseObject_loop dbl f js j [])"
      by (rule "2.IH"(1)) (use JsonTokenCurlyOpen t less "2.prems" in auto)
    then show ?thesis using JsonTokenCurlyOpen t by (simp add: parsed_mono)
  next
    case JsonTokenSquaredOpen
    have "parsed js j (parseArray_loop dbl f js j [])"
      by (rule "2.IH"(2)) (use JsonTokenSquaredOpen t less "2.prems" in auto)
    then show ?thesis using JsonTokenSquaredOpen t by (simp add: parsed_mono)
  qed (use t less "2.prems" in auto)
next
  case (4 dbl f js i m)
  obtain t j where t: "nextToken js i = Done (t, j)" "lookAhead js i = Done t" "i \<le> j" "j \<le> length js"
    "t \<noteq> JsonTokenNone \<Longrightarrow> eatWhitespace js i < j"
    using nextToken_cases [OF "4.prems"(1)] by blast
  have less: "i < j" if "t \<noteq> JsonTokenNone"
    using t(5) [OF that] eatWhitespace_ge [of i js] by simp
  consider "t = JsonTokenNone" | "t = JsonTokenComma" | "t = JsonTokenCurlyClose"
    | "t \<noteq> JsonTokenNone" "t \<noteq> JsonTokenComma" "t \<noteq> JsonTokenCurlyClose" by blast
  then show ?case
  proof cases
    case 2
    have "parsed js j (parseObject_loop dbl f js j m)"
      by (rule "4.IH"(1)) (use 2 t less "4.prems" in auto)
    then show ?thesis using 2 t by (simp add: parsed_mono)
  next
    case 4
    have str: "parsed js i (parseString js i :: ('d qvariant \<times> nat \<times> bool) run)"
      using 4 t "4.prems" token_starts_inside [of i js t] by (simp add: parseString_parsed)
    then show ?thesis
    proof (cases rule: parsed_cases)
      case (1 nv j')
      obtain t' k where k: "nextToken js j' = Done (t', k)" "j' \<le> k" "k \<le> length js"
        using nextToken_cases [OF 1(3)] by blast
      show ?thesis
      proof (cases "t' = JsonTokenColon")
        case True
        have "parsed js k (parseValue dbl f js k)"
          by (rule "4.IH"(2)) (use 4 t 1 k True "4.prems" in auto)
        then show ?thesis
        proof (cases rule: parsed_cases)
          case val: (1 v l)
          have "parsed js l (parseObject_loop dbl f js l (qm_insert (variant_text nv) v m))"
            by (rule "4.IH"(3)) (use 4 t 1 k True val "4.prems" in auto)
          then show ?thesis using 4 t 1 k True val by (simp add: parsed_mono)
        qed (use 4 t 1 k True in auto)
      qed (use 4 t 1 k in auto)
    qed (use 4 t in auto)
  qed (use t less "4.prems" in auto)
next
  case (6 dbl f js i vs)
  obtain t j where t: "nextToken js i = Done (t, j)" "lookAhead js i = Done t" "i \<le> j" "j \<le> length js"
    "t \<noteq> JsonTokenNone \<Longrightarrow> eatWhitespace js i < j"
    using nextToken_cases [OF "6.prems"(1)] by blast
  have less: "i < j" if "t \<noteq> JsonTokenNone"
    using t(5) [OF that] eatWhitespace_ge [of i js] by simp
  consider "t = JsonTokenNone" | "t = JsonTokenComma" | "t = JsonTokenSquaredClose"
    | "t \<noteq> JsonTokenNone" "t \<noteq> JsonTokenComma" "t \<noteq> JsonTokenSquaredClose" by blast
  then show ?case
  proof cases
    case 2
    have "parsed js j (parseArray_loop dbl f js j vs)"
      by (rule "6.IH"(1)) (use 2 t less "6.prems" in auto)
    then show ?thesis using 2 t by (simp add: parsed_mono)
  next
    case 4
    have "parsed js i (parseValue dbl f js i)"
      by (rule "6.IH"(2)) (use 4 t "6.prems" in auto)
    then show ?thesis
    proof (cases rule: parsed_cases)
      case (1 v l)
      have "parsed js l (parseArray_loop dbl f js l (vs @ [v]))"
        by (rule "6.IH"(3)) (use 4 t 1 "6.prems" in auto)
      then show ?thesis using 4 t 1 by (simp add: parsed_mono)
    qed (use 4 t in auto)
  qed (use t less "6.prems" in auto)
qed auto

text \<open>
  C2. \<open>parse\<close> returns on every text, well formed or not: the recursion ends within the fuel,
  and no step reads a character outside the text.
\<close>

theorem parse_total: "\<exists>v ok. parse dbl json = Done (v, ok)"
proof (cases json)
  case (Some js)
  have "parsed js 0 (parseValue dbl (parse_fuel js) js 0)"
    by (rule parse_runs(1)) (simp_all add: parse_fuel_def)
  then show ?thesis by (auto simp: parse_def Some parsed_def simp del: parseValue.simps)
qed (auto simp: parse_def)

end
