(* ===== verification/Json_Serialize.thy ===== *)
theory Json_Serialize
  imports Json
begin

text \<open>
  The serializer of \<open>json/json.cpp\<close>. What the code asks of its base library is a parameter:
  \<open>fin\<close> is the outcome of the test \<open>(value - value) < epsilon\<close> on a double, \<open>fmt\<close> its text
  with 20 digits, \<open>enc\<close> and \<open>dec\<close> the conversion to and from UTF-8. A null byte array, the
  sign of failure, is \<open>None\<close>. The locale \<open>utf8_codec\<close> states what is relied on of \<open>enc\<close> and
  \<open>dec\<close>; it is interpreted on the UTF-8 encoding of 16-bit units that are not surrogates.
\<close>

section \<open>The UTF-8 contract\<close>

locale utf8_codec =
  fixes enc :: "qtext \<Rightarrow> bytes"
    and dec :: "bytes \<Rightarrow> qtext"
    and pl :: "qchar \<Rightarrow> bool"
  assumes wf_ascii: "(of_char c :: nat) < 128 \<Longrightarrow> pl (qc c)"
    and enc_ascii: "(\<And>c. c \<in> set b \<Longrightarrow> (of_char c :: nat) < 128) \<Longrightarrow> enc (qs b) = b"
    and enc_append: "list_all pl s \<Longrightarrow> list_all pl t \<Longrightarrow> enc (s @ t) = enc s @ enc t"
    and dec_enc: "list_all pl s \<Longrightarrow> dec (enc s) = s"
begin

lemma enc_Nil [simp]: "enc [] = []"
  using enc_ascii [of "[]"] by (simp add: qs_def)

lemma dec_Nil [simp]: "dec [] = []"
  using dec_enc [of "[]"] by simp

lemma enc_nonempty: "list_all pl s \<Longrightarrow> s \<noteq> [] \<Longrightarrow> enc s \<noteq> []"
  using dec_enc [of s] by auto

lemma enc_inj: "list_all pl s \<Longrightarrow> list_all pl t \<Longrightarrow> enc s = enc t \<Longrightarrow> s = t"
  by (metis dec_enc)

lemma enc_concat: "\<forall>s \<in> set ss. list_all pl s \<Longrightarrow> enc (concat ss) = concat (map enc ss)"
  by (induction ss) (simp_all add: enc_append list_all_iff)

end

section \<open>UTF-8 of the basic plane\<close>

definition plain_unit :: "qchar \<Rightarrow> bool" where
  "plain_unit u \<longleftrightarrow> \<not> (55296 \<le> unat u \<and> unat u \<le> 57343)"

definition utf8_unit :: "qchar \<Rightarrow> bytes" where
  "utf8_unit u =
     (let n = unat u in
      if n < 128 then [char_of n]
      else if n < 2048 then [char_of (192 + n div 64), char_of (128 + n mod 64)]
      else [char_of (224 + n div 4096), char_of (128 + n div 64 mod 64), char_of (128 + n mod 64)])"

definition utf8_enc :: "qtext \<Rightarrow> bytes" where
  "utf8_enc s = concat (map utf8_unit s)"

fun utf8_dec :: "bytes \<Rightarrow> qtext" where
  "utf8_dec [] = []"
| "utf8_dec (a # s) =
     (let x = (of_char a :: nat) in
      if x < 128 then word_of_nat x # utf8_dec s
      else if x < 224 then
        (case s of b # t \<Rightarrow> word_of_nat ((x - 192) * 64 + (of_char b - 128)) # utf8_dec t | [] \<Rightarrow> [])
      else
        (case s of b # c # t \<Rightarrow>
             word_of_nat ((x - 224) * 4096 + (of_char b - 128) * 64 + (of_char c - 128)) # utf8_dec t
         | _ \<Rightarrow> []))"

lemma of_char_lt: "(of_char c :: nat) < 256"
  by simp

lemma unat_qc: "unat (qc c) = of_char c"
  using of_char_lt [of c] unfolding qc_def by (simp add: of_char_def unat_of_nat)

lemma utf8_dec_unit: "utf8_dec (utf8_unit u @ s) = u # utf8_dec s"
proof -
  let ?n = "unat u"
  have n: "?n < 65536" using unsigned_less [of u, where ?'a = nat] by simp
  have u: "word_of_nat ?n = u" by simp
  consider "?n < 128" | "128 \<le> ?n" "?n < 2048" | "2048 \<le> ?n" by linarith
  then show ?thesis
  proof cases
    case 1
    then show ?thesis by (simp add: utf8_unit_def Let_def)
  next
    case 2
    then have "?n div 64 < 32" "2 \<le> ?n div 64" by auto
    moreover have "(192 + ?n div 64 - 192) * 64 + (128 + ?n mod 64 - 128) = ?n" by simp
    ultimately show ?thesis using 2 u by (simp add: utf8_unit_def Let_def)
  next
    case 3
    then have "?n div 4096 < 16" using n by auto
    moreover have "?n div 4096 * 4096 + ?n div 64 mod 64 * 64 + ?n mod 64 = ?n"
    proof -
      have "?n div 4096 = ?n div 64 div 64" by (simp flip: div_mult2_eq)
      then show ?thesis
        using div_mult_mod_eq [of "?n div 64" 64] div_mult_mod_eq [of ?n 64] by linarith
    qed
    then have "word_of_nat (?n div 4096 * 4096 + ?n div 64 mod 64 * 64 + ?n mod 64) = u"
      by (simp only: u)
    ultimately show ?thesis using 3 by (simp add: utf8_unit_def Let_def)
  qed
qed

interpretation utf8: utf8_codec utf8_enc utf8_dec plain_unit
proof (unfold_locales, goal_cases)
  case (1 c)
  then show ?case by (simp add: plain_unit_def unat_qc)
next
  case (2 s)
  then show ?case
    by (induction s) (simp_all add: utf8_enc_def qs_def utf8_unit_def unat_qc)
next
  case (3 s t)
  show ?case by (simp add: utf8_enc_def)
next
  case (4 s)
  show ?case by (induction s) (simp_all add: utf8_enc_def utf8_dec_unit)
qed

section \<open>The serializer\<close>

definition sanitizeString :: "qtext \<Rightarrow> qtext" where
  "sanitizeString str =
     (let str = replace_char (qc (CHR 0x5C)) (map qc [CHR 0x5C, CHR 0x5C]) str;
          str = replace_char (qc (CHR 0x22)) (map qc [CHR 0x5C, CHR 0x22]) str;
          str = replace_char (qc (CHR 0x08)) (map qc [CHR 0x5C, CHR ''b'']) str;
          str = replace_char (qc (CHR 0x0C)) (map qc [CHR 0x5C, CHR ''f'']) str;
          str = replace_char (qc (CHR 0x0A)) (map qc [CHR 0x5C, CHR ''n'']) str;
          str = replace_char (qc (CHR 0x0D)) (map qc [CHR 0x5C, CHR ''r'']) str;
          str = replace_char (qc (CHR 0x09)) (map qc [CHR 0x5C, CHR ''t'']) str
      in qc (CHR 0x22) # str @ [qc (CHR 0x22)])"

definition join :: "bytes list \<Rightarrow> bytes \<Rightarrow> bytes" where
  "join list sep = foldl (\<lambda>res i. (if res \<noteq> [] then res @ sep else res) @ i) [] list"

text \<open>\<open>toString\<close> of a byte array: up to the first zero byte, one unit per byte.\<close>

definition text_of_bytes :: "bytes \<Rightarrow> qtext" where
  "text_of_bytes b = qs (takeWhile (\<lambda>c. c \<noteq> CHR 0x00) b)"

definition double_bytes :: "('d \<Rightarrow> bool) \<Rightarrow> ('d \<Rightarrow> bytes) \<Rightarrow> 'd \<Rightarrow> bytes option" where
  "double_bytes fin fmt d =
     (if fin d then
        (let str = fmt d in
         Some (if CHR ''.'' \<notin> set str \<and> CHR ''e'' \<notin> set str then str @ ''.0'' else str))
      else None)"

fun serialize :: "('d \<Rightarrow> bool) \<Rightarrow> ('d \<Rightarrow> bytes) \<Rightarrow> (qtext \<Rightarrow> bytes) \<Rightarrow> 'd qvariant \<Rightarrow> bytes option"
and serialize_items :: "('d \<Rightarrow> bool) \<Rightarrow> ('d \<Rightarrow> bytes) \<Rightarrow> (qtext \<Rightarrow> bytes) \<Rightarrow> 'd qvariant list \<Rightarrow> bytes list option"
and serializeMap_pairs :: "('d \<Rightarrow> bool) \<Rightarrow> ('d \<Rightarrow> bytes) \<Rightarrow> (qtext \<Rightarrow> bytes) \<Rightarrow> (qtext \<times> 'd qvariant) list
    \<Rightarrow> bytes list option" where
  "serialize fin fmt enc QInvalid = Some ''null''"
| "serialize fin fmt enc (QList vs) =
     (case serialize_items fin fmt enc vs of None \<Rightarrow> None
      | Some bs \<Rightarrow> Some (''[ '' @ join bs '', '' @ '' ]''))"
| "serialize fin fmt enc (QStringList ss) =
     Some (''[ '' @ join (map (\<lambda>s. enc (sanitizeString s)) ss) '', '' @ '' ]'')"
| "serialize fin fmt enc (QHash m) =
     (case serializeMap_pairs fin fmt enc m of None \<Rightarrow> None
      | Some bs \<Rightarrow> Some (CHR ''{'' # '' '' @ join bs '', '' @ '' }''))"
| "serialize fin fmt enc (QMap m) =
     (case serializeMap_pairs fin fmt enc m of None \<Rightarrow> None
      | Some bs \<Rightarrow> Some (CHR ''{'' # '' '' @ join bs '', '' @ '' }''))"
| "serialize fin fmt enc (QString s) = Some (enc (sanitizeString s))"
| "serialize fin fmt enc (QByteArray b) = Some (enc (sanitizeString (text_of_bytes b)))"
| "serialize fin fmt enc (QDouble d) = double_bytes fin fmt d"
| "serialize fin fmt enc (QBool b) = Some (if b then ''true'' else ''false'')"
| "serialize fin fmt enc (QULongLong n) = Some (int_text 10 n)"
| "serialize fin fmt enc (QInt n) = Some (int_text 10 n)"
| "serialize fin fmt enc (QUInt n) = Some (int_text 10 n)"
| "serialize fin fmt enc (QLongLong n) = Some (int_text 10 n)"
| "serialize fin fmt enc (QOther s) =
     (case s of Some t \<Rightarrow> Some (enc (sanitizeString t)) | None \<Rightarrow> None)"
| "serialize_items fin fmt enc [] = Some []"
| "serialize_items fin fmt enc (v # vs) =
     (case serialize fin fmt enc v of None \<Rightarrow> None
      | Some b \<Rightarrow> (case serialize_items fin fmt enc vs of None \<Rightarrow> None | Some bs \<Rightarrow> Some (b # bs)))"
| "serializeMap_pairs fin fmt enc [] = Some []"
| "serializeMap_pairs fin fmt enc ((k, v) # m) =
     (case serialize fin fmt enc v of None \<Rightarrow> None
      | Some b \<Rightarrow> (case serializeMap_pairs fin fmt enc m of None \<Rightarrow> None
          | Some bs \<Rightarrow> Some ((enc (sanitizeString k) @ '' : '' @ b) # bs)))"

text \<open>\<open>serializeStr\<close>: the text of the bytes, empty for the null array.\<close>

definition serializeStr :: "('d \<Rightarrow> bool) \<Rightarrow> ('d \<Rightarrow> bytes) \<Rightarrow> (qtext \<Rightarrow> bytes) \<Rightarrow> (bytes \<Rightarrow> qtext)
    \<Rightarrow> 'd qvariant \<Rightarrow> qtext" where
  "serializeStr fin fmt enc dec v = dec (case serialize fin fmt enc v of None \<Rightarrow> [] | Some b \<Rightarrow> b)"

end
