(* ===== verification/Json_Roundtrip.thy ===== *)
theory Json_Roundtrip
  imports Json_Serialize
begin

text \<open>
  What the serializer writes, the parser reads back: \<open>json_text\<close> gives the text of a value,
  \<open>serialize\<close> produces its UTF-8 encoding, and \<open>parseValue\<close> recovers the value from it at any
  place of a larger text.
\<close>

section \<open>Canonical values and their text\<close>

text \<open>
  The values the parser can produce from integers, strings, lists and maps: numbers in the
  type the parser picks for their size, maps in key order.
\<close>

fun canonical :: "(qchar \<Rightarrow> bool) \<Rightarrow> 'd qvariant \<Rightarrow> bool"
and canonical_pairs :: "(qchar \<Rightarrow> bool) \<Rightarrow> (qtext \<times> 'd qvariant) list \<Rightarrow> bool" where
  "canonical pl QInvalid = True"
| "canonical pl (QBool b) = True"
| "canonical pl (QInt n) = (- (2 ^ 31) \<le> n \<and> n < 0)"
| "canonical pl (QUInt n) = (0 \<le> n \<and> n < 2 ^ 32)"
| "canonical pl (QLongLong n) = (- (2 ^ 63) \<le> n \<and> n < - (2 ^ 31))"
| "canonical pl (QULongLong n) = (2 ^ 32 \<le> n \<and> n < 2 ^ 64)"
| "canonical pl (QString s) = list_all pl s"
| "canonical pl (QList vs) = list_all (canonical pl) vs"
| "canonical pl (QMap m) = (qm_ok m \<and> canonical_pairs pl m)"
| "canonical pl _ = False"
| "canonical_pairs pl [] = True"
| "canonical_pairs pl ((k, v) # m) = (list_all pl k \<and> canonical pl v \<and> canonical_pairs pl m)"

definition pair_text :: "qtext \<Rightarrow> qtext \<Rightarrow> qtext" where
  "pair_text k t = sanitizeString k @ qs '' : '' @ t"

fun json_text :: "'d qvariant \<Rightarrow> qtext"
and json_pairs :: "(qtext \<times> 'd qvariant) list \<Rightarrow> qtext list" where
  "json_text (QBool b) = qs (if b then ''true'' else ''false'')"
| "json_text (QInt n) = qs (int_text 10 n)"
| "json_text (QUInt n) = qs (int_text 10 n)"
| "json_text (QLongLong n) = qs (int_text 10 n)"
| "json_text (QULongLong n) = qs (int_text 10 n)"
| "json_text (QString s) = sanitizeString s"
| "json_text (QList vs) = qs ''[ '' @ join_with (qs '', '') (map json_text vs) @ qs '' ]''"
| "json_text (QMap m) = qs [CHR 0x7B, CHR '' ''] @ join_with (qs '', '') (json_pairs m) @ qs '' }''"
| "json_text _ = qs ''null''"
| "json_pairs [] = []"
| "json_pairs ((k, v) # m) = pair_text k (json_text v) # json_pairs m"

section \<open>Escaping\<close>

definition esc_char :: "qchar \<Rightarrow> qtext" where
  "esc_char c =
     (if c = qc (CHR 0x5C) then map qc [CHR 0x5C, CHR 0x5C]
      else if c = qc (CHR 0x22) then map qc [CHR 0x5C, CHR 0x22]
      else if c = qc (CHR 0x08) then map qc [CHR 0x5C, CHR ''b'']
      else if c = qc (CHR 0x0C) then map qc [CHR 0x5C, CHR ''f'']
      else if c = qc (CHR 0x0A) then map qc [CHR 0x5C, CHR ''n'']
      else if c = qc (CHR 0x0D) then map qc [CHR 0x5C, CHR ''r'']
      else if c = qc (CHR 0x09) then map qc [CHR 0x5C, CHR ''t'']
      else [c])"

definition escape :: "qtext \<Rightarrow> qtext" where
  "escape s = concat (map esc_char s)"

lemma escape_simps [simp]: "escape [] = []" "escape (c # s) = esc_char c @ escape s"
  by (simp_all add: escape_def)

text \<open>
  The seven replacements in a row are one pass over the characters: no replacement
  introduces a character that a later one replaces.
\<close>

lemma sanitizeString_escape:
  "sanitizeString s = qc (CHR 0x22) # escape s @ [qc (CHR 0x22)]"
proof -
  let ?r = "\<lambda>s. replace_char (qc (CHR 0x09)) (map qc [CHR 0x5C, CHR ''t''])
     (replace_char (qc (CHR 0x0D)) (map qc [CHR 0x5C, CHR ''r''])
     (replace_char (qc (CHR 0x0A)) (map qc [CHR 0x5C, CHR ''n''])
     (replace_char (qc (CHR 0x0C)) (map qc [CHR 0x5C, CHR ''f''])
     (replace_char (qc (CHR 0x08)) (map qc [CHR 0x5C, CHR ''b''])
     (replace_char (qc (CHR 0x22)) (map qc [CHR 0x5C, CHR 0x22])
     (replace_char (qc (CHR 0x5C)) (map qc [CHR 0x5C, CHR 0x5C]) s))))))"
  have "?r s = escape s"
    by (induction s) (simp_all add: esc_char_def)
  then show ?thesis by (simp add: sanitizeString_def Let_def)
qed

lemma wf_escape:
  assumes "utf8_codec enc dec pl" "list_all pl s"
  shows "list_all pl (escape s)"
  using assms(2)
  by (induction s) (simp_all add: esc_char_def utf8_codec.wf_ascii [OF assms(1)])

lemma join_with_Cons: "join_with sep (x # xs) = x @ concat (map ((@) sep) xs)"
  by (induction xs arbitrary: x) auto

lemma join_eq: "\<forall>x \<in> set xs. x \<noteq> [] \<Longrightarrow> join xs sep = join_with sep xs"
proof -
  let ?g = "\<lambda>res i. (if res \<noteq> [] then res @ sep else res) @ i"
  have *: "r \<noteq> [] \<Longrightarrow> foldl ?g r xs = r @ concat (map ((@) sep) xs)" for r xs
    by (induction xs arbitrary: r) auto
  assume "\<forall>x \<in> set xs. x \<noteq> []"
  then show ?thesis
    by (cases xs) (simp_all add: join_def * join_with_Cons)
qed

section \<open>The serializer writes the encoded text\<close>

lemma int_text_ascii: "c \<in> set (int_text 10 n) \<Longrightarrow> (of_char c :: nat) < 128"
proof -
  have *: "c \<in> set (nat_text 10 k) \<Longrightarrow> (of_char c :: nat) < 128" for k
    using nat_text_chars [of 10 c k] by (auto simp: of_char_digit_char)
  assume "c \<in> set (int_text 10 n)"
  then show ?thesis using * by (auto simp: int_text_def split: if_splits)
qed

lemma json_text_nonempty: "json_text v \<noteq> []"
  by (cases v) (auto simp: qs_def sanitizeString_escape int_text_def)

lemma json_pairs_nonempty: "t \<in> set (json_pairs m) \<Longrightarrow> t \<noteq> []"
  by (induction m) (auto simp: pair_text_def sanitizeString_escape)

lemma concat_sep_wf:
  "list_all pl sep \<Longrightarrow> list_all (list_all pl) ts \<Longrightarrow> list_all pl (join_with sep ts)"
  by (induction sep ts rule: join_with.induct) auto

context utf8_codec begin

lemma enc_join:
  assumes "list_all pl sep" "list_all (list_all pl) ts"
  shows "enc (join_with sep ts) = join_with (enc sep) (map enc ts)"
  using assms
  by (induction sep ts rule: join_with.induct) (simp_all add: enc_append concat_sep_wf)

lemma enc_lit: "list_all (\<lambda>c. (of_char c :: nat) < 128) b \<Longrightarrow> enc (qs b) = b"
  by (simp add: enc_ascii list_all_iff)

lemma wf_lit: "list_all (\<lambda>c. (of_char c :: nat) < 128) b \<Longrightarrow> list_all pl (qs b)"
  by (auto simp: list_all_iff qs_def intro: wf_ascii)

lemma wf_sanitize: "list_all pl s \<Longrightarrow> list_all pl (sanitizeString s)"
  using wf_escape [OF utf8_codec_axioms] by (simp add: sanitizeString_escape wf_ascii)

lemma wf_number: "list_all pl (qs (int_text 10 n))" "enc (qs (int_text 10 n)) = int_text 10 n"
  by (rule wf_lit, simp add: list_all_iff int_text_ascii)
    (rule enc_lit, simp add: list_all_iff int_text_ascii)

lemma enc_lit_append:
  "list_all (\<lambda>c. (of_char c :: nat) < 128) b \<Longrightarrow> list_all pl t \<Longrightarrow> enc (qs b @ t) = b @ enc t"
  by (simp add: enc_append wf_lit enc_lit)

lemma bracket_text:
  assumes "list_all (list_all pl) ts" "\<forall>t \<in> set ts. t \<noteq> []"
    "list_all (\<lambda>c. (of_char c :: nat) < 128) a" "list_all (\<lambda>c. (of_char c :: nat) < 128) b"
  shows "list_all pl (qs a @ join_with (qs '', '') ts @ qs b)"
    and "enc (qs a @ join_with (qs '', '') ts @ qs b) = a @ join (map enc ts) '', '' @ b"
proof -
  have sep: "list_all pl (qs '', '')" "enc (qs '', '') = '', ''"
    by (rule wf_lit enc_lit, simp)+
  have j: "list_all pl (join_with (qs '', '') ts)"
    using assms sep by (simp add: concat_sep_wf)
  then show "list_all pl (qs a @ join_with (qs '', '') ts @ qs b)"
    using assms by (simp add: wf_lit)
  have "\<forall>x \<in> set (map enc ts). x \<noteq> []"
    using assms enc_nonempty by (auto simp: list_all_iff)
  then have "join (map enc ts) '', '' = enc (join_with (qs '', '') ts)"
    using assms sep by (simp add: join_eq enc_join)
  then show "enc (qs a @ join_with (qs '', '') ts @ qs b) = a @ join (map enc ts) '', '' @ b"
    using assms j by (simp add: enc_append enc_lit_append wf_lit enc_lit)
qed

lemma pair_text_enc:
  assumes "list_all pl k" "list_all pl t"
  shows "list_all pl (pair_text k t)" "enc (pair_text k t) = enc (sanitizeString k) @ '' : '' @ enc t"
  using assms by (simp_all add: pair_text_def wf_sanitize wf_lit enc_append enc_lit)

text \<open>For a canonical value the bytes are the encoding of its text.\<close>

lemma serialize_text:
  "canonical pl v \<Longrightarrow> list_all pl (json_text v) \<and> serialize fin fmt enc v = Some (enc (json_text v))"
proof (induction v)
  case (QList vs)
  then have *: "list_all (list_all pl) (map json_text vs)"
    "serialize_items fin fmt enc vs = Some (map enc (map json_text vs))"
    by (induction vs) auto
  then show ?case
    using bracket_text [of "map json_text vs" "''[ ''" "'' ]''"] json_text_nonempty by auto
next
  case (QMap m)
  have "(\<forall>kv \<in> set m. \<forall>v \<in> Basic_BNFs.snds kv. canonical pl v \<longrightarrow>
      list_all pl (json_text v) \<and> serialize fin fmt enc v = Some (enc (json_text v))) \<Longrightarrow>
     canonical_pairs pl m \<Longrightarrow> list_all (list_all pl) (json_pairs m) \<and>
       serializeMap_pairs fin fmt enc m = Some (map enc (json_pairs m))"
    by (induction m) (auto simp: pair_text_enc)
  then have "list_all (list_all pl) (json_pairs m)"
    "serializeMap_pairs fin fmt enc m = Some (map enc (json_pairs m))"
    using QMap by auto
  then show ?case
    using bracket_text [of "json_pairs m" "[CHR 0x7B, CHR '' '']" "'' }''"]
      json_pairs_nonempty by auto
qed (auto simp: wf_lit enc_lit wf_sanitize wf_number)

lemma serializeStr_text:
  "canonical pl v \<Longrightarrow> serializeStr fin fmt enc dec v = json_text v"
  using serialize_text [of v fin fmt] by (simp add: serializeStr_def dec_enc)

end

section \<open>The parser reads the text back\<close>

text \<open>
  \<open>facing js i t\<close>: the text from position \<open>i\<close> on is \<open>t\<close>. The lemmas read one item of the
  text each, after any white space, with anything behind it.
\<close>

definition facing :: "qtext \<Rightarrow> nat \<Rightarrow> qtext \<Rightarrow> bool" where
  "facing js i t \<longleftrightarrow> i \<le> length js \<and> drop i js = t"

lemma facing_append: "facing js i (a @ b) \<Longrightarrow> facing js (i + length a) b"
proof -
  assume "facing js i (a @ b)"
  then have d: "i \<le> length js" "drop i js = a @ b" by (auto simp: facing_def)
  then have "length js - i = length a + length b" by (metis length_append length_drop)
  moreover have "drop (i + length a) js = b" using d(2) by (metis add.commute append_eq_conv_conj drop_drop)
  ultimately show ?thesis using d by (simp add: facing_def)
qed

lemma facing_Cons: "facing js i (c # b) \<Longrightarrow> facing js (Suc i) b"
  using facing_append [of js i "[c]" b] by simp

lemma facing_nth: "facing js i (c # b) \<Longrightarrow> i < length js \<and> js ! i = c"
  unfolding facing_def by (metis drop_eq_Nil leI le_eq_less_or_eq list.distinct(1) nth_via_drop)

lemma facing_length: "facing js i t \<Longrightarrow> length t = length js - i"
  by (auto simp: facing_def)

lemma facing_le: "facing js i t \<Longrightarrow> i \<le> length js"
  by (simp add: facing_def)

definition blank :: "qtext \<Rightarrow> bool" where
  "blank w \<longleftrightarrow> list_all is_ws w"

lemma eat_blank:
  assumes "facing js i (w @ c # b)" "blank w" "\<not> is_ws c"
  shows "eatWhitespace js i = i + length w"
proof -
  have "takeWhile is_ws (w @ c # b) = w"
    using assms by (intro takeWhile_append2 [THEN trans]) (auto simp: blank_def list_all_iff)
  then show ?thesis using assms by (simp add: eatWhitespace_drop facing_def)
qed

lemma token_not_ws: "token_of c = Some t \<Longrightarrow> \<not> is_ws c"
  by (auto simp: token_of_def is_ws_def qs_def split: if_splits)

lemma nextToken_char:
  assumes "facing js i (w @ c # b)" "blank w" "token_of c = Some t"
  shows "nextToken js i = Done (t, i + length w + 1)" "lookAhead js i = Done t"
proof -
  have e: "eatWhitespace js i = i + length w"
    using assms token_not_ws by (intro eat_blank)
  have "i + length w < length js" "js ! (i + length w) = c"
    using facing_nth [OF facing_append [OF assms(1)]] by auto
  then show "nextToken js i = Done (t, i + length w + 1)"
    by (simp add: nextToken_def e char_at_def assms(3))
  then show "lookAhead js i = Done t" by (simp add: lookAhead_def)
qed

lemma word_start:
  "c \<in> {CHR ''t'', CHR ''f'', CHR ''n''} \<Longrightarrow> token_of (qc c) = None \<and> \<not> is_ws (qc c)"
  by (elim insertE emptyE) (simp_all add: token_of_def qs_def is_ws_def)

lemma nextToken_word:
  assumes "facing js i (w @ qs k @ b)" "blank w"
    and k: "(k, t) \<in> {(''true'', JsonTokenTrue), (''false'', JsonTokenFalse), (''null'', JsonTokenNull)}"
  shows "nextToken js i = Done (t, i + length w + length k)" "lookAhead js i = Done t"
proof -
  let ?j = "i + length w"
  obtain c k' where ck: "k = c # k'" using k by auto
  have "c \<in> {CHR ''t'', CHR ''f'', CHR ''n''}"
    using k ck by blast
  then have "token_of (qc c) = None \<and> \<not> is_ws (qc c)" by (rule word_start)
  then have c: "token_of (qc c) = None" "\<not> is_ws (qc c)" by simp_all
  have qk: "qs k @ b = qc c # (qs k' @ b)" by (simp add: ck qs_def)
  have e: "eatWhitespace js i = ?j"
    by (rule eat_blank [of _ _ _ "qc c" "qs k' @ b", OF _ assms(2) c(2)]) (use assms(1) qk in simp)
  have f: "facing js ?j (qs k @ b)" using facing_append [OF assms(1)] .
  have n: "?j < length js" "js ! ?j = qc c"
    using facing_nth [of js ?j "qc c" "qs k' @ b"] f qk by auto
  have len: "length (qs k @ b) = length js - ?j" using facing_length [OF f] .
  have d: "drop ?j js = qs k @ b" using f by (simp add: facing_def)
  have w: "word_at js ?j w' \<longleftrightarrow> length w' \<le> length (qs k @ b) \<and> take (length w') (qs k @ b) = qs w'" for w'
    unfolding word_at_def d len using n by (auto simp: of_nat_diff)
  have nt: "nextToken js i = (if word_at js ?j ''true'' then Done (JsonTokenTrue, ?j + 4)
      else if word_at js ?j ''false'' then Done (JsonTokenFalse, ?j + 5)
      else if word_at js ?j ''null'' then Done (JsonTokenNull, ?j + 4)
      else Done (JsonTokenNone, ?j))"
    unfolding nextToken_def e Let_def char_at_def using n c by simp
  from k consider "k = ''true''" "t = JsonTokenTrue" | "k = ''false''" "t = JsonTokenFalse"
    | "k = ''null''" "t = JsonTokenNull" by blast
  then show "nextToken js i = Done (t, ?j + length k)"
    unfolding nt by cases (simp_all add: w qs_def)
  then show "lookAhead js i = Done t" by (simp add: lookAhead_def)
qed

lemma is_ws_blank [simp]: "is_ws (qc (CHR '' ''))" "blank []" "blank [qc (CHR '' '')]"
  by (simp_all add: is_ws_def blank_def)

text \<open>Strings: the loop undoes the escaping.\<close>

lemma parseString_loop_escape:
  "facing js i (escape s @ qc (CHR 0x22) # b) \<Longrightarrow>
    parseString_loop js i acc = Done (i + length (escape s) + 1, Some (acc @ s))"
proof (induction s arbitrary: i acc)
  case Nil
  then show ?case using facing_nth [of js i "qc (CHR 0x22)" b] by (simp add: loop_quote)
next
  case (Cons c s)
  show ?case
  proof (cases "esc_char c = [c]")
    case True
    then have nc: "c \<noteq> qc (CHR 0x22)" "c \<noteq> qc (CHR 0x5C)" by (auto simp: esc_char_def)
    have f: "facing js i (c # escape s @ qc (CHR 0x22) # b)" using Cons.prems True by simp
    note n = facing_nth [OF f] and r = facing_Cons [OF f]
    have "parseString_loop js i acc = parseString_loop js (Suc i) (acc @ [c])"
      using n nc loop_plain [of i js acc] by simp
    also have "\<dots> = Done (Suc i + length (escape s) + 1, Some ((acc @ [c]) @ s))"
      using Cons.IH [OF r] by simp
    finally show ?thesis using True by simp
  next
    case False
    then obtain e where e: "esc_char c = [qc (CHR 0x5C), e]" "simple_escape e = Some c"
      by (auto simp: esc_char_def simple_escape_def split: if_splits)
    have f: "facing js i (qc (CHR 0x5C) # e # escape s @ qc (CHR 0x22) # b)"
      using Cons.prems e by simp
    note n = facing_nth [OF f] and r = facing_Cons [OF f]
    note n' = facing_nth [OF r] and r' = facing_Cons [OF r]
    have "parseString_loop js i acc = parseString_loop js (Suc (Suc i)) (acc @ [c])"
      using n n' e loop_escape [of i js c acc] by simp
    also have "\<dots> = Done (Suc (Suc i) + length (escape s) + 1, Some ((acc @ [c]) @ s))"
      using Cons.IH [OF r'] by simp
    finally show ?thesis using e by simp
  qed
qed

lemma token_quote: "token_of (qc (CHR 0x22)) = Some JsonTokenString"
  by (simp add: token_of_def)

lemma parseString_text:
  assumes "facing js i (w @ sanitizeString s @ b)" "blank w"
  shows "parseString js i = Done (QString s, i + length w + length (sanitizeString s), True)"
    and "lookAhead js i = Done JsonTokenString"
proof -
  have f: "facing js i (w @ qc (CHR 0x22) # (escape s @ qc (CHR 0x22) # b))"
    using assms(1) by (simp add: sanitizeString_escape)
  have e: "eatWhitespace js i = i + length w"
    by (rule eat_blank [OF f assms(2)]) (rule token_not_ws [OF token_quote])
  note n = facing_append [OF f]
  have "parseString_loop js (Suc (i + length w)) [] =
      Done (Suc (i + length w) + length (escape s) + 1, Some ([] @ s))"
    by (rule parseString_loop_escape [OF facing_Cons [OF n]])
  then show "parseString js i = Done (QString s, i + length w + length (sanitizeString s), True)"
    using facing_nth [OF n] by (simp add: parseString_def e char_at_def sanitizeString_escape)
  show "lookAhead js i = Done JsonTokenString"
    by (rule nextToken_char(2) [OF f assms(2) token_quote])
qed

text \<open>Numbers: the scanner takes exactly the digits and the conversion reads them.\<close>

definition stops_number :: "qtext \<Rightarrow> bool" where
  "stops_number b \<longleftrightarrow> b = [] \<or> \<not> is_number_char (hd b)"

definition decimal :: "char \<Rightarrow> bool" where
  "decimal c \<longleftrightarrow> c \<in> set ''0123456789''"

lemma decimal_facts:
  assumes "decimal c"
  shows "c \<noteq> CHR ''-''" "c \<noteq> CHR ''.''" "\<not> is_space c"
    "token_of (qc c) = Some JsonTokenNumber" "is_number_char (qc c)"
proof -
  have c: "c \<in> set ''0123456789''" using assms by (simp add: decimal_def)
  show "c \<noteq> CHR ''-''" "c \<noteq> CHR ''.''" using c by auto
  show "\<not> is_space c" using c by (auto simp: is_space_def)
  show "token_of (qc c) = Some JsonTokenNumber" "is_number_char (qc c)"
    using c by (auto simp: token_of_def is_number_char_def qs_def)
qed

lemma minus_facts:
  "\<not> is_space (CHR ''-'')" "token_of (qc (CHR ''-'')) = Some JsonTokenNumber"
  "is_number_char (qc (CHR ''-''))"
  by (simp_all add: is_space_def token_of_def is_number_char_def qs_def)

lemma decimal_digit_char: "d < 10 \<Longrightarrow> decimal (digit_char d)"
proof -
  assume "d < 10"
  then have "d \<in> {0, 1, 2, 3, 4, 5, 6, 7, 8, 9}" by auto
  then show ?thesis
    by (elim insertE emptyE) (simp_all add: decimal_def digit_char_def char_of_def bit_0)
qed

lemma nat_text_decimal: "c \<in> set (nat_text 10 n) \<Longrightarrow> decimal c"
  using nat_text_chars [of 10 c n] decimal_digit_char by auto

lemma int_text_chars: "c \<in> set (int_text 10 n) \<Longrightarrow> decimal c \<or> c = CHR ''-''"
  using nat_text_decimal [of c] by (auto simp: int_text_def split: if_splits)

lemma int_text_char_facts:
  assumes "c \<in> set (int_text 10 n)"
  shows "\<not> is_space c" "token_of (qc c) = Some JsonTokenNumber" "is_number_char (qc c)" "c \<noteq> CHR ''.''"
  using int_text_chars [OF assms] decimal_facts [of c] minus_facts by auto

lemma int_text_hd:
  obtains c t where "int_text 10 n = c # t" "token_of (qc c) = Some JsonTokenNumber"
    "n < 0 \<longleftrightarrow> c = CHR ''-''"
proof -
  obtain c t where ct: "int_text 10 n = c # t"
    by (cases "int_text 10 n") (auto simp: int_text_def split: if_splits)
  then have "token_of (qc c) = Some JsonTokenNumber"
    using int_text_char_facts [of c n] by simp
  moreover have "n < 0 \<longleftrightarrow> c = CHR ''-''"
  proof (cases "n < 0")
    case False
    then have "c \<in> set (nat_text 10 (nat n))" using ct by (simp add: int_text_def)
    then show ?thesis using nat_text_decimal [of c "nat n"] decimal_facts(1) False by auto
  qed (use ct in \<open>simp add: int_text_def\<close>)
  ultimately show ?thesis using ct that by blast
qed

lemma ascii_of_qs: "(\<And>c. c \<in> set a \<Longrightarrow> (of_char c :: nat) < 128) \<Longrightarrow> ascii_of (qs a) = Some a"
proof -
  assume a: "\<And>c. c \<in> set a \<Longrightarrow> (of_char c :: nat) < 128"
  have "ascii_of (qs a) = those (map (\<lambda>c. if (of_char c :: nat) < 128 then Some c else None) a)"
    unfolding ascii_of_def qs_def map_map
    by (rule arg_cong [where f = those]) (simp add: comp_def unat_qc)
  also have "\<dots> = Some (map (\<lambda>c. c) a)" by (rule those_map_cong) (simp add: a)
  finally show ?thesis by simp
qed

lemma qtext_int_text: "qtext_int 10 lo hi (qs (int_text 10 n)) = (if lo \<le> n \<and> n \<le> hi then Some n else None)"
  by (simp add: qtext_int_def ascii_of_qs int_text_ascii trimmed_int_text parse_signed_text int_in_def)

definition number_variant :: "int \<Rightarrow> 'd qvariant" where
  "number_variant n =
     (if n < - (2 ^ 31) then QLongLong n else if n < 0 then QInt n
      else if n < 2 ^ 32 then QUInt n else QULongLong n)"

lemma number_value_text:
  assumes "- (2 ^ 63) \<le> n" "n < 2 ^ 64"
  shows "number_value dbl (qs (int_text 10 n)) = number_variant n"
proof -
  obtain c t where c: "int_text 10 n = c # t" "n < 0 \<longleftrightarrow> c = CHR ''-''"
    by (rule int_text_hd [of n]) blast
  have "CHR ''.'' \<notin> set (int_text 10 n)"
    using int_text_char_facts(4) by blast
  then have "qc (CHR ''.'') \<notin> set (qs (int_text 10 n))" by (auto simp: qs_def)
  moreover have "starts_with (qs (int_text 10 n)) (qs ''-'') \<longleftrightarrow> n < 0"
    using c by (simp add: starts_with_def qs_def)
  ultimately show ?thesis
    using assms by (simp add: number_value_def qtext_int_text number_variant_def)
qed

lemma parseNumber_text:
  assumes "facing js i (w @ qs (int_text 10 n) @ b)" "blank w" "stops_number b"
    "- (2 ^ 63) \<le> n" "n < 2 ^ 64"
  shows "parseNumber dbl js i = (number_variant n, i + length w + length (int_text 10 n))"
    and "lookAhead js i = Done JsonTokenNumber"
proof -
  obtain c t where c: "int_text 10 n = c # t" "token_of (qc c) = Some JsonTokenNumber"
    by (rule int_text_hd [of n]) blast
  have f: "facing js i (w @ qc c # (qs t @ b))" using assms(1) c by (simp add: qs_def)
  have e: "eatWhitespace js i = i + length w"
    by (rule eat_blank [OF f assms(2) token_not_ws [OF c(2)]])
  have all: "\<forall>x \<in> set (qs (int_text 10 n)). is_number_char x"
    using int_text_char_facts(3) by (auto simp: qs_def)
  have "drop (i + length w) js = qs (int_text 10 n) @ b"
    using facing_append [OF assms(1)] by (simp add: facing_def)
  then have "takeWhile is_number_char (drop (i + length w) js) = qs (int_text 10 n)"
    using all assms(3) by (cases b) (simp_all add: takeWhile_append2 stops_number_def)
  then show "parseNumber dbl js i = (number_variant n, i + length w + length (int_text 10 n))"
    using assms by (simp add: parseNumber_eq e number_value_text Let_def) (simp add: qs_def)
  show "lookAhead js i = Done JsonTokenNumber"
    by (rule nextToken_char(2) [OF f assms(2) c(2)])
qed

section \<open>Values, arrays and objects\<close>

text \<open>
  \<open>before js b\<close> is the position in front of the rest \<open>b\<close>; a reader that consumed everything
  before \<open>b\<close> ends there.
\<close>

definition before :: "qtext \<Rightarrow> qtext \<Rightarrow> nat" where
  "before js b = length js - length b"

lemma facing_before:
  assumes "facing js i (a @ b)"
  shows "i + length a = before js b" "facing js (before js b) b"
proof -
  have "length a + length b = length js - i" "i \<le> length js"
    using facing_length [OF assms] facing_le [OF assms] by auto
  then show e: "i + length a = before js b" by (simp add: before_def)
  show "facing js (before js b) b" using facing_append [OF assms] by (simp add: e)
qed

lemma facing_at_before: "facing js i b \<Longrightarrow> i = before js b"
  using facing_before(1) [of js i "[]" b] by simp

definition value_token :: "json_token \<Rightarrow> bool" where
  "value_token t \<longleftrightarrow> t \<noteq> JsonTokenNone \<and> t \<noteq> JsonTokenComma \<and> t \<noteq> JsonTokenSquaredClose \<and> t \<noteq> JsonTokenCurlyClose"

definition reads :: "(qtext \<Rightarrow> 'd) \<Rightarrow> 'd qvariant \<Rightarrow> bool" where
  "reads dbl v \<longleftrightarrow> (\<forall>js i w b f. facing js i (w @ json_text v @ b) \<longrightarrow> blank w \<longrightarrow> stops_number b \<longrightarrow>
     2 * (length js - i) + 1 \<le> f \<longrightarrow>
     parseValue dbl f js i = Done (v, before js b, True) \<and> (\<exists>t. lookAhead js i = Done t \<and> value_token t))"

lemma readsI:
  assumes "\<And>js i w b f. facing js i (w @ json_text v @ b) \<Longrightarrow> blank w \<Longrightarrow> stops_number b \<Longrightarrow>
     2 * (length js - i) + 1 \<le> Suc f \<Longrightarrow> \<exists>t. lookAhead js i = Done t \<and> value_token t \<and>
     parseValue dbl (Suc f) js i = Done (v, before js b, True)"
  shows "reads dbl v"
  unfolding reads_def
proof (intro allI impI)
  fix js i w b f
  assume *: "facing js i (w @ json_text v @ b)" "blank w" "stops_number b" "2 * (length js - i) + 1 \<le> f"
  then obtain g where "f = Suc g" by (cases f) auto
  with assms [OF *(1-3)] *(4) show "parseValue dbl f js i = Done (v, before js b, True) \<and>
      (\<exists>t. lookAhead js i = Done t \<and> value_token t)"
    by blast
qed

lemma reads_word:
  assumes "json_text v = qs k"
    and k: "(k, t) \<in> {(''true'', JsonTokenTrue), (''false'', JsonTokenFalse), (''null'', JsonTokenNull)}"
    and v: "v = (if t = JsonTokenTrue then QBool True else if t = JsonTokenFalse then QBool False else QInvalid)"
  shows "reads dbl v"
proof (rule readsI)
  fix js i w b f
  assume f: "facing js i (w @ json_text v @ b)" "blank w"
  then have "facing js i (w @ qs k @ b)" using assms by simp
  note n = nextToken_word [OF this f(2) k]
  have "i + length w + length k = before js b"
    using facing_before(1) [of js i "w @ qs k" b] f assms by (simp add: qs_def)
  then show "\<exists>t. lookAhead js i = Done t \<and> value_token t \<and>
     parseValue dbl (Suc f) js i = Done (v, before js b, True)"
    using n k v by (auto simp: value_token_def)
qed

lemma reads_number:
  assumes "json_text v = qs (int_text 10 n)" "v = number_variant n" "- (2 ^ 63) \<le> n" "n < 2 ^ 64"
  shows "reads dbl v"
proof (rule readsI)
  fix js i w b f
  assume f: "facing js i (w @ json_text v @ b)" "blank w" "stops_number b"
  then have g: "facing js i (w @ qs (int_text 10 n) @ b)" using assms by simp
  note n = parseNumber_text(1) [OF g f(2,3) assms(3,4), where dbl = dbl] parseNumber_text(2) [OF g f(2,3) assms(3,4)]
  have "i + length w + length (int_text 10 n) = before js b"
    using facing_before(1) [of js i "w @ qs (int_text 10 n)" b] g by (simp add: qs_def)
  then show "\<exists>t. lookAhead js i = Done t \<and> value_token t \<and>
     parseValue dbl (Suc f) js i = Done (v, before js b, True)"
    using n assms(2) by (simp add: value_token_def)
qed

lemma reads_string: "reads dbl (QString s)"
proof (rule readsI)
  fix js i w b f
  assume f: "facing js i (w @ json_text (QString s :: 'a qvariant) @ b)" "blank w"
  then have g: "facing js i (w @ sanitizeString s @ b)" by simp
  have "i + length w + length (sanitizeString s) = before js b"
    using facing_before(1) [of js i "w @ sanitizeString s" b] g by simp
  then show "\<exists>t. lookAhead js i = Done t \<and> value_token t \<and>
     parseValue dbl (Suc f) js i = Done (QString s, before js b, True)"
    using parseString_text(2) [OF g f(2)] parseString_text(1) [OF g f(2), where 'a = 'a]
    by (simp add: value_token_def)
qed

text \<open>
  The items of an array or object: the first after a blank, each further one after a comma
  and a blank.
\<close>

definition commas :: "qtext list \<Rightarrow> qtext" where
  "commas ts = concat (map ((@) (qs '', '')) ts)"

lemma commas_simps [simp]: "commas [] = []" "commas (t # ts) = qc (CHR '','') # qc (CHR '' '') # t @ commas ts"
  by (simp_all add: commas_def qs_def)

lemma stops_commas: "stops_number (commas ts @ qc (CHR '' '') # b)"
proof -
  have "\<not> is_number_char (qc (CHR '' ''))" "\<not> is_number_char (qc (CHR '',''))"
    by (simp_all add: is_number_char_def qs_def)
  then show ?thesis by (cases ts) (simp_all add: stops_number_def)
qed

lemma single_tokens:
  "token_of (qc (CHR '','')) = Some JsonTokenComma" "token_of (qc (CHR '']'')) = Some JsonTokenSquaredClose"
  "token_of (qc (CHR 0x7D)) = Some JsonTokenCurlyClose" "token_of (qc (CHR '':'')) = Some JsonTokenColon"
  "token_of (qc (CHR ''['')) = Some JsonTokenSquaredOpen" "token_of (qc (CHR 0x7B)) = Some JsonTokenCurlyOpen"
  by (simp_all add: token_of_def qs_def)

lemma array_item:
  assumes "reads dbl v" "facing js i (qc (CHR '' '') # json_text v @ r)" "stops_number r"
    "2 * (length js - i) + 2 \<le> Suc f"
  shows "parseArray_loop dbl (Suc f) js i acc = parseArray_loop dbl f js (before js r) (acc @ [v])"
    "facing js (before js r) r" "i < before js r"
proof -
  have f: "facing js i ([qc (CHR '' '')] @ json_text v @ r)" using assms(2) by simp
  obtain t where t: "lookAhead js i = Done t" "value_token t"
    "parseValue dbl f js i = Done (v, before js r, True)"
    using assms(1) f assms(3,4) is_ws_blank(3) unfolding reads_def by (metis Suc_eq_plus1 Suc_le_mono add_2_eq_Suc')
  then show "parseArray_loop dbl (Suc f) js i acc = parseArray_loop dbl f js (before js r) (acc @ [v])"
    by (simp add: value_token_def)
  show "facing js (before js r) r"
    using facing_before(2) [of js i "qc (CHR '' '') # json_text v" r] assms(2) by simp
  show "i < before js r"
    using facing_before(1) [of js i "qc (CHR '' '') # json_text v" r] assms(2) by simp
qed

lemma array_tail:
  "\<forall>v \<in> set vs. reads dbl v \<Longrightarrow>
    facing js i (commas (map json_text vs) @ qc (CHR '' '') # qc (CHR '']'') # b) \<Longrightarrow>
    2 * (length js - i) + 2 \<le> f \<Longrightarrow>
    parseArray_loop dbl f js i acc = Done (QList (acc @ vs), before js b, True)"
proof (induction vs arbitrary: i f acc)
  case Nil
  then have fc: "facing js i ([qc (CHR '' '')] @ qc (CHR '']'') # b)" by simp
  obtain g where g: "f = Suc g" using Nil by (cases f) auto
  have "i + 2 = before js b"
    using facing_before(1) [of js i "[qc (CHR '' ''), qc (CHR '']'')]" b] fc by simp
  then show ?case
    using nextToken_char [OF fc is_ws_blank(3) single_tokens(2)] by (simp add: g)
next
  case (Cons v vs)
  let ?r = "commas (map json_text vs) @ qc (CHR '' '') # qc (CHR '']'') # b"
  have f1: "facing js i ([] @ qc (CHR '','') # (qc (CHR '' '') # json_text v @ ?r))"
    using Cons.prems(2) by simp
  have f2: "facing js (Suc i) (qc (CHR '' '') # json_text v @ ?r)"
    using facing_Cons f1 by simp
  have i: "i < length js" using facing_nth [of js i "qc (CHR '','')"] f1 by simp
  obtain g where g: "f = Suc (Suc g)"
    using Cons.prems(3) i by (cases f; cases "f - 1") auto
  have fuel: "2 * (length js - Suc i) + 2 \<le> Suc g" and rv: "reads dbl v"
    using Cons.prems i g by auto
  note item = array_item [OF rv f2 stops_commas fuel]
  have "parseArray_loop dbl f js i acc = parseArray_loop dbl (Suc g) js (Suc i) acc"
    using nextToken_char [OF f1 is_ws_blank(2) single_tokens(1)] by (simp add: g)
  also have "\<dots> = parseArray_loop dbl g js (before js ?r) (acc @ [v])"
    by (rule item(1))
  also have "\<dots> = Done (QList ((acc @ [v]) @ vs), before js b, True)"
    by (rule Cons.IH) (use Cons.prems(1,3) i g item(2,3) in simp_all)
  finally show ?case by simp
qed


lemma object_item:
  fixes dbl :: "qtext \<Rightarrow> 'd" and v :: "'d qvariant"
  assumes "reads dbl v" "facing js i (qc (CHR '' '') # pair_text k (json_text v) @ r)" "stops_number r"
    "2 * (length js - i) + 2 \<le> Suc f"
  shows "parseObject_loop dbl (Suc f) js i m = parseObject_loop dbl f js (before js r) (qm_insert k v m)"
    "facing js (before js r) r" "i < before js r"
proof -
  let ?t = "qc (CHR '' '') # json_text v @ r"
  have f1: "facing js i ([qc (CHR '' '')] @ sanitizeString k @ (qc (CHR '' '') # qc (CHR '':'') # ?t))"
    using assms(2) by (simp add: pair_text_def qs_def)
  have key: "parseString js i = Done (QString k :: 'd qvariant, before js (qc (CHR '' '') # qc (CHR '':'') # ?t), True)"
    using parseString_text(1) [OF f1 is_ws_blank(3), where 'a = 'd]
      facing_before(1) [of js i "[qc (CHR '' '')] @ sanitizeString k"] f1 by simp
  have f2: "facing js (before js (qc (CHR '' '') # qc (CHR '':'') # ?t)) ([qc (CHR '' '')] @ qc (CHR '':'') # ?t)"
    using facing_before(2) [of js i "[qc (CHR '' '')] @ sanitizeString k"] f1 by simp
  have colon: "nextToken js (before js (qc (CHR '' '') # qc (CHR '':'') # ?t)) = Done (JsonTokenColon, before js ?t)"
    using nextToken_char(1) [OF f2 is_ws_blank(3) single_tokens(4)]
      facing_before(1) [of js _ "[qc (CHR '' ''), qc (CHR '':'')]" ?t] f2 by simp
  have f3: "facing js (before js ?t) ([qc (CHR '' '')] @ json_text v @ r)"
    using facing_before(2) [of js i "[qc (CHR '' '')] @ sanitizeString k @ [qc (CHR '' ''), qc (CHR '':'')]"] f1 by simp
  have lt: "i < before js ?t"
    using facing_before(1) [of js i "[qc (CHR '' '')] @ sanitizeString k @ [qc (CHR '' ''), qc (CHR '':'')]" ?t] f1
    by simp
  have "2 * (length js - before js ?t) + 1 \<le> f" using lt assms(4) by linarith
  then have "parseValue dbl f js (before js ?t) = Done (v, before js r, True)"
    using assms(1,3) f3 is_ws_blank(3) unfolding reads_def by blast
  then show "parseObject_loop dbl (Suc f) js i m = parseObject_loop dbl f js (before js r) (qm_insert k v m)"
    using parseString_text(2) [OF f1 is_ws_blank(3)] by (simp add: key colon variant_text_def)
  show "facing js (before js r) r"
    using facing_before(2) [of js i "qc (CHR '' '') # pair_text k (json_text v)" r] assms(2) by simp
  show "i < before js r"
    using facing_before(1) [of js i "qc (CHR '' '') # pair_text k (json_text v)" r] assms(2) by simp
qed

lemma json_pairs_map: "json_pairs m = map (\<lambda>(k, v). pair_text k (json_text v)) m"
  by (induction m) auto

lemma object_tail:
  "\<forall>kv \<in> set m. reads dbl (snd kv) \<Longrightarrow>
    facing js i (commas (json_pairs m) @ qc (CHR '' '') # qc (CHR 0x7D) # b) \<Longrightarrow>
    2 * (length js - i) + 2 \<le> f \<Longrightarrow> qm_ok (acc @ m) \<Longrightarrow>
    parseObject_loop dbl f js i acc = Done (QMap (acc @ m), before js b, True)"
proof (induction m arbitrary: i f acc)
  case Nil
  then have fc: "facing js i ([qc (CHR '' '')] @ qc (CHR 0x7D) # b)" by simp
  obtain g where g: "f = Suc g" using Nil by (cases f) auto
  have "i + 2 = before js b"
    using facing_before(1) [of js i "[qc (CHR '' ''), qc (CHR 0x7D)]" b] fc by simp
  then show ?case
    using nextToken_char [OF fc is_ws_blank(3) single_tokens(3)] by (simp add: g)
next
  case (Cons kv m)
  obtain k v where kv: "kv = (k, v)" by (cases kv)
  let ?r = "commas (json_pairs m) @ qc (CHR '' '') # qc (CHR 0x7D) # b"
  have f1: "facing js i ([] @ qc (CHR '','') # (qc (CHR '' '') # pair_text k (json_text v) @ ?r))"
    using Cons.prems(2) by (simp add: kv)
  have f2: "facing js (Suc i) (qc (CHR '' '') # pair_text k (json_text v) @ ?r)"
    using facing_Cons f1 by simp
  have i: "i < length js" using facing_nth [of js i "qc (CHR '','')"] f1 by simp
  obtain g where g: "f = Suc (Suc g)"
    using Cons.prems(3) i by (cases f; cases "f - 1") auto
  have fuel: "2 * (length js - Suc i) + 2 \<le> Suc g" and rv: "reads dbl v"
    using Cons.prems i g by (auto simp: kv)
  note item = object_item [OF rv f2 stops_commas fuel]
  have "\<forall>kv \<in> set acc. fst kv < k"
    using Cons.prems(4) unfolding qm_ok_def kv by (auto simp: sorted_wrt_append)
  then have ins: "qm_insert k v acc = acc @ [kv]" by (simp add: kv qm_insert_last)
  have "parseObject_loop dbl f js i acc = parseObject_loop dbl (Suc g) js (Suc i) acc"
    using nextToken_char [OF f1 is_ws_blank(2) single_tokens(1)] by (simp add: g)
  also have "\<dots> = parseObject_loop dbl g js (before js ?r) (acc @ [kv])"
    unfolding ins [symmetric] by (rule item(1))
  also have "\<dots> = Done (QMap ((acc @ [kv]) @ m), before js b, True)"
    by (rule Cons.IH) (use Cons.prems(1,3,4) i g item(2,3) in simp_all)
  finally show ?case by simp
qed

text \<open>A list or map as a whole: its bracket, its first item and the rest.\<close>

lemma reads_list:
  fixes dbl :: "qtext \<Rightarrow> 'd"
  assumes vs: "\<forall>v \<in> set vs. reads dbl v"
  shows "reads dbl (QList vs)"
proof (rule readsI)
  fix js i w b f
  assume f: "facing js i (w @ json_text (QList vs) @ b)" "blank w" "2 * (length js - i) + 1 \<le> Suc f"
  let ?b = "qc (CHR '' '') # qc (CHR '']'') # b"
  let ?t = "qc (CHR '' '') # join_with (qs '', '') (map json_text vs) @ ?b"
  have f1: "facing js i (w @ qc (CHR ''['') # ?t)" using f(1) by (simp add: qs_def)
  note open_br = nextToken_char [OF f1 f(2) single_tokens(5)]
  have j: "i + length w + 1 = before js ?t" "facing js (before js ?t) ?t"
    using facing_before [of js i "w @ [qc (CHR ''['')]" ?t] f1 by simp_all
  have fuel: "2 * (length js - before js ?t) + 2 \<le> f"
    using f(3) facing_nth [OF facing_append [OF f1]] unfolding j(1) [symmetric] by linarith
  then obtain g where g: "f = Suc g" by (cases f) auto
  have "parseArray_loop dbl f js (before js ?t) [] = Done (QList vs, before js b, True)"
  proof (cases vs)
    case Nil
    then have f2: "facing js (before js ?t) (qs ''  '' @ qc (CHR '']'') # b)" using j(2) by (simp add: qs_def)
    have bl: "blank (qs ''  '')" using is_ws_blank(1) by (simp add: blank_def qs_def)
    have "before js ?t + length (qs ''  '') + 1 = before js b"
      using facing_before(1) [of js "before js ?t" "qs ''  '' @ [qc (CHR '']'')]" b] f2 by (simp add: qs_def)
    then show ?thesis
      using nextToken_char [OF f2 bl single_tokens(2)] Nil by (simp add: g)
  next
    case (Cons v us)
    let ?r = "commas (map json_text us) @ ?b"
    have e: "?t = qc (CHR '' '') # json_text v @ ?r" by (simp add: Cons join_with_Cons commas_def)
    have f2: "facing js (before js ?t) (qc (CHR '' '') # json_text v @ ?r)" using j(2) by (simp add: e)
    have v: "reads dbl v" using vs Cons by simp
    have fuel': "2 * (length js - before js ?t) + 2 \<le> Suc g" using fuel g by simp
    note item = array_item [OF v f2 stops_commas fuel', folded g]
    have fuel'': "2 * (length js - before js ?r) + 2 \<le> g"
      using fuel' item(3) facing_le [OF item(2)] by linarith
    have "parseArray_loop dbl f js (before js ?t) [] = parseArray_loop dbl g js (before js ?r) [v]"
      using item(1) by simp
    also have "\<dots> = Done (QList ([v] @ us), before js b, True)"
      using array_tail [OF _ item(2) fuel''] vs Cons by simp
    finally show ?thesis by (simp add: Cons)
  qed
  then show "\<exists>t. lookAhead js i = Done t \<and> value_token t \<and>
     parseValue dbl (Suc f) js i = Done (QList vs, before js b, True)"
    using open_br j(1) by (simp add: value_token_def)
qed

lemma reads_map:
  fixes dbl :: "qtext \<Rightarrow> 'd"
  assumes m: "\<forall>kv \<in> set m. reads dbl (snd kv)" "qm_ok m"
  shows "reads dbl (QMap m)"
proof (rule readsI)
  fix js i w b f
  assume f: "facing js i (w @ json_text (QMap m) @ b)" "blank w" "2 * (length js - i) + 1 \<le> Suc f"
  let ?b = "qc (CHR '' '') # qc (CHR 0x7D) # b"
  let ?t = "qc (CHR '' '') # join_with (qs '', '') (json_pairs m) @ ?b"
  have f1: "facing js i (w @ qc (CHR 0x7B) # ?t)" using f(1) by (simp add: qs_def)
  note open_br = nextToken_char [OF f1 f(2) single_tokens(6)]
  have j: "i + length w + 1 = before js ?t" "facing js (before js ?t) ?t"
    using facing_before [of js i "w @ [qc (CHR 0x7B)]" ?t] f1 by simp_all
  have fuel: "2 * (length js - before js ?t) + 2 \<le> f"
    using f(3) facing_nth [OF facing_append [OF f1]] unfolding j(1) [symmetric] by linarith
  then obtain g where g: "f = Suc g" by (cases f) auto
  have "parseObject_loop dbl f js (before js ?t) [] = Done (QMap m, before js b, True)"
  proof (cases m)
    case Nil
    then have f2: "facing js (before js ?t) (qs ''  '' @ qc (CHR 0x7D) # b)" using j(2) by (simp add: qs_def)
    have bl: "blank (qs ''  '')" using is_ws_blank(1) by (simp add: blank_def qs_def)
    have "before js ?t + length (qs ''  '') + 1 = before js b"
      using facing_before(1) [of js "before js ?t" "qs ''  '' @ [qc (CHR 0x7D)]" b] f2 by (simp add: qs_def)
    then show ?thesis
      using nextToken_char [OF f2 bl single_tokens(3)] Nil by (simp add: g)
  next
    case (Cons kv n)
    obtain k v where kv: "kv = (k, v)" by (cases kv)
    let ?r = "commas (json_pairs n) @ ?b"
    have e: "?t = qc (CHR '' '') # pair_text k (json_text v) @ ?r"
      by (simp add: Cons kv join_with_Cons commas_def)
    have f2: "facing js (before js ?t) (qc (CHR '' '') # pair_text k (json_text v) @ ?r)"
      using j(2) by (simp add: e)
    have v: "reads dbl v" using m Cons kv by simp
    have fuel': "2 * (length js - before js ?t) + 2 \<le> Suc g" using fuel g by simp
    note item = object_item [OF v f2 stops_commas fuel', folded g]
    have fuel'': "2 * (length js - before js ?r) + 2 \<le> g"
      using fuel' item(3) facing_le [OF item(2)] by linarith
    have "parseObject_loop dbl f js (before js ?t) [] = parseObject_loop dbl g js (before js ?r) [(k, v)]"
      using item(1) by simp
    also have "\<dots> = Done (QMap ([(k, v)] @ n), before js b, True)"
      using object_tail [OF _ item(2) fuel''] m Cons kv by simp
    finally show ?thesis by (simp add: Cons kv)
  qed
  then show "\<exists>t. lookAhead js i = Done t \<and> value_token t \<and>
     parseValue dbl (Suc f) js i = Done (QMap m, before js b, True)"
    using open_br j(1) by (simp add: value_token_def)
qed

lemma canonical_pairs_set: "canonical_pairs pl m \<longleftrightarrow> (\<forall>(k, v) \<in> set m. list_all pl k \<and> canonical pl v)"
  by (induction m) auto

lemma canonical_reads: "canonical pl v \<Longrightarrow> reads dbl v"
proof (induction v)
  case (QList vs)
  then show ?case by (intro reads_list) (auto simp: list_all_iff)
next
  case (QMap m)
  then show ?case by (intro reads_map) (fastforce simp: canonical_pairs_set snds.simps)+
next
  case QInvalid
  show ?case by (rule reads_word [of _ "''null''" JsonTokenNull]) simp_all
next
  case (QBool b)
  show ?case
    by (cases b) (rule reads_word [of _ "''true''" JsonTokenTrue], simp_all,
      rule reads_word [of _ "''false''" JsonTokenFalse], simp_all)
qed (auto intro!: reads_string reads_number simp: number_variant_def)

lemma parse_json_text:
  assumes "canonical pl v"
  shows "parse dbl (Some (json_text v)) = Done (v, True)"
proof -
  have "facing (json_text v) 0 ([] @ json_text v @ [])" by (simp add: facing_def)
  moreover have "stops_number []" by (simp add: stops_number_def)
  ultimately have "parseValue dbl (parse_fuel (json_text v)) (json_text v) 0 = Done (v, before (json_text v) [], True)"
    using canonical_reads [OF assms, of dbl] is_ws_blank(2) unfolding reads_def parse_fuel_def
    by (metis diff_zero order_refl)
  then show ?thesis by (simp add: parse_def)
qed

section \<open>The round trip\<close>

text \<open>
  C1. Reading back what was written: for every canonical value (integers in the type the
  parser picks for their size, texts without unpaired surrogates, maps in key order, nested
  at will) \<open>parse\<close> succeeds on the text \<open>serializeStr\<close> gives and returns that value.
\<close>

theorem serializeStr_parse:
  assumes "canonical plain_unit v"
  shows "parse dbl (Some (serializeStr fin fmt utf8_enc utf8_dec v)) = Done (v, True)"
  using parse_json_text [OF assms, of dbl] utf8.serializeStr_text [OF assms] by simp

definition sample_value :: "nat qvariant" where
  "sample_value = QMap [(qs ''a'', QList [QUInt 7, QInt (- 3), QList []]), (qs ''b'', QString (qs [CHR 0x22, CHR 0x0A]))]"

lemma sample_canonical: "canonical plain_unit sample_value"
proof -
  have "qc (CHR ''a'') < qc (CHR ''b'')" by (simp add: word_less_nat_alt unat_qc)
  moreover have "plain_unit (qc c)" for c
  proof -
    have "(of_char c :: nat) < 256" by simp
    then have "(of_char c :: nat) < 55296" by linarith
    then show ?thesis unfolding plain_unit_def unat_qc by linarith
  qed
  ultimately show ?thesis
    by (simp add: sample_value_def qs_def qm_ok_def)
qed

theorem serializeStr_parse_witness:
  "parse (\<lambda>_. 0) (Some (serializeStr (\<lambda>_. True) (\<lambda>_. []) utf8_enc utf8_dec sample_value)) = Done (sample_value, True)"
  by (rule serializeStr_parse [OF sample_canonical])

end
