(* ===== verification/Http_Cookie.thy ===== *)
theory Http_Cookie
  imports Qt_Bytes
begin

text \<open>
  The class \<open>HttpCookie\<close> of \<open>http/httpcookie.cpp\<close>: its fields, the reader and the writer of the
  header text, and what they keep of a cookie between them.
\<close>

section \<open>The class\<close>

record HttpCookie =
  ck_name :: bytes
  ck_value :: bytes
  ck_comment :: bytes
  ck_domain :: bytes
  ck_maxAge :: int
  ck_path :: bytes
  ck_secure :: bool
  ck_version :: int

definition empty_cookie :: HttpCookie where
  "empty_cookie = \<lparr>ck_name = [], ck_value = [], ck_comment = [], ck_domain = [], ck_maxAge = 0,
     ck_path = [], ck_secure = False, ck_version = 1\<rparr>"

definition make_cookie :: "bytes \<Rightarrow> bytes \<Rightarrow> int \<Rightarrow> bytes \<Rightarrow> bytes \<Rightarrow> bytes \<Rightarrow> bool \<Rightarrow> HttpCookie" where
  "make_cookie n v age path comment domain sec =
     \<lparr>ck_name = n, ck_value = v, ck_comment = comment, ck_domain = domain, ck_maxAge = age,
      ck_path = path, ck_secure = sec, ck_version = 1\<rparr>"

definition setName :: "bytes \<Rightarrow> HttpCookie \<Rightarrow> HttpCookie" where
  "setName x c = c\<lparr>ck_name := x\<rparr>"

definition setValue :: "bytes \<Rightarrow> HttpCookie \<Rightarrow> HttpCookie" where
  "setValue x c = c\<lparr>ck_value := x\<rparr>"

definition setComment :: "bytes \<Rightarrow> HttpCookie \<Rightarrow> HttpCookie" where
  "setComment x c = c\<lparr>ck_comment := x\<rparr>"

definition setDomain :: "bytes \<Rightarrow> HttpCookie \<Rightarrow> HttpCookie" where
  "setDomain x c = c\<lparr>ck_domain := x\<rparr>"

definition setMaxAge :: "int \<Rightarrow> HttpCookie \<Rightarrow> HttpCookie" where
  "setMaxAge x c = c\<lparr>ck_maxAge := x\<rparr>"

definition setPath :: "bytes \<Rightarrow> HttpCookie \<Rightarrow> HttpCookie" where
  "setPath x c = c\<lparr>ck_path := x\<rparr>"

definition setSecure :: "bool \<Rightarrow> HttpCookie \<Rightarrow> HttpCookie" where
  "setSecure x c = c\<lparr>ck_secure := x\<rparr>"

definition append_trimmed :: "bytes list \<Rightarrow> bytes \<Rightarrow> bytes list" where
  "append_trimmed l buffer = (let t = trimmed buffer in if t \<noteq> [] then l @ [t] else l)"

fun splitCSV_loop :: "bool \<Rightarrow> bytes list \<Rightarrow> bytes \<Rightarrow> bytes \<Rightarrow> bytes list" where
  "splitCSV_loop inString l buffer [] = append_trimmed l buffer"
| "splitCSV_loop inString l buffer (c # s) =
     (if \<not> inString then
        if c = CHR 0x22 then splitCSV_loop True l buffer s
        else if c = CHR '';'' then splitCSV_loop False (append_trimmed l buffer) [] s
        else splitCSV_loop False l (buffer @ [c]) s
      else
        if c = CHR 0x22 then splitCSV_loop False l buffer s
        else splitCSV_loop True l (buffer @ [c]) s)"

definition splitCSV :: "bytes \<Rightarrow> bytes list" where
  "splitCSV source = splitCSV_loop False [] [] source"

text \<open>
  A part as name and value. The test \<open>if(posi)\<close> is false only at position 0: a part without
  \<open>=\<close> (position -1) has the empty name, and its whole text as value.
\<close>

definition cookie_pair :: "bytes \<Rightarrow> bytes \<times> bytes" where
  "cookie_pair part =
     (let posi = indexOf part (CHR ''='') in
      if posi \<noteq> 0 then (trimmed (bleft part posi), trimmed (bmid part (posi + 1)))
      else (trimmed part, []))"

definition set_part :: "bytes \<Rightarrow> HttpCookie \<Rightarrow> HttpCookie" where
  "set_part part c =
     (let (n, v) = cookie_pair part in
      if n = ''Comment'' then c\<lparr>ck_comment := v\<rparr>
      else if n = ''Domain'' then c\<lparr>ck_domain := v\<rparr>
      else if n = ''Max-Age'' then c\<lparr>ck_maxAge := or_zero (bytes_toInt 10 v)\<rparr>
      else if n = ''Path'' then c\<lparr>ck_path := v\<rparr>
      else if n = ''Secure'' then c\<lparr>ck_secure := True\<rparr>
      else if n = ''Version'' then c\<lparr>ck_version := or_zero (bytes_toInt 10 v)\<rparr>
      else if ck_name c = [] then c\<lparr>ck_name := n, ck_value := v\<rparr>
      else c)"

definition read_cookie :: "bytes \<Rightarrow> HttpCookie" where
  "read_cookie source = fold set_part (splitCSV source) empty_cookie"

definition toByteArray :: "HttpCookie \<Rightarrow> bytes" where
  "toByteArray c =
     ck_name c @ ''='' @ ck_value c
     @ (if ck_comment c \<noteq> [] then ''; Comment='' @ ck_comment c else [])
     @ (if ck_domain c \<noteq> [] then ''; Domain='' @ ck_domain c else [])
     @ (if ck_maxAge c \<noteq> 0 then ''; Max-Age='' @ int_text 10 (ck_maxAge c) else [])
     @ (if ck_path c \<noteq> [] then ''; Path='' @ ck_path c else [])
     @ (if ck_secure c then ''; Secure'' else [])
     @ ''; Version='' @ int_text 10 (ck_version c)"

section \<open>Splitting at semicolons\<close>

text \<open>Text the splitter copies unchanged.\<close>

definition bare :: "bytes \<Rightarrow> bool" where
  "bare s \<longleftrightarrow> CHR 0x22 \<notin> set s \<and> CHR '';'' \<notin> set s"

lemma bare_simps [simp]:
  "bare []" "bare (c # s) \<longleftrightarrow> c \<noteq> CHR 0x22 \<and> c \<noteq> CHR '';'' \<and> bare s"
  "bare (s @ t) \<longleftrightarrow> bare s \<and> bare t"
  by (auto simp: bare_def)

lemma splitCSV_bare: "bare s \<Longrightarrow> splitCSV_loop False l b (s @ t) = splitCSV_loop False l (b @ s) t"
  by (induction s arbitrary: b) auto

lemma splitCSV_quoted:
  "CHR 0x22 \<notin> set s \<Longrightarrow>
    splitCSV_loop True l b (s @ CHR 0x22 # t) = splitCSV_loop False l (b @ s) t"
  by (induction s arbitrary: b) auto

text \<open>Bare, tight, non-empty parts joined by semicolons and blanks are found again.\<close>

definition is_part :: "bytes \<Rightarrow> bool" where
  "is_part p \<longleftrightarrow> bare p \<and> tight p \<and> p \<noteq> []"

lemma trimmed_blank: "tight s \<Longrightarrow> trimmed (CHR '' '' # s) = s"
proof -
  assume "tight s"
  moreover from this have "ltrim (CHR '' '' # s) = s"
    using ltrim_id [of s] by (auto simp: ltrim_def tight_def is_space_def)
  moreover have "ltrim s = s" using calculation(1) by (auto simp: ltrim_id tight_def)
  ultimately show ?thesis using trimmed_id [of s] by (simp add: trimmed_def)
qed

lemma append_trimmed_part:
  "is_part p \<Longrightarrow> append_trimmed l p = l @ [p]" "is_part p \<Longrightarrow> append_trimmed l (CHR '' '' # p) = l @ [p]"
  by (simp_all add: append_trimmed_def is_part_def trimmed_id trimmed_blank)

lemma splitCSV_tail:
  "is_part p \<Longrightarrow> \<forall>q \<in> set ps. is_part q \<Longrightarrow> append_trimmed l b = l @ [p] \<Longrightarrow>
    splitCSV_loop False l b (concat (map ((@) ''; '') ps)) = l @ p # ps"
proof (induction ps arbitrary: l b p)
  case (Cons q ps)
  then have q: "is_part q" "bare q" by (simp_all add: is_part_def)
  then have "append_trimmed (l @ [p]) (CHR '' '' # q) = (l @ [p]) @ [q]"
    by (simp add: append_trimmed_part)
  with Cons.IH [OF q(1), of "l @ [p]" "CHR '' '' # q"] Cons.prems q show ?case
    by (simp add: splitCSV_bare)
qed simp

lemma splitCSV_parts:
  assumes "is_part p" "\<forall>q \<in> set ps. is_part q"
  shows "splitCSV (p @ concat (map ((@) ''; '') ps)) = p # ps"
  using assms splitCSV_tail [OF assms, of "[]" p]
  by (simp add: splitCSV_def splitCSV_bare append_trimmed_part is_part_def)

text \<open>Whatever the source, the parts are trimmed and not empty.\<close>

lemma append_trimmed_tight:
  "\<forall>p \<in> set l. p \<noteq> [] \<and> tight p \<Longrightarrow> \<forall>p \<in> set (append_trimmed l b). p \<noteq> [] \<and> tight p"
  by (auto simp: append_trimmed_def Let_def tight_trimmed)

lemma splitCSV_loop_tight:
  "\<forall>p \<in> set l. p \<noteq> [] \<and> tight p \<Longrightarrow> \<forall>p \<in> set (splitCSV_loop q l b s). p \<noteq> [] \<and> tight p"
proof (induction s arbitrary: q l b)
  case Nil
  then show ?case by (simp add: append_trimmed_tight)
next
  case (Cons c s)
  note l = append_trimmed_tight [OF Cons.prems, of b]
  have "splitCSV_loop q l b (c # s) \<in>
     {splitCSV_loop True l b s, splitCSV_loop False (append_trimmed l b) [] s,
      splitCSV_loop q l (b @ [c]) s, splitCSV_loop False l b s}"
    by simp
  then show ?case using Cons.IH [OF Cons.prems] Cons.IH [OF l] by (elim insertE emptyE) (simp_all only:)
qed

section \<open>Writing and reading\<close>

lemma bare_int_text [simp]: "bare (int_text 10 n)"
proof -
  have "digit_char d \<noteq> CHR 0x22 \<and> digit_char d \<noteq> CHR '';''" if "d < 10" for d
  proof -
    have "(of_char (digit_char d) :: nat) = 48 + d" using that by (simp add: of_char_digit_char)
    then show ?thesis using that by (auto dest: arg_cong [where f = "of_char :: char \<Rightarrow> nat"])
  qed
  then have "bare (nat_text 10 k)" for k
    using nat_text_chars [of 10 _ k] by (fastforce simp: bare_def)
  then show ?thesis by (simp add: int_text_def)
qed

lemma int_text_last: "int_text 10 n \<noteq> [] \<and> \<not> is_space (last (int_text 10 n))"
proof -
  have "nat_text 10 k \<noteq> [] \<and> \<not> is_space (last (nat_text 10 k))" for k
    using nat_text_chars [of 10 "last (nat_text 10 k)" k] digit_char_plain(3) by fastforce
  then show ?thesis by (simp add: int_text_def)
qed

lemma tight_int_text [simp]: "tight (int_text 10 n)"
  using int_text_tight [of n] int_text_last [of n] ltrim_tight [of "int_text 10 n"] by (auto simp: tight_def)

definition plain_value :: "bytes \<Rightarrow> bool" where
  "plain_value v \<longleftrightarrow> bare v \<and> tight v"

definition plain_key :: "bytes \<Rightarrow> bool" where
  "plain_key k \<longleftrightarrow> bare k \<and> tight k \<and> k \<noteq> [] \<and> CHR ''='' \<notin> set k"

lemma cookie_pair_eq:
  assumes "plain_key k" "tight v"
  shows "cookie_pair (k @ CHR ''='' # v) = (k, v)"
proof -
  have "indexOf (k @ CHR ''='' # v) (CHR ''='') = int (length k)"
    using assms by (intro indexOf_append) (simp add: plain_key_def)
  then show ?thesis
    using assms by (simp add: cookie_pair_def bleft_def bmid_def nat_add_distrib trimmed_id plain_key_def)
qed

lemma is_part_eq: "plain_key k \<Longrightarrow> plain_value v \<Longrightarrow> is_part (k @ CHR ''='' # v)"
  by (cases "v = []") (auto simp: is_part_def plain_key_def plain_value_def tight_def is_space_def)

definition cookie_keywords :: "bytes list" where
  "cookie_keywords = [''Comment'', ''Domain'', ''Max-Age'', ''Path'', ''Secure'', ''Version'']"

lemma plain_keywords [simp]:
  "plain_key ''Comment''" "plain_key ''Domain''" "plain_key ''Max-Age''" "plain_key ''Path''"
  "plain_key ''Version''" "is_part ''Secure''"
  by (simp_all add: plain_key_def is_part_def tight_def is_space_def)

text \<open>
  Cookies whose parts survive the header text: a name that is not a reserved word, texts
  without quotes, semicolons and outer blanks, numbers of the type \<open>int\<close>.
\<close>

definition sendable :: "HttpCookie \<Rightarrow> bool" where
  "sendable c \<longleftrightarrow> plain_key (ck_name c) \<and> ck_name c \<notin> set cookie_keywords \<and>
     plain_value (ck_value c) \<and> plain_value (ck_comment c) \<and> plain_value (ck_domain c) \<and>
     plain_value (ck_path c) \<and> in_i32 (ck_maxAge c) \<and> in_i32 (ck_version c)"

definition cookie_attrs :: "HttpCookie \<Rightarrow> bytes list" where
  "cookie_attrs c =
     (if ck_comment c \<noteq> [] then [''Comment='' @ ck_comment c] else [])
     @ (if ck_domain c \<noteq> [] then [''Domain='' @ ck_domain c] else [])
     @ (if ck_maxAge c \<noteq> 0 then [''Max-Age='' @ int_text 10 (ck_maxAge c)] else [])
     @ (if ck_path c \<noteq> [] then [''Path='' @ ck_path c] else [])
     @ (if ck_secure c then [''Secure''] else [])
     @ [''Version='' @ int_text 10 (ck_version c)]"

lemma toByteArray_parts:
  "toByteArray c = (ck_name c @ CHR ''='' # ck_value c) @ concat (map ((@) ''; '') (cookie_attrs c))"
  by (simp add: toByteArray_def cookie_attrs_def)

lemma plain_int_text [simp]: "plain_value (int_text 10 n)"
  by (simp add: plain_value_def)

lemma cookie_attrs_parts:
  assumes "sendable c"
  shows "\<forall>p \<in> set (cookie_attrs c). is_part p"
proof -
  have *: "is_part (''Comment='' @ v)" "is_part (''Domain='' @ v)" "is_part (''Max-Age='' @ v)"
    "is_part (''Path='' @ v)" "is_part (''Version='' @ v)" if "plain_value v" for v
    using is_part_eq [OF plain_keywords(1) that] is_part_eq [OF plain_keywords(2) that]
      is_part_eq [OF plain_keywords(3) that] is_part_eq [OF plain_keywords(4) that]
      is_part_eq [OF plain_keywords(5) that] by simp_all
  show ?thesis using assms unfolding cookie_attrs_def sendable_def
    by (auto intro: * simp del: append.simps)
qed

lemma set_part_attr:
  assumes "tight v"
  shows "set_part (''Comment='' @ v) c = c\<lparr>ck_comment := v\<rparr>"
    "set_part (''Domain='' @ v) c = c\<lparr>ck_domain := v\<rparr>"
    "set_part (''Max-Age='' @ v) c = c\<lparr>ck_maxAge := or_zero (bytes_toInt 10 v)\<rparr>"
    "set_part (''Path='' @ v) c = c\<lparr>ck_path := v\<rparr>"
    "set_part (''Version='' @ v) c = c\<lparr>ck_version := or_zero (bytes_toInt 10 v)\<rparr>"
  using cookie_pair_eq [OF plain_keywords(1) assms] cookie_pair_eq [OF plain_keywords(2) assms]
    cookie_pair_eq [OF plain_keywords(3) assms] cookie_pair_eq [OF plain_keywords(4) assms]
    cookie_pair_eq [OF plain_keywords(5) assms]
  by (simp_all add: set_part_def)

text \<open>The attribute without a value is not recognised.\<close>

lemma set_part_Secure: "ck_name c \<noteq> [] \<Longrightarrow> set_part ''Secure'' c = c"
  by (simp add: set_part_def cookie_pair_def indexOf_def bleft_def bmid_def trimmed_def ltrim_def)

lemma set_part_name:
  assumes "plain_key k" "k \<notin> set cookie_keywords" "tight v" "ck_name c = []"
  shows "set_part (k @ CHR ''='' # v) c = c\<lparr>ck_name := k, ck_value := v\<rparr>"
  using assms by (simp add: set_part_def cookie_pair_eq cookie_keywords_def)

lemma fold_attrs:
  assumes "sendable c" "ck_name d \<noteq> []"
  shows "fold set_part (cookie_attrs c) d =
    d\<lparr>ck_comment := if ck_comment c \<noteq> [] then ck_comment c else ck_comment d,
      ck_domain := if ck_domain c \<noteq> [] then ck_domain c else ck_domain d,
      ck_maxAge := if ck_maxAge c \<noteq> 0 then ck_maxAge c else ck_maxAge d,
      ck_path := if ck_path c \<noteq> [] then ck_path c else ck_path d,
      ck_version := ck_version c\<rparr>"
proof -
  have t: "tight (ck_comment c)" "tight (ck_domain c)" "tight (ck_path c)"
    "bytes_toInt 10 (int_text 10 (ck_maxAge c)) = Some (ck_maxAge c)"
    "bytes_toInt 10 (int_text 10 (ck_version c)) = Some (ck_version c)"
    using assms(1) by (simp_all add: sendable_def plain_value_def toInt_text)
  show ?thesis
    using assms(2) unfolding cookie_attrs_def
    by (simp add: set_part_attr [OF t(1)] set_part_attr [OF t(2)] set_part_attr [OF t(3)]
        set_part_attr [OF tight_int_text] set_part_Secure t(4,5) or_zero_def del: append.simps)
qed

text \<open>
  C3. What a cookie keeps between the writer and the reader: of a sendable cookie, the header
  text of \<open>toByteArray\<close> gives back every field, except that \<open>secure\<close> is always lost: the
  attribute has no equals sign, so \<open>if(posi)\<close> takes it for one with an empty name.
\<close>

theorem read_cookie_toByteArray:
  assumes "sendable c"
  shows "read_cookie (toByteArray c) = c\<lparr>ck_secure := False\<rparr>"
proof -
  have n: "plain_key (ck_name c)" "ck_name c \<notin> set cookie_keywords" "plain_value (ck_value c)"
    "ck_name c \<noteq> []" "tight (ck_value c)"
    using assms by (auto simp: sendable_def plain_value_def plain_key_def)
  have "splitCSV (toByteArray c) = (ck_name c @ CHR ''='' # ck_value c) # cookie_attrs c"
    unfolding toByteArray_parts
    by (rule splitCSV_parts [OF is_part_eq [OF n(1,3)] cookie_attrs_parts [OF assms]])
  then have "read_cookie (toByteArray c) =
      fold set_part (cookie_attrs c) (empty_cookie\<lparr>ck_name := ck_name c, ck_value := ck_value c\<rparr>)"
    using set_part_name [OF n(1,2,5), of empty_cookie] by (simp add: read_cookie_def empty_cookie_def)
  then show ?thesis
    using n(4) by (simp add: fold_attrs [OF assms] empty_cookie_def)
qed

theorem read_cookie_toByteArray_witness:
  "read_cookie (toByteArray (make_cookie ''sessionid'' ''abc'' 3600 ''/'' [] [] True)) =
    make_cookie ''sessionid'' ''abc'' 3600 ''/'' [] [] False"
proof -
  have "sendable (make_cookie ''sessionid'' ''abc'' 3600 ''/'' [] [] True)"
    by (simp add: sendable_def make_cookie_def plain_key_def plain_value_def tight_def is_space_def
        cookie_keywords_def in_i32_def)
  from read_cookie_toByteArray [OF this] show ?thesis by (simp add: make_cookie_def)
qed

end
