(* ===== verification/Http_Request.thy ===== *)
theory Http_Request
  imports Http_Cookie Qt_Maps
begin

text \<open>
  The class \<open>HttpRequest\<close> of \<open>http/httprequest.cpp\<close>: a request that is read step by step from
  the bytes a socket has available, its limits, and the decoding of its parameters and cookies.
  The socket is the list of bytes received and not yet read; a read takes bytes from its front.
  Files never fail to be written or read; a null \<open>uploadedFile\<close> is the outcome \<open>Fault\<close>.
\<close>

section \<open>The class\<close>

datatype RequestStatus = waitForRequest | waitForHeader | waitForBody | complete | abort

record HttpRequest =
  rq_headers :: "(bytes \<times> bytes) list"
  rq_parameters :: "(bytes \<times> bytes) list"
  rq_uploadedFiles :: "(bytes \<times> bytes) list"
  rq_cookies :: "(bytes \<times> bytes) list"
  rq_bodyData :: bytes
  rq_method :: bytes
  rq_path :: bytes
  rq_version :: bytes
  rq_source :: "32 word"
  rq_status :: RequestStatus
  rq_maxSize :: int
  rq_maxMultiPartSize :: int
  rq_currentSize :: int
  rq_expectedBodySize :: int
  rq_currentHeader :: bytes
  rq_boundary :: bytes
  rq_tempOpen :: bool
  rq_tempFile :: bytes

text \<open>The constructor, for the two sizes the settings give.\<close>

definition new_request :: "int \<Rightarrow> int \<Rightarrow> HttpRequest" where
  "new_request maxRequestSize maxMultiPartSize =
     \<lparr>rq_headers = [], rq_parameters = [], rq_uploadedFiles = [], rq_cookies = [], rq_bodyData = [],
      rq_method = [], rq_path = [], rq_version = [], rq_source = 0, rq_status = waitForRequest,
      rq_maxSize = maxRequestSize, rq_maxMultiPartSize = maxMultiPartSize, rq_currentSize = 0,
      rq_expectedBodySize = 0, rq_currentHeader = [], rq_boundary = [], rq_tempOpen = False,
      rq_tempFile = []\<rparr>"

definition getHeader :: "HttpRequest \<Rightarrow> bytes \<Rightarrow> bytes" where
  "getHeader r n = qm_value [] (rq_headers r) n"

definition getHeaders :: "HttpRequest \<Rightarrow> bytes \<Rightarrow> bytes list" where
  "getHeaders r n = mm_values (rq_headers r) n"

definition getParameter :: "HttpRequest \<Rightarrow> bytes \<Rightarrow> bytes" where
  "getParameter r n = qm_value [] (rq_parameters r) n"

definition getParameters :: "HttpRequest \<Rightarrow> bytes \<Rightarrow> bytes list" where
  "getParameters r n = mm_values (rq_parameters r) n"

definition getCookie :: "HttpRequest \<Rightarrow> bytes \<Rightarrow> bytes" where
  "getCookie r n = qm_value [] (rq_cookies r) n"

definition getUploadedFile :: "HttpRequest \<Rightarrow> bytes \<Rightarrow> bytes option" where
  "getUploadedFile r n = qm_get (rq_uploadedFiles r) n"

section \<open>Reading from the socket\<close>

text \<open>
  \<open>readLine(n)\<close>: the bytes up to and with the first line feed, or all there are, at most \<open>n\<close>;
  a limit of 0 is none, a negative one reads nothing. \<open>read(n)\<close> takes at most \<open>n\<close> bytes.
\<close>

definition line_length :: "bytes \<Rightarrow> nat" where
  "line_length s =
     length (takeWhile (\<lambda>c. c \<noteq> CHR 0x0A) s) + (if CHR 0x0A \<in> set s then 1 else 0)"

definition read_line :: "int \<Rightarrow> bytes \<Rightarrow> bytes \<times> bytes" where
  "read_line n s =
     (let k = (if n < 0 then 0 else if n = 0 then line_length s else min (line_length s) (nat n))
      in (take k s, drop k s))"

definition read_bytes :: "int \<Rightarrow> bytes \<Rightarrow> bytes \<times> bytes" where
  "read_bytes n s = (take (nat n) s, drop (nat n) s)"

definition bsize :: "'a list \<Rightarrow> int" where
  "bsize s = int (length s)"

lemma bsize_simps [simp]: "bsize [] = 0" "bsize (s @ t) = bsize s + bsize t"
  by (simp_all add: bsize_def)

lemma bsize_ge0: "0 \<le> bsize s"
  by (simp add: bsize_def)

definition readRequest :: "HttpRequest \<Rightarrow> bytes \<Rightarrow> HttpRequest \<times> bytes" where
  "readRequest r socket =
     (let toRead = i32 (rq_maxSize r - rq_currentSize r + 1);
          (l, socket) = read_line toRead socket;
          newData = trimmed l;
          r = r\<lparr>rq_currentSize := i32 (rq_currentSize r + bsize newData)\<rparr>
      in if newData \<noteq> [] then
           (let parts = split_on (CHR '' '') newData in
            if length parts \<noteq> 3 \<or> \<not> contains_sub (parts ! 2) ''HTTP''
            then (r\<lparr>rq_status := abort\<rparr>, socket)
            else (r\<lparr>rq_method := parts ! 0, rq_path := parts ! 1, rq_version := parts ! 2,
                   rq_status := waitForHeader\<rparr>, socket))
         else (r, socket))"

text \<open>The two branches of \<open>readHeader\<close> that take a header line, and the end of the headers.\<close>

definition header_line :: "HttpRequest \<Rightarrow> bytes \<Rightarrow> int \<Rightarrow> HttpRequest" where
  "header_line r newData colon =
     (let k = bleft newData colon; v = trimmed (bmid newData (colon + 1))
      in r\<lparr>rq_currentHeader := k, rq_headers := mm_insert k v (rq_headers r)\<rparr>)"

definition header_continued :: "HttpRequest \<Rightarrow> bytes \<Rightarrow> HttpRequest" where
  "header_continued r newData =
     (if qm_contains (rq_headers r) (rq_currentHeader r)
      then r\<lparr>rq_headers := mm_insert (rq_currentHeader r)
               (qm_value [] (rq_headers r) (rq_currentHeader r) @ '' '' @ newData) (rq_headers r)\<rparr>
      else r)"

definition set_boundary :: "HttpRequest \<Rightarrow> HttpRequest" where
  "set_boundary r =
     (let contentType = getHeader r ''Content-Type'';
          posi = indexOf_sub contentType ''boundary='' 0
      in if starts_with contentType ''multipart/form-data'' \<and> 0 \<le> posi
         then r\<lparr>rq_boundary := bmid contentType (posi + 9)\<rparr> else r)"

definition set_expected :: "HttpRequest \<Rightarrow> HttpRequest" where
  "set_expected r =
     (let contentLength = getHeader r ''Content-Length'' in
      if contentLength \<noteq> []
      then r\<lparr>rq_expectedBodySize := or_zero (bytes_toInt 10 contentLength)\<rparr> else r)"

definition body_status :: "HttpRequest \<Rightarrow> RequestStatus" where
  "body_status r =
     (if rq_expectedBodySize r = 0 then complete
      else if rq_boundary r = [] \<and> rq_maxSize r < i32 (rq_expectedBodySize r + rq_currentSize r) then abort
      else if rq_boundary r \<noteq> [] \<and> rq_maxMultiPartSize r < rq_expectedBodySize r then abort
      else waitForBody)"

definition headers_end :: "HttpRequest \<Rightarrow> HttpRequest" where
  "headers_end r = (let r = set_expected (set_boundary r) in r\<lparr>rq_status := body_status r\<rparr>)"

definition readHeader :: "HttpRequest \<Rightarrow> bytes \<Rightarrow> HttpRequest \<times> bytes" where
  "readHeader r socket =
     (let toRead = i32 (rq_maxSize r - rq_currentSize r + 1);
          (l, socket) = read_line toRead socket;
          newData = trimmed l;
          r = r\<lparr>rq_currentSize := i32 (rq_currentSize r + bsize newData)\<rparr>;
          colon = indexOf newData (CHR '':'')
      in (if 0 < colon then header_line r newData colon
          else if newData \<noteq> [] then header_continued r newData
          else headers_end r, socket))"

section \<open>The multipart body\<close>

text \<open>A parameter of a disposition line, in quotes after its name; the old value if absent.\<close>

definition quoted_param :: "bytes \<Rightarrow> bytes \<Rightarrow> bytes \<Rightarrow> bytes" where
  "quoted_param line key old =
     (let n = bsize key;
          start = indexOf_sub line key 0;
          end = indexOf_sub line [CHR 0x22] (nat (start + n))
      in if 0 \<le> start \<and> start \<le> end then bmid2 line (start + n) (end - start - n) else old)"

definition name_key :: bytes where
  "name_key = '' name='' @ [CHR 0x22]"

definition filename_key :: bytes where
  "filename_key = '' filename='' @ [CHR 0x22]"

lemma read_line_append: "read_line n s = (l, t) \<Longrightarrow> s = l @ t"
  by (auto simp: read_line_def Let_def)

lemma line_length_pos: "s \<noteq> [] \<Longrightarrow> 0 < line_length s"
  by (cases s) (auto simp: line_length_def)

lemma read_line_less: "s \<noteq> [] \<Longrightarrow> 0 \<le> n \<Longrightarrow> length (snd (read_line n s)) < length s"
  using line_length_pos [of s] by (auto simp: read_line_def Let_def)

lemma read_line_le: "length (snd (read_line n s)) \<le> length s"
  by (simp add: read_line_def Let_def)

text \<open>The header lines of one part: the field name and the file name.\<close>

function part_header :: "bytes \<Rightarrow> bytes \<Rightarrow> bytes \<Rightarrow> bytes \<times> bytes \<times> bytes" where
  "part_header rest fieldName fileName =
     (if rest = [] then (rest, fieldName, fileName)
      else
        (let line = trimmed (fst (read_line 65536 rest)); rest' = snd (read_line 65536 rest) in
         if starts_with line ''Content-Disposition:'' then
           (if contains_sub line ''form-data''
            then part_header rest' (quoted_param line name_key fieldName) (quoted_param line filename_key fileName)
            else part_header rest' fieldName fileName)
         else if line = [] then (rest', fieldName, fileName)
         else part_header rest' fieldName fileName))"
  by pat_completeness auto
termination
  by (relation "measure (\<lambda>(rest, _, _). length rest)") (auto simp: read_line_less)

declare part_header.simps [simp del]

text \<open>The bytes of one part, up to the next boundary line: a field's value or a file.\<close>

definition end_part :: "HttpRequest \<Rightarrow> bytes \<Rightarrow> bytes \<Rightarrow> bytes option \<Rightarrow> bytes \<Rightarrow> HttpRequest run" where
  "end_part r fieldName fileName uploadedFile fieldValue =
     (if fileName = [] \<and> fieldName \<noteq> [] then
        Done (r\<lparr>rq_parameters := mm_insert fieldName
                (if 2 \<le> length fieldValue then take (length fieldValue - 2) fieldValue else fieldValue)
                (rq_parameters r)\<rparr>)
      else if fileName \<noteq> [] \<and> fieldName \<noteq> [] then
        (case uploadedFile of None \<Rightarrow> Fault
         | Some f \<Rightarrow>
             Done (r\<lparr>rq_parameters := mm_insert fieldName fileName (rq_parameters r),
                     rq_uploadedFiles := qm_insert fieldName
                       (if 2 \<le> length f then take (length f - 2) f else f) (rq_uploadedFiles r)\<rparr>))
      else Done r)"

definition file_append :: "bytes option \<Rightarrow> bytes \<Rightarrow> bytes option" where
  "file_append f line = Some ((case f of None \<Rightarrow> [] | Some d \<Rightarrow> d) @ line)"

function part_body :: "bytes \<Rightarrow> HttpRequest \<Rightarrow> bytes \<Rightarrow> bytes \<Rightarrow> bytes option \<Rightarrow> bytes
    \<Rightarrow> (HttpRequest \<times> bytes \<times> bool) run" where
  "part_body rest r fieldName fileName uploadedFile fieldValue =
     (if rest = [] then Done (r, [], False)
      else
        (let line = fst (read_line 65536 rest); rest' = snd (read_line 65536 rest) in
         if starts_with line (''--'' @ rq_boundary r) then
           rbind (end_part r fieldName fileName uploadedFile fieldValue)
             (\<lambda>r'. Done (r', rest', contains_sub line (rq_boundary r @ ''--'')))
         else if fileName = [] \<and> fieldName \<noteq> [] then
           part_body rest' (r\<lparr>rq_currentSize := i32 (rq_currentSize r + bsize line)\<rparr>)
             fieldName fileName uploadedFile (fieldValue @ line)
         else if fileName \<noteq> [] \<and> fieldName \<noteq> [] then
           part_body rest' r fieldName fileName (file_append uploadedFile line) fieldValue
         else part_body rest' r fieldName fileName uploadedFile fieldValue))"
  by pat_completeness auto
termination
  by (relation "measure (\<lambda>(rest, _, _, _, _, _). length rest)") (auto simp: read_line_less)

declare part_body.simps [simp del]

lemma part_header_less: "rest \<noteq> [] \<Longrightarrow> length (fst (part_header rest fn fl)) < length rest"
proof (induction "length rest" arbitrary: rest fn fl rule: less_induct)
  case less
  let ?t = "snd (read_line 65536 rest)"
  have t: "length ?t < length rest" using less.prems by (simp add: read_line_less)
  have "length (fst (part_header ?t a b)) < length rest" for a b
  proof (cases "?t = []")
    case True
    then show ?thesis using t by (simp add: part_header.simps [of "[]"])
  next
    case False
    from less.hyps [OF t False] t show ?thesis by (rule order.strict_trans)
  qed
  then show ?case using t less.prems by (simp add: part_header.simps [of rest] Let_def)
qed

lemma part_body_le:
  "part_body rest r fn fl uf v = Done (r', rest', fin) \<Longrightarrow> length rest' \<le> length rest"
proof (induction "length rest" arbitrary: rest r uf v rule: less_induct)
  case less
  let ?t = "snd (read_line 65536 rest)"
  show ?case
  proof (cases "rest = []")
    case False
    then have t: "length ?t < length rest" by (simp add: read_line_less)
    have IH: "length rest' \<le> length rest" if "part_body ?t r2 fn fl uf2 v2 = Done (r', rest', fin)" for r2 uf2 v2
      using less.hyps [OF t that] t by simp
    show ?thesis
      using less.prems False t IH
      by (auto simp: part_body.simps [of rest] Let_def rbind_Done split: if_splits)
  qed (use less.prems in \<open>simp add: part_body.simps [of "[]"]\<close>)
qed

function parse_parts :: "bytes \<Rightarrow> HttpRequest \<Rightarrow> HttpRequest run" where
  "parse_parts rest r =
     (if rest = [] then Done r
      else
        (let (rest1, fieldName, fileName) = part_header rest [] [] in
         case part_body rest1 r fieldName fileName None [] of
           Done (r', rest2, finished) \<Rightarrow> if finished then Done r' else parse_parts rest2 r'
         | Fault \<Rightarrow> Fault
         | Loop \<Rightarrow> Loop))"
  by pat_completeness auto
termination
proof (relation "measure (\<lambda>(rest, _). length rest)", simp)
  fix rest r x y rest1 fn fl t r' u rest2 fin
  assume "rest \<noteq> []" "x = part_header rest [] []" "(rest1, y) = x" "(fn, fl) = y"
    "part_body rest1 r fn fl None [] = Done t" "(r', u) = t" "(rest2, fin) = u"
  then show "((rest2, r'), rest, r) \<in> measure (\<lambda>(rest, _). length rest)"
    using part_header_less [of rest "[]" "[]"] part_body_le [of rest1 r fn fl None "[]" r' rest2 fin]
    by (metis case_prod_conv fst_conv in_measure le_less_trans)
qed

declare parse_parts.simps [simp del]

definition parseMultiPartFile :: "HttpRequest \<Rightarrow> HttpRequest run" where
  "parseMultiPartFile r = parse_parts (rq_tempFile r) r"

definition readBody :: "HttpRequest \<Rightarrow> bytes \<Rightarrow> (HttpRequest \<times> bytes) run" where
  "readBody r socket =
     (if rq_boundary r = [] then
        (let toRead = i32 (rq_expectedBodySize r - bsize (rq_bodyData r));
             (newData, socket) = read_bytes toRead socket;
             r = r\<lparr>rq_currentSize := i32 (rq_currentSize r + bsize newData),
                   rq_bodyData := rq_bodyData r @ newData\<rparr>
         in Done (if rq_expectedBodySize r \<le> bsize (rq_bodyData r) then r\<lparr>rq_status := complete\<rparr> else r, socket))
      else
        (let r = r\<lparr>rq_tempOpen := True\<rparr>;
             fileSize = bsize (rq_tempFile r);
             toRead = min (i32 (rq_expectedBodySize r - fileSize)) 65536;
             (newData, socket) = read_bytes toRead socket;
             r = r\<lparr>rq_tempFile := rq_tempFile r @ newData\<rparr>;
             fileSize = i32 (fileSize + bsize newData)
         in if rq_maxMultiPartSize r \<le> fileSize then Done (r\<lparr>rq_status := abort\<rparr>, socket)
            else if rq_expectedBodySize r \<le> fileSize then
              rbind (parseMultiPartFile r)
                (\<lambda>r. Done (r\<lparr>rq_tempOpen := False, rq_status := complete\<rparr>, socket))
            else Done (r, socket)))"

section \<open>Decoding\<close>

text \<open>
  \<open>urlDecode\<close>: the loop over the percent signs of the buffer. A percent sign and the two bytes
  after it become one byte if the two are a number in base 16; the search goes on behind it.
\<close>

definition byte_char :: "int \<Rightarrow> char" where
  "byte_char n = char_of (nat (n mod 256))"

definition indexOf_at :: "bytes \<Rightarrow> char \<Rightarrow> nat \<Rightarrow> nat option" where
  "indexOf_at s c n =
     (if c \<in> set (drop n s) then Some (n + length (takeWhile (\<lambda>x. x \<noteq> c) (drop n s))) else None)"

lemma indexOf_at_less: "indexOf_at s c n = Some k \<Longrightarrow> n \<le> k \<and> k < length s"
  using length_takeWhile_less [of c "drop n s" "\<lambda>x. x \<noteq> c"] by (auto simp: indexOf_at_def split: if_splits)

function urlDecode_loop :: "bytes \<Rightarrow> nat \<Rightarrow> bytes" where
  "urlDecode_loop buffer from =
     (case indexOf_at buffer (CHR ''%'') from of None \<Rightarrow> buffer
      | Some p \<Rightarrow>
          (case bytes_toInt 16 (take 2 (drop (Suc p) buffer)) of
             Some n \<Rightarrow> urlDecode_loop (take p buffer @ byte_char n # drop (p + 3) buffer) (Suc p)
           | None \<Rightarrow> urlDecode_loop buffer (Suc p)))"
  by pat_completeness auto
termination
  by (relation "measure (\<lambda>(buffer, from). length buffer - from)") (auto dest!: indexOf_at_less)

declare urlDecode_loop.simps [simp del]

definition urlDecode :: "bytes \<Rightarrow> bytes" where
  "urlDecode sourceUrl =
     urlDecode_loop (map (\<lambda>c. if c = CHR ''+'' then CHR '' '' else c) sourceUrl) 0"

definition getPath :: "HttpRequest \<Rightarrow> bytes" where
  "getPath r = urlDecode (rq_path r)"

definition split_url :: "HttpRequest \<Rightarrow> HttpRequest \<times> bytes" where
  "split_url r =
     (let questionMark = indexOf (rq_path r) (CHR ''?'') in
      if 0 \<le> questionMark
      then (r\<lparr>rq_path := bleft (rq_path r) questionMark\<rparr>, bmid (rq_path r) (questionMark + 1))
      else (r, []))"

text \<open>The raw parameters: \<open>&\<close> and the body if the URL has none, else the body in their place.\<close>

definition raw_parameters :: "HttpRequest \<Rightarrow> bytes \<Rightarrow> bytes" where
  "raw_parameters r raw =
     (let contentType = getHeader r ''Content-Type'' in
      if rq_bodyData r \<noteq> [] \<and>
         (contentType = [] \<or> starts_with contentType ''application/x-www-form-urlencoded'')
      then (if raw = [] then CHR ''&'' # rq_bodyData r else rq_bodyData r)
      else raw)"

definition insert_parameter :: "bytes \<Rightarrow> (bytes \<times> bytes) list \<Rightarrow> (bytes \<times> bytes) list" where
  "insert_parameter part m =
     (let equalsChar = indexOf part (CHR ''='') in
      if 0 \<le> equalsChar
      then mm_insert (urlDecode (trimmed (bleft part equalsChar)))
             (urlDecode (trimmed (bmid part (equalsChar + 1)))) m
      else if part \<noteq> [] then mm_insert (urlDecode part) [] m
      else m)"

definition decodeRequestParams :: "HttpRequest \<Rightarrow> HttpRequest" where
  "decodeRequestParams r =
     (let (r, raw) = split_url r in
      r\<lparr>rq_parameters := fold insert_parameter (split_on (CHR ''&'') (raw_parameters r raw)) (rq_parameters r)\<rparr>)"

definition insert_cookies :: "bytes \<Rightarrow> (bytes \<times> bytes) list \<Rightarrow> (bytes \<times> bytes) list" where
  "insert_cookies cookieStr m = fold (\<lambda>part. case cookie_pair part of (n, v) \<Rightarrow> qm_insert n v) (splitCSV cookieStr) m"

definition extractCookies :: "HttpRequest \<Rightarrow> HttpRequest" where
  "extractCookies r =
     r\<lparr>rq_cookies := fold insert_cookies (mm_values (rq_headers r) ''Cookie'') (rq_cookies r),
       rq_headers := qm_remove ''Cookie'' (rq_headers r)\<rparr>"

section \<open>One step\<close>

text \<open>The end of a step: the check of the size, and the decoding of a complete request.\<close>

definition finish_step :: "HttpRequest \<Rightarrow> HttpRequest" where
  "finish_step r =
     (let r = (if rq_maxSize r < rq_currentSize r then r\<lparr>rq_status := abort\<rparr> else r) in
      if rq_status r = complete then extractCookies (decodeRequestParams r) else r)"

definition readFromSocket :: "32 word \<Rightarrow> HttpRequest \<Rightarrow> bytes \<Rightarrow> (HttpRequest \<times> bytes) run" where
  "readFromSocket peer r socket =
     (let r = r\<lparr>rq_source := peer\<rparr> in
      rbind
        (case rq_status r of
           waitForRequest \<Rightarrow> Done (readRequest r socket)
         | waitForHeader \<Rightarrow> Done (readHeader r socket)
         | waitForBody \<Rightarrow> readBody r socket
         | _ \<Rightarrow> Done (r, socket))
        (\<lambda>(r, socket). Done (finish_step r, socket)))"

text \<open>
  The loop of the connection handler that feeds a request: it reads while there are bytes and
  the request is neither complete nor aborted.
\<close>

fun read_loop :: "nat \<Rightarrow> 32 word \<Rightarrow> HttpRequest \<Rightarrow> bytes \<Rightarrow> (HttpRequest \<times> bytes) run" where
  "read_loop fuel peer r socket =
     (if socket = [] \<or> rq_status r = complete \<or> rq_status r = abort then Done (r, socket)
      else case fuel of 0 \<Rightarrow> Loop
        | Suc n \<Rightarrow> rbind (readFromSocket peer r socket) (\<lambda>(r, socket). read_loop n peer r socket))"

declare read_loop.simps [simp del]

end
