(* ===== verification/Http_Response.thy ===== *)
theory Http_Response
  imports Http_Cookie Qt_Maps
begin

text \<open>
  The class \<open>HttpResponse\<close> of \<open>http/httpresponse.cpp\<close>: the header block, the writes to the socket,
  and the framing of the body by a length or in chunks.
\<close>

section \<open>The socket\<close>

text \<open>
  The sending side of a \<open>QTcpSocket\<close>: whether it is open, the bytes it took so far, and a plan of
  what its next writes do: take some bytes, fail, or find the connection closed. When the plan
  is used up every write takes all it is given.
\<close>

datatype write_result = Accept nat | Fail | Close

record socket =
  sk_open :: bool
  sk_sent :: bytes
  sk_plan :: "write_result list"

fun write_loop :: "write_result list \<Rightarrow> bool \<Rightarrow> bytes \<Rightarrow> bytes \<Rightarrow> socket \<times> bool" where
  "write_loop [] isOpen out data =
     (\<lparr>sk_open = isOpen, sk_sent = (if isOpen then out @ data else out), sk_plan = []\<rparr>, True)"
| "write_loop (w # plan) isOpen out data =
     (if \<not> isOpen \<or> data = [] then (\<lparr>sk_open = isOpen, sk_sent = out, sk_plan = w # plan\<rparr>, True)
      else case w of
        Accept n \<Rightarrow> write_loop plan isOpen (out @ take n data) (drop n data)
      | Fail \<Rightarrow> (\<lparr>sk_open = isOpen, sk_sent = out, sk_plan = plan\<rparr>, False)
      | Close \<Rightarrow> (\<lparr>sk_open = False, sk_sent = out, sk_plan = plan\<rparr>, False))"

definition writeToSocket :: "socket \<Rightarrow> bytes \<Rightarrow> socket \<times> bool" where
  "writeToSocket s data = write_loop (sk_plan s) (sk_open s) (sk_sent s) data"

definition send :: "socket \<Rightarrow> bytes \<Rightarrow> socket" where
  "send s data = fst (writeToSocket s data)"

definition disconnectFromHost :: "socket \<Rightarrow> socket" where
  "disconnectFromHost s = s\<lparr>sk_open := False\<rparr>"

section \<open>The class\<close>

record HttpResponse =
  rs_socket :: socket
  rs_headers :: "(bytes \<times> bytes) list"
  rs_cookies :: "(bytes \<times> HttpCookie) list"
  rs_statusCode :: int
  rs_statusText :: bytes
  rs_sentHeaders :: bool
  rs_sentLastPart :: bool

definition new_response :: "socket \<Rightarrow> HttpResponse" where
  "new_response s = \<lparr>rs_socket = s, rs_headers = [], rs_cookies = [], rs_statusCode = 200, rs_statusText = ''OK'',
     rs_sentHeaders = False, rs_sentLastPart = False\<rparr>"

definition setHeader :: "bytes \<Rightarrow> bytes \<Rightarrow> HttpResponse \<Rightarrow> HttpResponse" where
  "setHeader n v r = r\<lparr>rs_headers := qm_insert n v (rs_headers r)\<rparr>"

definition setHeader_int :: "bytes \<Rightarrow> int \<Rightarrow> HttpResponse \<Rightarrow> HttpResponse" where
  "setHeader_int n v r = r\<lparr>rs_headers := qm_insert n (int_text 10 v) (rs_headers r)\<rparr>"

definition setStatus :: "int \<Rightarrow> bytes \<Rightarrow> HttpResponse \<Rightarrow> HttpResponse" where
  "setStatus code description r = r\<lparr>rs_statusCode := code, rs_statusText := description\<rparr>"

definition setCookie :: "HttpCookie \<Rightarrow> HttpResponse \<Rightarrow> HttpResponse" where
  "setCookie c r = (if ck_name c \<noteq> [] then r\<lparr>rs_cookies := qm_insert (ck_name c) c (rs_cookies r)\<rparr> else r)"

definition crlf :: bytes where
  "crlf = [CHR 0x0D, CHR 0x0A]"

definition header_block :: "HttpResponse \<Rightarrow> bytes" where
  "header_block r =
     ''HTTP/1.1 '' @ int_text 10 (rs_statusCode r) @ '' '' @ rs_statusText r @ crlf
     @ concat (map (\<lambda>(n, v). n @ '': '' @ v @ crlf) (rs_headers r))
     @ concat (map (\<lambda>(n, c). ''Set-Cookie: '' @ toByteArray c @ crlf) (rs_cookies r))
     @ crlf"

definition writeHeaders :: "HttpResponse \<Rightarrow> HttpResponse" where
  "writeHeaders r = r\<lparr>rs_socket := send (rs_socket r) (header_block r), rs_sentHeaders := True\<rparr>"

definition header_is :: "HttpResponse \<Rightarrow> bytes \<Rightarrow> bytes list \<Rightarrow> bool" where
  "header_is r n vs \<longleftrightarrow> qm_value [] (rs_headers r) n \<in> set vs"

text \<open>The framing header the first write adds, unless one is there or the connection closes.\<close>

definition add_framing :: "HttpResponse \<Rightarrow> bytes \<Rightarrow> bool \<Rightarrow> HttpResponse" where
  "add_framing r data lastPart =
     (if \<not> qm_contains (rs_headers r) ''Content-Length'' \<and> \<not> qm_contains (rs_headers r) ''Transfer-Encoding'' \<and>
         \<not> header_is r ''Connection'' [''close'', ''Close'']
      then (if \<not> lastPart then r\<lparr>rs_headers := qm_insert ''Transfer-Encoding'' ''chunked'' (rs_headers r)\<rparr>
            else r\<lparr>rs_headers := qm_insert ''Content-Length'' (int_text 10 (int (length data))) (rs_headers r)\<rparr>)
      else r)"

definition is_chunked :: "HttpResponse \<Rightarrow> bool" where
  "is_chunked r \<longleftrightarrow> header_is r ''Transfer-Encoding'' [''chunked'', ''Chunked'']"

definition send_all :: "bytes list \<Rightarrow> HttpResponse \<Rightarrow> HttpResponse" where
  "send_all ds r = r\<lparr>rs_socket := fold (\<lambda>d s. send s d) ds (rs_socket r)\<rparr>"

definition write_part :: "HttpResponse \<Rightarrow> bytes \<Rightarrow> bool \<Rightarrow> HttpResponse" where
  "write_part r data lastPart =
     (let r = (if \<not> rs_sentHeaders r then writeHeaders (add_framing r data lastPart) else r);
          chunked = is_chunked r;
          r = (if chunked
               then (if data \<noteq> [] then send_all [int_text 16 (int (length data)) @ crlf, data, crlf] r else r)
               else send_all [data] r)
      in if lastPart then
           (let r = (if chunked then send_all [''0'' @ crlf @ crlf] r
                     else if \<not> qm_contains (rs_headers r) ''Content-Length''
                     then r\<lparr>rs_socket := disconnectFromHost (rs_socket r)\<rparr> else r)
            in r\<lparr>rs_sentLastPart := True\<rparr>)
         else r)"

section \<open>Sinks\<close>

text \<open>
  What the response needs of a socket: while it is good, a write appends all its data and leaves
  it good.
\<close>

locale byte_sink =
  fixes put :: "'s \<Rightarrow> bytes \<Rightarrow> 's"
    and out :: "'s \<Rightarrow> bytes"
    and good :: "'s \<Rightarrow> bool"
  assumes out_put: "good s \<Longrightarrow> out (put s d) = out s @ d"
    and good_put: "good s \<Longrightarrow> good (put s d)"
begin

lemma good_puts: "good s \<Longrightarrow> good (fold (\<lambda>d s. put s d) ds s)"
  by (induction ds arbitrary: s) (simp_all add: good_put)

lemma out_puts: "good s \<Longrightarrow> out (fold (\<lambda>d s. put s d) ds s) = out s @ concat ds"
  by (induction ds arbitrary: s) (simp_all add: good_put out_put)

text \<open>Splitting the data over several writes makes no difference to what arrives.\<close>

lemma out_puts_split:
  "good s \<Longrightarrow> concat ds = concat es \<Longrightarrow> out (fold (\<lambda>d s. put s d) ds s) = out (fold (\<lambda>d s. put s d) es s)"
  by (simp add: out_puts)

end

definition healthy :: "socket \<Rightarrow> bool" where
  "healthy s \<longleftrightarrow> sk_open s \<and> (\<forall>w \<in> set (sk_plan s). \<exists>n. w = Accept n)"

lemma write_loop_healthy:
  "isOpen \<Longrightarrow> \<forall>w \<in> set plan. \<exists>n. w = Accept n \<Longrightarrow>
    \<exists>p. write_loop plan isOpen out data = (\<lparr>sk_open = True, sk_sent = out @ data, sk_plan = p\<rparr>, True) \<and>
      (\<forall>w \<in> set p. \<exists>n. w = Accept n)"
proof (induction plan isOpen out data rule: write_loop.induct)
  case (2 w plan isOpen out data)
  then obtain n where w: "w = Accept n" by auto
  show ?case
  proof (cases "data = []")
    case False
    then show ?thesis using 2 w by simp
  qed (use 2 in auto)
qed simp

interpretation sock: byte_sink send sk_sent healthy
proof (unfold_locales, goal_cases)
  case (1 s d)
  then show ?case using write_loop_healthy [of "sk_open s" "sk_plan s" "sk_sent s" d]
    by (auto simp: send_def writeToSocket_def healthy_def)
next
  case (2 s d)
  then show ?case using write_loop_healthy [of "sk_open s" "sk_plan s" "sk_sent s" d]
    by (auto simp: send_def writeToSocket_def healthy_def)
qed

text \<open>Whatever the socket does, a write delivers a first part of its data, in order.\<close>

lemma write_loop_prefix:
  "\<exists>k. sk_sent (fst (write_loop plan isOpen out data)) = out @ take k data"
proof (induction plan isOpen out data rule: write_loop.induct)
  case (1 isOpen out data)
  then show ?case by (auto intro: exI [of _ "length data"] exI [of _ 0])
next
  case (2 w plan isOpen out data)
  show ?case
  proof (cases "\<not> isOpen \<or> data = []")
    case True
    then show ?thesis by (auto intro: exI [of _ 0])
  next
    case False
    show ?thesis
    proof (cases w)
      case (Accept n)
      from "2.IH" [OF False Accept] obtain k where
        "sk_sent (fst (write_loop plan isOpen (out @ take n data) (drop n data))) = (out @ take n data) @ take k (drop n data)"
        by blast
      moreover have "take n data @ take k (drop n data) = take (n + k) data" by (simp add: take_add)
      ultimately show ?thesis using False Accept by (intro exI [of _ "n + k"]) simp
    qed (use False in \<open>auto intro: exI [of _ 0]\<close>)
  qed
qed

section \<open>Framing\<close>

definition chunk_text :: "bytes \<Rightarrow> bytes" where
  "chunk_text d = (if d = [] then [] else int_text 16 (int (length d)) @ crlf @ d @ crlf)"

text \<open>A client's reader of a chunked body: each length in base 16, until the length 0.\<close>

function decode_chunks :: "bytes \<Rightarrow> bytes option" where
  "decode_chunks s =
     (let n = parse_nat 16 (takeWhile (\<lambda>c. c \<noteq> CHR 0x0D) s);
          t = drop 2 (dropWhile (\<lambda>c. c \<noteq> CHR 0x0D) s)
      in case n of None \<Rightarrow> None
         | Some k \<Rightarrow>
             (if k = 0 then Some []
              else if length t < k + 2 then None
              else map_option ((@) (take k t)) (decode_chunks (drop (k + 2) t))))"
  by pat_completeness auto
termination
proof (relation "measure length", simp, goal_cases)
  case (1 s n t k)
  have "length (dropWhile (\<lambda>c. c \<noteq> CHR 0x0D) s) \<le> length s" by (rule length_dropWhile_le)
  with 1 show ?case by simp
qed

declare decode_chunks.simps [simp del]

lemma nat_text_no_cr: "c \<in> set (nat_text 16 n) \<Longrightarrow> c \<noteq> CHR 0x0D"
proof -
  assume "c \<in> set (nat_text 16 n)"
  then obtain d where "d < 16" "c = digit_char d" using nat_text_chars [of 16 c n] by auto
  then have "\<not> is_space c" using digit_char_plain(3) [of d] by simp
  then show ?thesis by (auto simp: is_space_def)
qed

lemma decode_chunk:
  assumes "d \<noteq> []"
  shows "decode_chunks (chunk_text d @ s) = map_option ((@) d) (decode_chunks s)"
proof -
  let ?l = "nat_text 16 (length d)"
  have t: "chunk_text d @ s = ?l @ CHR 0x0D # CHR 0x0A # d @ crlf @ s"
    using assms by (simp add: chunk_text_def int_text_def crlf_def)
  have *: "takeWhile (\<lambda>c. c \<noteq> CHR 0x0D) (?l @ CHR 0x0D # u) = ?l"
    "dropWhile (\<lambda>c. c \<noteq> CHR 0x0D) (?l @ CHR 0x0D # u) = CHR 0x0D # u" for u
    using nat_text_no_cr by (auto simp: takeWhile_append dropWhile_append)
  show ?thesis
    unfolding t by (subst decode_chunks.simps) (use assms in \<open>simp add: * parse_nat_text crlf_def\<close>)
qed

lemma decode_last: "decode_chunks (''0'' @ crlf @ crlf) = Some []"
proof -
  have "parse_nat 16 ''0'' = Some 0" using parse_nat_text [of 16 0] 
    by (simp add: nat_text_def digits.simps digit_char_def char_of_def bit_0)
  then show ?thesis by (subst decode_chunks.simps) (simp add: crlf_def)
qed

lemma decode_all: "decode_chunks (concat (map chunk_text ds) @ ''0'' @ crlf @ crlf) = Some (concat ds)"
proof (induction ds)
  case (Cons d ds)
  then show ?case using decode_chunk [of d] by (cases "d = []") (simp_all add: chunk_text_def)
qed (use decode_last in simp)

definition sent :: "HttpResponse \<Rightarrow> bytes" where
  "sent r = sk_sent (rs_socket r)"

definition streaming :: "HttpResponse \<Rightarrow> bool" where
  "streaming r \<longleftrightarrow> rs_sentHeaders r \<and> is_chunked r \<and> healthy (rs_socket r)"

lemma send_all_sink:
  assumes "healthy (rs_socket r)"
  shows "sent (send_all ds r) = sent r @ concat ds" "healthy (rs_socket (send_all ds r))"
    "rs_headers (send_all ds r) = rs_headers r" "rs_sentHeaders (send_all ds r) = rs_sentHeaders r"
  using sock.out_puts [OF assms] sock.good_puts [OF assms] by (simp_all add: send_all_def sent_def)

lemma chunked_part:
  assumes "streaming r"
  shows "streaming (write_part r d False)" "sent (write_part r d False) = sent r @ chunk_text d"
proof -
  have h: "healthy (rs_socket r)" "rs_sentHeaders r" "is_chunked r" using assms by (simp_all add: streaming_def)
  note s = send_all_sink [OF h(1), of "[int_text 16 (int (length d)) @ crlf, d, crlf]"]
  show "streaming (write_part r d False)"
    using h s by (simp add: write_part_def Let_def streaming_def is_chunked_def header_is_def)
  show "sent (write_part r d False) = sent r @ chunk_text d"
    using h s by (simp add: write_part_def Let_def chunk_text_def)
qed

lemma chunked_parts:
  "streaming r \<Longrightarrow> streaming (fold (\<lambda>d r. write_part r d False) ds r) \<and>
    sent (fold (\<lambda>d r. write_part r d False) ds r) = sent r @ concat (map chunk_text ds)"
  by (induction ds arbitrary: r) (simp_all add: chunked_part)

lemma chunked_end:
  assumes "streaming r"
  shows "sent (write_part r d True) = sent r @ chunk_text d @ ''0'' @ crlf @ crlf"
proof -
  have h: "healthy (rs_socket r)" "rs_sentHeaders r" "is_chunked r" using assms by (simp_all add: streaming_def)
  let ?r = "if d \<noteq> [] then send_all [int_text 16 (int (length d)) @ crlf, d, crlf] r else r"
  have "sent (write_part r d True) = sent (send_all [''0'' @ crlf @ crlf] ?r)"
    using h by (simp add: write_part_def Let_def sent_def)
  also have "\<dots> = sent ?r @ ''0'' @ crlf @ crlf"
    using send_all_sink [of ?r] send_all_sink [OF h(1)] h(1) by simp
  also have "sent ?r = sent r @ chunk_text d"
    using send_all_sink [OF h(1)] by (simp add: chunk_text_def)
  finally show ?thesis by simp
qed

text \<open>A response that has sent nothing and leaves the framing to the first write.\<close>

definition unframed :: "HttpResponse \<Rightarrow> bool" where
  "unframed r \<longleftrightarrow> \<not> rs_sentHeaders r \<and> healthy (rs_socket r) \<and>
     \<not> qm_contains (rs_headers r) ''Content-Length'' \<and> \<not> qm_contains (rs_headers r) ''Transfer-Encoding'' \<and>
     \<not> header_is r ''Connection'' [''close'', ''Close'']"

definition with_header :: "bytes \<Rightarrow> bytes \<Rightarrow> HttpResponse \<Rightarrow> HttpResponse" where
  "with_header n v r = r\<lparr>rs_headers := qm_insert n v (rs_headers r)\<rparr>"

lemma first_chunk:
  assumes "unframed r"
  shows "streaming (write_part r d False)"
    "sent (write_part r d False) = sent r @ header_block (with_header ''Transfer-Encoding'' ''chunked'' r) @ chunk_text d"
proof -
  let ?r = "writeHeaders (with_header ''Transfer-Encoding'' ''chunked'' r)"
  have f: "add_framing r d False = with_header ''Transfer-Encoding'' ''chunked'' r"
    using assms by (simp add: unframed_def add_framing_def with_header_def)
  have "is_chunked ?r"
    by (simp add: is_chunked_def header_is_def writeHeaders_def with_header_def qm_value_def qm_get_insert)
  then have s: "streaming ?r" and o: "sent ?r = sent r @ header_block (with_header ''Transfer-Encoding'' ''chunked'' r)"
    using assms sock.good_put sock.out_put
    by (simp_all add: streaming_def writeHeaders_def with_header_def unframed_def sent_def)
  have "write_part r d False = write_part ?r d False"
    using assms f by (simp add: write_part_def unframed_def) (simp add: writeHeaders_def)
  then show "streaming (write_part r d False)"
    "sent (write_part r d False) = sent r @ header_block (with_header ''Transfer-Encoding'' ''chunked'' r) @ chunk_text d"
    using chunked_part [OF s] o by simp_all
qed

text \<open>
  C12. A response of unknown length reaches the client whole: sent in any number of parts on a
  healthy connection, it is one header block that announces chunks, and a body a client's reader
  of chunks decodes to exactly the parts in order.
\<close>

theorem chunked_response:
  assumes "unframed r"
  shows "\<exists>b. sent (write_part (fold (\<lambda>d r. write_part r d False) (d # ds) r) e True) =
      sent r @ header_block (with_header ''Transfer-Encoding'' ''chunked'' r) @ b \<and>
    decode_chunks b = Some (concat (d # ds) @ e)"
proof (intro exI conjI)
  note f = first_chunk [OF assms, of d]
  note p = chunked_parts [OF f(1), of ds]
  show "sent (write_part (fold (\<lambda>d r. write_part r d False) (d # ds) r) e True) =
      sent r @ header_block (with_header ''Transfer-Encoding'' ''chunked'' r) @
      concat (map chunk_text ((d # ds) @ [e])) @ ''0'' @ crlf @ crlf"
    using chunked_end [of "fold (\<lambda>d r. write_part r d False) ds (write_part r d False)" e] p f(2) by simp
  show "decode_chunks (concat (map chunk_text ((d # ds) @ [e])) @ ''0'' @ crlf @ crlf) = Some (concat (d # ds) @ e)"
    unfolding decode_all by simp
qed

definition good_socket :: socket where
  "good_socket = \<lparr>sk_open = True, sk_sent = [], sk_plan = [Accept 5]\<rparr>"

lemma fresh_unframed: "unframed (new_response good_socket)"
  by (simp add: unframed_def new_response_def good_socket_def healthy_def qm_contains_def header_is_def qm_value_def)

theorem chunked_response_witness:
  "\<exists>b. sent (write_part (fold (\<lambda>d r. write_part r d False) [''ab'', []] (new_response good_socket)) ''c'' True) =
      header_block (with_header ''Transfer-Encoding'' ''chunked'' (new_response good_socket)) @ b \<and>
    decode_chunks b = Some ''abc''"
  using chunked_response [OF fresh_unframed, of "''ab''" "[[]]" "''c''"]
  by (simp add: sent_def new_response_def good_socket_def)

lemma single_part:
  assumes "unframed r" "int (length d) < 2 ^ 31"
  shows "sent (write_part r d True) = sent r @ header_block (write_part r d True) @ d"
    "bytes_toInt 10 (qm_value [] (rs_headers (write_part r d True)) ''Content-Length'') = Some (int (length d))"
    "rs_sentLastPart (write_part r d True)" "healthy (rs_socket (write_part r d True))"
    "\<not> is_chunked (write_part r d True)"
proof -
  let ?h = "with_header ''Content-Length'' (int_text 10 (int (length d))) r"
  let ?w = "writeHeaders ?h"
  have f: "add_framing r d True = ?h" using assms(1) by (simp add: unframed_def add_framing_def with_header_def)
  have h: "healthy (rs_socket ?w)" "sent ?w = sent r @ header_block ?h"
    using assms(1) sock.good_put sock.out_put by (simp_all add: writeHeaders_def with_header_def unframed_def sent_def)
  have hd: "rs_headers ?w = qm_insert ''Content-Length'' (int_text 10 (int (length d))) (rs_headers r)"
    by (simp add: writeHeaders_def with_header_def)
  have c: "\<not> is_chunked ?w" "qm_contains (rs_headers ?w) ''Content-Length''"
    using assms(1) unfolding is_chunked_def header_is_def hd
    by (simp_all add: unframed_def qm_value_def qm_contains_def qm_get_insert)
  have e: "write_part r d True = send_all [d] ?w\<lparr>rs_sentLastPart := True\<rparr>"
    using assms(1) c send_all_sink(3) [OF h(1), of "[d]"] by (simp add: write_part_def unframed_def f Let_def)
  show "healthy (rs_socket (write_part r d True))" using send_all_sink(2) [OF h(1), of "[d]"] by (simp add: e)
  show "\<not> is_chunked (write_part r d True)"
    using c(1) send_all_sink(3) [OF h(1), of "[d]"] by (simp add: e is_chunked_def header_is_def)
  have "header_block (write_part r d True) = header_block ?h"
    by (simp add: e header_block_def send_all_def writeHeaders_def with_header_def)
  then show "sent (write_part r d True) = sent r @ header_block (write_part r d True) @ d"
    using h(2) send_all_sink(1) [OF h(1), of "[d]"] by (simp add: e sent_def)
  have "qm_value [] (rs_headers (write_part r d True)) ''Content-Length'' = int_text 10 (int (length d))"
    using send_all_sink(3) [OF h(1), of "[d]"] by (simp add: e hd qm_value_def qm_get_insert)
  then show "bytes_toInt 10 (qm_value [] (rs_headers (write_part r d True)) ''Content-Length'') = Some (int (length d))"
    using toInt_text [of "int (length d)"] assms(2) by (simp add: in_i32_def)
  show "rs_sentLastPart (write_part r d True)" by (simp add: e)
qed

text \<open>
  A response written at once carries its length: on a healthy connection the client gets
  the header block, whose \<open>Content-Length\<close> is the number of bytes that follow it.
\<close>

theorem single_response:
  assumes "unframed r" "int (length d) < 2 ^ 31"
  shows "sent (write_part r d True) = sent r @ header_block (write_part r d True) @ d \<and>
    bytes_toInt 10 (qm_value [] (rs_headers (write_part r d True)) ''Content-Length'') = Some (int (length d)) \<and>
    rs_sentLastPart (write_part r d True)"
  using single_part [OF assms] by simp

theorem single_response_witness:
  "sent (write_part (new_response good_socket) ''hello'' True) =
    header_block (write_part (new_response good_socket) ''hello'' True) @ ''hello''"
  using single_response [OF fresh_unframed, of "''hello''"] by (simp add: sent_def new_response_def good_socket_def)

end
