(* ===== verification/Http_Session.thy ===== *)
theory Http_Session
  imports Json Http_Request Http_Response "HOL-Library.Multiset" "HOL-Library.Signed_Division"
begin

text \<open>
  The session handles of \<open>http/httpsession.cpp\<close> and their store, \<open>http/httpsessionstore.cpp\<close>. A
  handle points to shared data on the heap, or is null; the data counts its handles and is
  deleted by the last one. An access through a pointer to deleted data is the outcome \<open>Fault\<close>.
  The locks make each operation one step; the clock, the ids and the addresses of new data are
  arguments.
\<close>

section \<open>Handles\<close>

record 'd session_data =
  sd_refCount :: int
  sd_lastAccess :: int
  sd_id :: bytes
  sd_values :: "(bytes \<times> 'd qvariant) list"

type_synonym handle = "nat option"
type_synonym 'd heap = "nat \<Rightarrow> 'd session_data option"

definition with_data :: "handle \<Rightarrow> ('d session_data \<Rightarrow> 'd session_data) \<Rightarrow> 'd heap \<Rightarrow> 'd heap run" where
  "with_data p f h =
     (case p of None \<Rightarrow> Done h
      | Some a \<Rightarrow> (case h a of None \<Rightarrow> Fault | Some d \<Rightarrow> Done (h(a \<mapsto> f d))))"

definition read_data :: "handle \<Rightarrow> 'a \<Rightarrow> ('d session_data \<Rightarrow> 'a) \<Rightarrow> 'd heap \<Rightarrow> 'a run" where
  "read_data p dflt f h =
     (case p of None \<Rightarrow> Done dflt
      | Some a \<Rightarrow> (case h a of None \<Rightarrow> Fault | Some d \<Rightarrow> Done (f d)))"

definition new_session :: "bool \<Rightarrow> nat \<Rightarrow> bytes \<Rightarrow> int \<Rightarrow> 'd heap \<Rightarrow> 'd heap \<times> handle" where
  "new_session canStore a uuid now h =
     (if canStore
      then (h(a \<mapsto> \<lparr>sd_refCount = 1, sd_lastAccess = now, sd_id = uuid, sd_values = []\<rparr>), Some a)
      else (h, None))"

definition copy_session :: "handle \<Rightarrow> 'd heap \<Rightarrow> 'd heap run" where
  "copy_session p h = with_data p (\<lambda>d. d\<lparr>sd_refCount := sd_refCount d + 1\<rparr>) h"

text \<open>\<open>operator=\<close>: the old data loses a handle; its count is compared before the decrement.\<close>

definition assign_session :: "handle \<Rightarrow> handle \<Rightarrow> int \<Rightarrow> 'd heap \<Rightarrow> 'd heap run" where
  "assign_session oldPtr other now h =
     rbind (with_data other (\<lambda>d. d\<lparr>sd_refCount := sd_refCount d + 1, sd_lastAccess := now\<rparr>) h)
       (\<lambda>h. case oldPtr of None \<Rightarrow> Done h
          | Some a \<Rightarrow> (case h a of None \<Rightarrow> Fault
              | Some d \<Rightarrow>
                  (let refCount = sd_refCount d; h' = h(a \<mapsto> d\<lparr>sd_refCount := refCount - 1\<rparr>)
                   in Done (if refCount = 0 then h'(a := None) else h'))))"

definition destroy_session :: "handle \<Rightarrow> 'd heap \<Rightarrow> 'd heap run" where
  "destroy_session p h =
     (case p of None \<Rightarrow> Done h
      | Some a \<Rightarrow> (case h a of None \<Rightarrow> Fault
          | Some d \<Rightarrow>
              (let refCount = sd_refCount d - 1
               in Done (if refCount = 0 then h(a := None) else h(a \<mapsto> d\<lparr>sd_refCount := refCount\<rparr>)))))"

definition getId :: "handle \<Rightarrow> 'd heap \<Rightarrow> bytes run" where
  "getId p h = read_data p [] sd_id h"

definition session_set :: "handle \<Rightarrow> bytes \<Rightarrow> 'd qvariant \<Rightarrow> 'd heap \<Rightarrow> 'd heap run" where
  "session_set p k v h = with_data p (\<lambda>d. d\<lparr>sd_values := qm_insert k v (sd_values d)\<rparr>) h"

definition session_remove :: "handle \<Rightarrow> bytes \<Rightarrow> 'd heap \<Rightarrow> 'd heap run" where
  "session_remove p k h = with_data p (\<lambda>d. d\<lparr>sd_values := qm_remove k (sd_values d)\<rparr>) h"

definition session_get :: "handle \<Rightarrow> bytes \<Rightarrow> 'd heap \<Rightarrow> 'd qvariant run" where
  "session_get p k h = read_data p QInvalid (\<lambda>d. qm_value QInvalid (sd_values d) k) h"

definition session_contains :: "handle \<Rightarrow> bytes \<Rightarrow> 'd heap \<Rightarrow> bool run" where
  "session_contains p k h = read_data p False (\<lambda>d. qm_contains (sd_values d) k) h"

definition session_getAll :: "handle \<Rightarrow> 'd heap \<Rightarrow> (bytes \<times> 'd qvariant) list run" where
  "session_getAll p h = read_data p [] sd_values h"

definition getLastAccess :: "handle \<Rightarrow> 'd heap \<Rightarrow> int run" where
  "getLastAccess p h = read_data p 0 sd_lastAccess h"

definition setLastAccess :: "handle \<Rightarrow> int \<Rightarrow> 'd heap \<Rightarrow> 'd heap run" where
  "setLastAccess p now h = with_data p (\<lambda>d. d\<lparr>sd_lastAccess := now\<rparr>) h"

section \<open>The contract of the handles\<close>

text \<open>
  What code that works with handles relies on: with an account of all live handles, copying and
  destroying one of them succeeds and keeps the account.
\<close>

locale handle_count =
  fixes dup :: "'p \<Rightarrow> 'h \<Rightarrow> 'h run"
    and release :: "'p \<Rightarrow> 'h \<Rightarrow> 'h run"
    and account :: "'h \<Rightarrow> 'p multiset \<Rightarrow> bool"
  assumes dup_ok: "account h L \<Longrightarrow> p \<in># L \<Longrightarrow> \<exists>h'. dup p h = Done h' \<and> account h' (add_mset p L)"
    and release_ok: "account h (add_mset p L) \<Longrightarrow> \<exists>h'. release p h = Done h' \<and> account h' L"
begin

text \<open>A temporary copy leaves the account as it was.\<close>

lemma dup_release:
  assumes "account h L" "p \<in># L"
  obtains h1 h2 where "dup p h = Done h1" "account h1 (add_mset p L)" "release p h1 = Done h2" "account h2 L"
  using dup_ok [OF assms] release_ok by blast

fun release_all :: "'p list \<Rightarrow> 'h \<Rightarrow> 'h run" where
  "release_all [] h = Done h"
| "release_all (p # ps) h = rbind (release p h) (release_all ps)"

lemma release_all_ok: "account h (mset ps + L) \<Longrightarrow> \<exists>h'. release_all ps h = Done h' \<and> account h' L"
proof (induction ps arbitrary: h)
  case (Cons p ps)
  then obtain h1 where "release p h = Done h1" "account h1 (mset ps + L)"
    using release_ok [of h p "mset ps + L"] by auto
  then show ?case using Cons.IH by auto
qed simp

end

text \<open>The exact account: data exists as long as it has a handle, and counts its handles.\<close>

definition cell_exact :: "'d session_data option \<Rightarrow> nat \<Rightarrow> bool" where
  "cell_exact x n = (case x of None \<Rightarrow> n = 0 | Some d \<Rightarrow> n \<noteq> 0 \<and> sd_refCount d = int n)"

lemma cell_exact_simps [simp]:
  "cell_exact None n = (n = 0)" "cell_exact (Some d) n = (n \<noteq> 0 \<and> sd_refCount d = int n)"
  by (simp_all add: cell_exact_def)

definition heap_exact :: "'d heap \<Rightarrow> handle multiset \<Rightarrow> bool" where
  "heap_exact h L \<longleftrightarrow> (\<forall>a. cell_exact (h a) (count L (Some a)))"

lemma heap_exact_cell: "heap_exact h L \<Longrightarrow> cell_exact (h a) (count L (Some a))"
  by (simp add: heap_exact_def)

lemma heap_exactD:
  assumes "heap_exact h L" "Some a \<in># L"
  obtains d where "h a = Some d" "sd_refCount d = int (count L (Some a))" "count L (Some a) \<noteq> 0"
proof (cases "h a")
  case None
  then have "count L (Some a) = 0" using heap_exact_cell [OF assms(1), of a] by simp
  then show ?thesis using assms(2) unfolding count_eq_zero_iff by contradiction
next
  case (Some d)
  then show ?thesis using heap_exact_cell [OF assms(1), of a] that by simp
qed

lemma heap_exact_upd:
  assumes "heap_exact h L" "\<And>b. b \<noteq> a \<Longrightarrow> count L' (Some b) = count L (Some b)"
    "cell_exact x (count L' (Some a))"
  shows "heap_exact (h(a := x)) L'"
  using assms by (simp add: heap_exact_def)

lemma heap_exact_null: "heap_exact h (add_mset None L) = heap_exact h L"
  by (simp add: heap_exact_def)

lemma copy_exact:
  assumes "heap_exact h L" "p \<in># L"
  shows "\<exists>h'. copy_session p h = Done h' \<and> heap_exact h' (add_mset p L)"
proof (cases p)
  case (Some a)
  then have "Some a \<in># L" using assms(2) by simp
  then obtain d where d: "h a = Some d" "sd_refCount d = int (count L (Some a))" "count L (Some a) \<noteq> 0"
    by (rule heap_exactD [OF assms(1)])
  have "heap_exact (h(a := Some (d\<lparr>sd_refCount := sd_refCount d + 1\<rparr>))) (add_mset p L)"
    by (rule heap_exact_upd [OF assms(1)]) (simp_all add: Some d)
  then show ?thesis by (simp add: Some d copy_session_def with_data_def)
qed (use assms in \<open>simp add: copy_session_def with_data_def heap_exact_null\<close>)

lemma destroy_exact:
  assumes "heap_exact h (add_mset p L)"
  shows "\<exists>h'. destroy_session p h = Done h' \<and> heap_exact h' L"
proof (cases p)
  case (Some a)
  then have "Some a \<in># add_mset p L" by simp
  then obtain d where "h a = Some d" "sd_refCount d = int (count (add_mset p L) (Some a))"
    by (rule heap_exactD [OF assms])
  then have d: "h a = Some d" "sd_refCount d = int (count L (Some a)) + 1" by (simp_all add: Some)
  show ?thesis
  proof (cases "count L (Some a) = 0")
    case True
    have "heap_exact (h(a := None)) L"
      by (rule heap_exact_upd [OF assms]) (simp_all add: Some True)
    then show ?thesis using True by (simp add: Some d destroy_session_def Let_def)
  next
    case False
    have "heap_exact (h(a := Some (d\<lparr>sd_refCount := sd_refCount d - 1\<rparr>))) L"
      by (rule heap_exact_upd [OF assms]) (simp_all add: Some d False)
    moreover have "sd_refCount d - 1 \<noteq> 0" using d(2) False by linarith
    ultimately show ?thesis by (simp add: Some d(1) destroy_session_def Let_def)
  qed
qed (use assms in \<open>simp add: destroy_session_def heap_exact_null\<close>)

interpretation session: handle_count copy_session destroy_session heap_exact
  by unfold_locales (use copy_exact destroy_exact in blast)+

lemma new_exact:
  assumes "heap_exact h L" "h a = None"
  shows "heap_exact (h(a \<mapsto> \<lparr>sd_refCount = 1, sd_lastAccess = now, sd_id = i, sd_values = []\<rparr>)) (add_mset (Some a) L)"
proof -
  have "count L (Some a) = 0" using heap_exact_cell [OF assms(1), of a] assms(2) by simp
  then show ?thesis by (intro heap_exact_upd [OF assms(1)]) simp_all
qed

text \<open>Operations on the data itself keep the account.\<close>

lemma with_data_exact:
  assumes "heap_exact h L" "p \<in># L" "\<And>d. sd_refCount (f d) = sd_refCount d"
  shows "\<exists>h'. with_data p f h = Done h' \<and> heap_exact h' L"
proof (cases p)
  case (Some a)
  then have "Some a \<in># L" using assms(2) by simp
  then obtain d where d: "h a = Some d" "sd_refCount d = int (count L (Some a))" "count L (Some a) \<noteq> 0"
    by (rule heap_exactD [OF assms(1)])
  have "heap_exact (h(a := Some (f d))) L"
    by (rule heap_exact_upd [OF assms(1)]) (simp_all add: d assms(3))
  then show ?thesis by (simp add: Some d with_data_def)
qed (use assms in \<open>simp add: with_data_def\<close>)

lemma read_data_exact: "heap_exact h L \<Longrightarrow> p \<in># L \<Longrightarrow> \<exists>x. read_data p y f h = Done x"
  by (cases p) (auto simp: read_data_def elim: heap_exactD)

text \<open>
  Assigning a session leaks the data it had: when the handle assigned to was the only one,
  the data stays allocated with a count of 0 and no handle, because \<open>operator=\<close> compares the
  count before its decrement.
\<close>

theorem assign_leaks:
  assumes "heap_exact h (add_mset (Some a) (add_mset (Some b) L))" "a \<noteq> b" "count L (Some a) = 0"
  shows "\<exists>h' d. assign_session (Some a) (Some b) now h = Done h' \<and> h' a = Some d \<and> sd_refCount d = 0 \<and>
    count (add_mset (Some b) (add_mset (Some b) L)) (Some a) = 0"
proof -
  have "Some a \<in># add_mset (Some a) (add_mset (Some b) L)" "Some b \<in># add_mset (Some a) (add_mset (Some b) L)"
    by simp_all
  then obtain d e where d: "h a = Some d" "sd_refCount d = int (count (add_mset (Some a) (add_mset (Some b) L)) (Some a))"
    and e: "h b = Some e"
    using heap_exactD [OF assms(1)] by metis
  then have "sd_refCount d = 1" using assms(2,3) by simp
  then show ?thesis using d(1) e assms(2,3) by (simp add: assign_session_def with_data_def Let_def)
qed

theorem assign_leaks_witness:
  "\<exists>h' d. assign_session (Some 0) (Some 1) 9
      ((\<lambda>_. None)(0 \<mapsto> \<lparr>sd_refCount = 1, sd_lastAccess = 5, sd_id = ''x'', sd_values = []\<rparr>,
        1 \<mapsto> \<lparr>sd_refCount = 1, sd_lastAccess = 5, sd_id = ''y'', sd_values = []\<rparr>) :: nat heap) = Done h' \<and>
    h' 0 = Some d \<and> sd_refCount d = 0"
proof -
  have "heap_exact ((\<lambda>_. None)(0 \<mapsto> \<lparr>sd_refCount = 1, sd_lastAccess = 5, sd_id = ''x'', sd_values = []\<rparr>,
        1 \<mapsto> \<lparr>sd_refCount = 1, sd_lastAccess = 5, sd_id = ''y'', sd_values = []\<rparr>) :: nat heap)
      (add_mset (Some 0) (add_mset (Some 1) {#}))"
    by (simp add: heap_exact_def)
  from assign_leaks [OF this, of 9] show ?thesis by (simp only: zero_neq_one count_empty) simp
qed

end
