(* ===== verification/Http_Session_Store.thy ===== *)
theory Http_Session_Store
  imports Http_Session
begin

text \<open>
  The store of sessions, \<open>http/httpsessionstore.cpp\<close>: looking a session up by the cookie of a
  request, creating one, the timer that removes expired ones. Its mutex makes each operation
  one step. The handles in its map and those given to controllers are all accounted for.
\<close>

section \<open>The store\<close>

record session_store =
  ss_sessions :: "(bytes \<times> handle) list"
  ss_cookieName :: bytes
  ss_expirationTime :: int

text \<open>The settings read anew for each cookie.\<close>

record cookie_settings =
  cs_cookieName :: bytes
  cs_cookiePath :: bytes
  cs_cookieComment :: bytes
  cs_cookieDomain :: bytes

definition new_store :: "bytes \<Rightarrow> int \<Rightarrow> session_store" where
  "new_store cookieName expirationTime =
     \<lparr>ss_sessions = [], ss_cookieName = cookieName, ss_expirationTime = expirationTime\<rparr>"

definition getSessionId :: "session_store \<Rightarrow> HttpRequest \<Rightarrow> HttpResponse \<Rightarrow> bytes" where
  "getSessionId st request response =
     (let sessionId = ck_value (qm_value empty_cookie (rs_cookies response) (ss_cookieName st));
          sessionId = (if sessionId = [] then getCookie request (ss_cookieName st) else sessionId)
      in if sessionId \<noteq> [] \<and> \<not> qm_contains (ss_sessions st) sessionId then [] else sessionId)"

text \<open>\<open>sessions.insert\<close>: a new key copies the handle, a known one assigns to the handle there.\<close>

definition insert_session :: "bytes \<Rightarrow> handle \<Rightarrow> int \<Rightarrow> session_store \<Rightarrow> 'd heap \<Rightarrow> (session_store \<times> 'd heap) run" where
  "insert_session k s now st h =
     rbind (case qm_get (ss_sessions st) k of
              None \<Rightarrow> copy_session s h
            | Some old \<Rightarrow> assign_session old s now h)
       (\<lambda>h. Done (st\<lparr>ss_sessions := qm_insert k s (ss_sessions st)\<rparr>, h))"

definition session_cookie :: "cookie_settings \<Rightarrow> session_store \<Rightarrow> bytes \<Rightarrow> HttpCookie" where
  "session_cookie cfg st k =
     make_cookie (cs_cookieName cfg) k (ss_expirationTime st sdiv 1000) (cs_cookiePath cfg)
       (cs_cookieComment cfg) (cs_cookieDomain cfg) False"

definition find_session :: "session_store \<Rightarrow> bytes \<Rightarrow> 'd heap \<Rightarrow> (handle \<times> 'd heap) run" where
  "find_session st k h =
     (let p = qm_value None (ss_sessions st) k in rbind (copy_session p h) (\<lambda>h. Done (p, h)))"

definition getSession :: "cookie_settings \<Rightarrow> nat \<Rightarrow> bytes \<Rightarrow> int \<Rightarrow> HttpRequest \<Rightarrow> HttpResponse \<Rightarrow> bool
    \<Rightarrow> session_store \<Rightarrow> 'd heap \<Rightarrow> (session_store \<times> 'd heap \<times> HttpResponse \<times> handle) run" where
  "getSession cfg a uuid now request response allowCreate st h =
     (let sessionId = getSessionId st request response in
      rbind (if sessionId \<noteq> [] then find_session st sessionId h else Done (None, h))
        (\<lambda>(session, h).
           if session \<noteq> None then rbind (setLastAccess session now h) (\<lambda>h. Done (st, h, response, session))
           else if allowCreate then
             (let (h, session) = new_session True a uuid now h in
              rbind (getId session h) (\<lambda>k.
                rbind (insert_session k session now st h) (\<lambda>(st, h).
                  Done (st, h, setCookie (session_cookie cfg st k) response, session))))
           else Done (st, h, response, None)))"

definition getSession_by_id :: "bytes \<Rightarrow> int \<Rightarrow> session_store \<Rightarrow> 'd heap \<Rightarrow> (handle \<times> 'd heap) run" where
  "getSession_by_id k now st h =
     rbind (find_session st k h) (\<lambda>(session, h).
       rbind (setLastAccess session now h) (\<lambda>h. Done (session, h)))"

fun timer_loop :: "int \<Rightarrow> int \<Rightarrow> (bytes \<times> handle) list \<Rightarrow> 'd heap \<Rightarrow> ((bytes \<times> handle) list \<times> 'd heap) run" where
  "timer_loop now expirationTime [] h = Done ([], h)"
| "timer_loop now expirationTime ((k, p) # m) h =
     rbind (copy_session p h) (\<lambda>h.
       rbind (getLastAccess p h) (\<lambda>lastAccess.
         let expired = expirationTime < now - lastAccess in
         rbind (if expired then destroy_session p h else Done h) (\<lambda>h.
           rbind (destroy_session p h) (\<lambda>h.
             rbind (timer_loop now expirationTime m h) (\<lambda>(m', h).
               Done (if expired then m' else (k, p) # m', h))))))"

definition timerEvent :: "int \<Rightarrow> session_store \<Rightarrow> 'd heap \<Rightarrow> (session_store \<times> 'd heap) run" where
  "timerEvent now st h =
     rbind (timer_loop now (ss_expirationTime st) (ss_sessions st) h)
       (\<lambda>(m, h). Done (st\<lparr>ss_sessions := m\<rparr>, h))"

definition removeSession :: "handle \<Rightarrow> session_store \<Rightarrow> 'd heap \<Rightarrow> (session_store \<times> 'd heap) run" where
  "removeSession s st h =
     rbind (getId s h) (\<lambda>k.
       case qm_get (ss_sessions st) k of
         None \<Rightarrow> Done (st, h)
       | Some p \<Rightarrow> rbind (destroy_session p h) (\<lambda>h. Done (st\<lparr>ss_sessions := qm_remove k (ss_sessions st)\<rparr>, h)))"

section \<open>What the operations keep of the data\<close>

text \<open>Later data is earlier data, but for its count.\<close>

definition same_data :: "'d heap \<Rightarrow> 'd heap \<Rightarrow> bool" where
  "same_data h h' \<longleftrightarrow> (\<forall>a d'. h' a = Some d' \<longrightarrow>
     (\<exists>d. h a = Some d \<and> sd_id d' = sd_id d \<and> sd_lastAccess d' = sd_lastAccess d \<and> sd_values d' = sd_values d))"

lemma same_data_refl: "same_data h h"
  by (simp add: same_data_def)

lemma same_data_trans: "same_data a b \<Longrightarrow> same_data b c \<Longrightarrow> same_data a c"
  unfolding same_data_def by metis

lemma copy_same: "copy_session p h = Done h' \<Longrightarrow> same_data h h'"
  by (auto simp: copy_session_def with_data_def same_data_def split: option.splits if_splits)

lemma destroy_same: "destroy_session p h = Done h' \<Longrightarrow> same_data h h'"
  by (auto simp: destroy_session_def same_data_def Let_def split: option.splits if_splits)

definition access_of :: "'d heap \<Rightarrow> handle \<Rightarrow> int" where
  "access_of h p = (case p of None \<Rightarrow> 0 | Some a \<Rightarrow> (case h a of None \<Rightarrow> 0 | Some d \<Rightarrow> sd_lastAccess d))"

definition id_of :: "'d heap \<Rightarrow> handle \<Rightarrow> bytes option" where
  "id_of h p = (case p of None \<Rightarrow> None | Some a \<Rightarrow> map_option sd_id (h a))"

lemma same_data_live:
  assumes "heap_exact h' L" "p \<in># L" "same_data h h'"
  shows "access_of h' p = access_of h p" "id_of h' p = id_of h p"
proof -
  have "access_of h' p = access_of h p \<and> id_of h' p = id_of h p"
  proof (cases p)
    case (Some a)
    then have "Some a \<in># L" using assms(2) by simp
    then obtain d where "h' a = Some d" by (rule heap_exactD [OF assms(1)])
    then show ?thesis using assms(3) unfolding same_data_def by (fastforce simp: Some access_of_def id_of_def)
  qed (simp add: access_of_def id_of_def)
  then show "access_of h' p = access_of h p" "id_of h' p = id_of h p" by simp_all
qed

lemma getLastAccess_live:
  "heap_exact h L \<Longrightarrow> p \<in># L \<Longrightarrow> getLastAccess p h = Done (access_of h p)"
  by (cases p) (auto simp: getLastAccess_def read_data_def access_of_def elim: heap_exactD)

section \<open>The timer\<close>

definition fresh_session :: "int \<Rightarrow> int \<Rightarrow> 'd heap \<Rightarrow> bytes \<times> handle \<Rightarrow> bool" where
  "fresh_session now expirationTime h kp \<longleftrightarrow> now - access_of h (snd kp) \<le> expirationTime"

definition handles :: "(bytes \<times> handle) list \<Rightarrow> handle multiset" where
  "handles m = mset (map snd m)"

lemma handles_simps [simp]: "handles [] = {#}" "handles (kp # m) = add_mset (snd kp) (handles m)"
  by (simp_all add: handles_def)

lemma timer_loop_ok:
  "heap_exact h (handles m + L) \<Longrightarrow>
    \<exists>h'. timer_loop now e m h = Done (filter (fresh_session now e h) m, h') \<and>
      heap_exact h' (handles (filter (fresh_session now e h) m) + L) \<and> same_data h h'"
proof (induction m arbitrary: h L)
  case Nil
  then show ?case by (simp add: same_data_refl)
next
  case (Cons kp m)
  obtain k p where kp: "kp = (k, p)" by (cases kp)
  have acc: "heap_exact h (add_mset p (handles m + L))" using Cons.prems by (simp add: kp)
  then obtain h1 where h1: "copy_session p h = Done h1" "heap_exact h1 (add_mset p (add_mset p (handles m + L)))"
    using session.dup_ok [OF acc, of p] by auto
  have s1: "same_data h h1" by (rule copy_same [OF h1(1)])
  have la: "getLastAccess p h1 = Done (access_of h p)"
    using getLastAccess_live [OF h1(2), of p] same_data_live(1) [OF h1(2) _ s1, of p] by simp
  let ?ex = "e < now - access_of h p"
  obtain h2 where h2: "(if ?ex then destroy_session p h1 else Done h1) = Done h2" "same_data h1 h2"
    "heap_exact h2 (add_mset p ((if ?ex then {#} else {#p#}) + (handles m + L)))"
    using session.release_ok [OF h1(2)] h1(2) destroy_same same_data_refl by (cases ?ex) auto
  obtain h3 where h3: "destroy_session p h2 = Done h3"
    "heap_exact h3 ((if ?ex then {#} else {#p#}) + (handles m + L))"
    using session.release_ok [OF h2(3)] by auto
  have s3: "same_data h h3" using s1 h2(2) destroy_same [OF h3(1)] same_data_trans by blast
  have "fresh_session now e h3 x = fresh_session now e h x" if "x \<in> set m" for x
    using same_data_live(1) [OF h3(2) _ s3, of "snd x"] that by (auto simp: fresh_session_def handles_def)
  then have f: "filter (fresh_session now e h3) m = filter (fresh_session now e h) m"
    by (intro filter_cong) simp_all
  obtain h4 where h4: "timer_loop now e m h3 = Done (filter (fresh_session now e h) m, h4)" "same_data h3 h4"
    "heap_exact h4 (handles (filter (fresh_session now e h) m) + ((if ?ex then {#} else {#p#}) + L))"
    using Cons.IH [of h3 "(if ?ex then {#} else {#p#}) + L"] h3(2) unfolding f by (auto simp: ac_simps)
  have "timer_loop now e (kp # m) h =
      Done (if ?ex then filter (fresh_session now e h) m else kp # filter (fresh_session now e h) m, h4)"
    using h1(1) la h2(1) h3(1) h4(1) by (simp add: kp Let_def)
  moreover have "fresh_session now e h kp = (\<not> ?ex)" by (simp add: fresh_session_def kp not_less)
  ultimately show ?case
    using h4(3) same_data_trans [OF s3 h4(2)]
    by (cases ?ex) (simp_all add: kp ac_simps)
qed

section \<open>Every operation keeps the account\<close>

text \<open>
  The invariant of the store: the heap counts exactly the handles of the map and those given
  out (\<open>L\<close>), and every session is stored under its id.
\<close>

definition store_ok :: "session_store \<Rightarrow> 'd heap \<Rightarrow> handle multiset \<Rightarrow> bool" where
  "store_ok st h L \<longleftrightarrow> heap_exact h (handles (ss_sessions st) + L) \<and> qm_ok (ss_sessions st) \<and>
     (\<forall>(k, p) \<in> set (ss_sessions st). id_of h p = Some k)"

lemma store_ok_live: "(k, p) \<in> set m \<Longrightarrow> p \<in># handles m + L"
  by (force simp: handles_def)

lemma ids_kept:
  assumes "\<forall>(k, p) \<in> set m. id_of h p = Some k" "heap_exact h' (handles m + L)" "same_data h h'"
  shows "\<forall>(k, p) \<in> set m. id_of h' p = Some k"
  using assms(1) same_data_live(2) [OF assms(2) store_ok_live assms(3)] by fastforce

lemma handles_filter: "set m' \<subseteq> set m \<Longrightarrow> \<forall>(k, p) \<in> set m. P k p \<Longrightarrow> \<forall>(k, p) \<in> set m'. P k p"
  by blast

lemma timerEvent_ok:
  assumes "store_ok st h L"
  shows "\<exists>h'. timerEvent now st h =
      Done (st\<lparr>ss_sessions := filter (fresh_session now (ss_expirationTime st) h) (ss_sessions st)\<rparr>, h') \<and>
    store_ok (st\<lparr>ss_sessions := filter (fresh_session now (ss_expirationTime st) h) (ss_sessions st)\<rparr>) h' L"
proof -
  let ?m = "filter (fresh_session now (ss_expirationTime st) h) (ss_sessions st)"
  obtain h' where h': "timer_loop now (ss_expirationTime st) (ss_sessions st) h = Done (?m, h')"
    "heap_exact h' (handles ?m + L)" "same_data h h'"
    using timer_loop_ok assms unfolding store_ok_def by blast
  have "\<forall>(k, p) \<in> set ?m. id_of h p = Some k" using assms by (auto simp: store_ok_def)
  from ids_kept [OF this h'(2,3)] show ?thesis
    using h' assms by (simp add: timerEvent_def store_ok_def qm_ok_filter)
qed

lemma with_data_same_id:
  assumes "with_data p f h = Done h'" "\<And>d. sd_id (f d) = sd_id d"
  shows "id_of h' q = id_of h q"
  using assms by (auto simp: with_data_def id_of_def split: option.splits)

lemma data_step_ok:
  assumes "store_ok st h L" "p \<in># handles (ss_sessions st) + L"
    "\<And>d. sd_refCount (f d) = sd_refCount d" "\<And>d. sd_id (f d) = sd_id d"
  shows "\<exists>h'. with_data p f h = Done h' \<and> store_ok st h' L"
proof -
  obtain h' where h': "with_data p f h = Done h'" "heap_exact h' (handles (ss_sessions st) + L)"
    using with_data_exact [OF _ assms(2,3)] assms(1) by (auto simp: store_ok_def)
  then show ?thesis
    using assms(1) with_data_same_id [OF h'(1) assms(4)] by (simp add: store_ok_def)
qed

lemma copy_ok:
  assumes "store_ok st h L" "p \<in># handles (ss_sessions st) + L"
  shows "\<exists>h'. copy_session p h = Done h' \<and> store_ok st h' (add_mset p L)"
proof -
  obtain h' where h': "copy_session p h = Done h'" "heap_exact h' (handles (ss_sessions st) + add_mset p L)"
    using copy_exact [OF _ assms(2)] assms(1) by (auto simp: store_ok_def)
  then show ?thesis
    using assms(1) ids_kept [OF _ h'(2) copy_same [OF h'(1)]] by (simp add: store_ok_def)
qed

lemma drop_ok:
  assumes "store_ok st h (add_mset p L)"
  shows "\<exists>h'. destroy_session p h = Done h' \<and> store_ok st h' L"
proof -
  obtain h' where h': "destroy_session p h = Done h'" "heap_exact h' (handles (ss_sessions st) + L)"
    using destroy_exact [of h p "handles (ss_sessions st) + L"] assms by (auto simp: store_ok_def)
  then show ?thesis
    using assms ids_kept [OF _ h'(2) destroy_same [OF h'(1)]] by (simp add: store_ok_def)
qed

lemma null_ok: "store_ok st h L \<Longrightarrow> store_ok st h (add_mset None L)"
  by (simp add: store_ok_def heap_exact_null)

lemma handles_qm_value: "qm_value None m k \<noteq> None \<Longrightarrow> qm_value None m k \<in># handles m"
  by (force simp: qm_value_def handles_def dest: map_of_SomeD split: option.splits)

lemma find_session_ok:
  assumes "store_ok st h L"
  shows "\<exists>h'. find_session st k h = Done (qm_value None (ss_sessions st) k, h') \<and>
    store_ok st h' (add_mset (qm_value None (ss_sessions st) k) L)"
proof (cases "qm_value None (ss_sessions st) k")
  case None
  then show ?thesis using assms by (simp add: find_session_def copy_session_def with_data_def null_ok)
next
  case (Some a)
  then have "qm_value None (ss_sessions st) k \<in># handles (ss_sessions st) + L"
    using handles_qm_value [of "ss_sessions st" k] by simp
  from copy_ok [OF assms this] show ?thesis by (auto simp: find_session_def)
qed

lemma handles_insert:
  "k \<notin> fst ` set m \<Longrightarrow> handles (qm_insert k p m) = add_mset p (handles m)"
  by (induction k p m rule: qm_insert.induct) (auto simp: handles_def)

lemma set_insert: "k \<notin> fst ` set m \<Longrightarrow> set (qm_insert k p m) = insert (k, p) (set m)"
  by (induction k p m rule: qm_insert.induct) auto

lemma handles_remove:
  "qm_ok m \<Longrightarrow> qm_get m k = Some p \<Longrightarrow> handles m = add_mset p (handles (qm_remove k m))"
proof (induction m)
  case (Cons kp m)
  obtain k' p' where kp: "kp = (k', p')" by (cases kp)
  show ?case
  proof (cases "k' = k")
    case True
    then have "\<forall>x \<in> set m. fst x \<noteq> k" using Cons.prems(1) by (auto simp: qm_ok_Cons kp)
    then have "qm_remove k m = m" by (simp add: qm_remove_def filter_id_conv)
    then show ?thesis using Cons.prems True by (simp add: kp qm_remove_def)
  next
    case False
    then show ?thesis using Cons by (simp add: kp qm_ok_Cons qm_remove_def)
  qed
qed simp

lemma new_session_ok:
  assumes "store_ok st h L" "h a = None" "\<not> qm_contains (ss_sessions st) uuid"
    and new: "new_session True a uuid now h = (h1, s)"
  shows "\<exists>h2. insert_session uuid s now st h1 = Done (st\<lparr>ss_sessions := qm_insert uuid s (ss_sessions st)\<rparr>, h2) \<and>
    getId s h1 = Done uuid \<and> store_ok (st\<lparr>ss_sessions := qm_insert uuid s (ss_sessions st)\<rparr>) h2 (add_mset s L)"
proof -
  let ?m = "ss_sessions st"
  have s: "s = Some a" "h1 = h(a \<mapsto> \<lparr>sd_refCount = 1, sd_lastAccess = now, sd_id = uuid, sd_values = []\<rparr>)"
    using new by (simp_all add: new_session_def)
  have ex: "heap_exact h1 (add_mset s (handles ?m + L))"
    using new_exact [of h "handles ?m + L" a] assms(1,2) by (simp add: s store_ok_def)
  have key: "uuid \<notin> fst ` set ?m" "qm_get ?m uuid = None"
    using assms(3) by (auto simp: qm_contains_def map_of_eq_None_iff)
  obtain h2 where h2: "copy_session s h1 = Done h2" "heap_exact h2 (add_mset s (add_mset s (handles ?m + L)))"
    using copy_exact [OF ex, of s] by auto
  have ids: "\<forall>(k, p) \<in> set (qm_insert uuid s ?m). id_of h1 p = Some k"
  proof -
    have "id_of h1 p = id_of h p" if "(k, p) \<in> set ?m" for k p
    proof (cases p)
      case (Some b)
      have "Some b \<in># handles ?m + L" using store_ok_live [OF that] Some by metis
      then obtain d where "h b = Some d" using heap_exactD assms(1) unfolding store_ok_def by metis
      then show ?thesis using assms(2) by (auto simp: id_of_def Some s)
    qed (simp add: id_of_def)
    then show ?thesis using assms(1) unfolding set_insert [OF key(1)] by (auto simp: store_ok_def s id_of_def)
  qed
  have "heap_exact h2 (handles (qm_insert uuid s ?m) + add_mset s L)"
    using h2(2) by (simp add: handles_insert [OF key(1)])
  from ids_kept [OF ids this copy_same [OF h2(1)]] this show ?thesis
    using assms(1) h2(1) key(2)
    by (simp add: insert_session_def store_ok_def qm_ok_insert getId_def read_data_def s(1)) (simp add: s)
qed

lemma getSession_ok:
  assumes "store_ok st h L" "h a = None" "\<not> qm_contains (ss_sessions st) uuid"
  shows "\<exists>st' h' resp' p. getSession cfg a uuid now req resp allow st h = Done (st', h', resp', p) \<and>
    store_ok st' h' (add_mset p L)"
proof -
  let ?k = "getSessionId st req resp"
  obtain p h1 where f: "(if ?k \<noteq> [] then find_session st ?k h else Done (None, h)) = Done (p, h1)"
    "store_ok st h1 (add_mset p L)" "p = None \<Longrightarrow> h1 = h"
  proof (cases "?k = []")
    case False
    obtain h1 where "find_session st ?k h = Done (qm_value None (ss_sessions st) ?k, h1)"
      "store_ok st h1 (add_mset (qm_value None (ss_sessions st) ?k) L)"
      using find_session_ok [OF assms(1)] by blast
    moreover have "qm_value None (ss_sessions st) ?k = None \<Longrightarrow> h1 = h"
      using calculation(1) by (auto simp: find_session_def copy_session_def with_data_def)
    ultimately show ?thesis using that False by simp
  next
    case True
    then show ?thesis using that [of None h] null_ok [OF assms(1)] by simp
  qed
  show ?thesis
  proof (cases p)
    case (Some b)
    obtain h2 where "setLastAccess p now h1 = Done h2" "store_ok st h2 (add_mset p L)"
      using data_step_ok [OF f(2), of p "\<lambda>d. d\<lparr>sd_lastAccess := now\<rparr>"] by (auto simp: setLastAccess_def)
    then show ?thesis using f(1) Some by (simp add: getSession_def Let_def)
  next
    case None
    show ?thesis
    proof (cases allow)
      case True
      obtain h2 s where n: "new_session True a uuid now h = (h2, s)" by force
      from new_session_ok [OF assms n] show ?thesis
        using f(1) f(3) None True by (auto simp: getSession_def Let_def n)
    next
      case False
      then show ?thesis using f None by (simp add: getSession_def Let_def)
    qed
  qed
qed

lemma removeSession_ok:
  assumes "store_ok st h L" "p \<in># L"
  shows "\<exists>st' h'. removeSession p st h = Done (st', h') \<and> store_ok st' h' L"
proof -
  obtain k where k: "getId p h = Done k"
    using read_data_exact [of h "handles (ss_sessions st) + L" p "[]" sd_id] assms by (auto simp: getId_def store_ok_def)
  show ?thesis
  proof (cases "qm_get (ss_sessions st) k")
    case None
    then show ?thesis using k assms(1) by (simp add: removeSession_def)
  next
    case (Some q)
    let ?m = "qm_remove k (ss_sessions st)"
    have "heap_exact h (add_mset q (handles ?m + L))"
      using assms(1) handles_remove [OF _ Some] by (simp add: store_ok_def)
    then obtain h' where h': "destroy_session q h = Done h'" "heap_exact h' (handles ?m + L)"
      using destroy_exact by blast
    have "\<forall>(k, p) \<in> set ?m. id_of h p = Some k" using assms(1) by (auto simp: store_ok_def qm_remove_def)
    from ids_kept [OF this h'(2) destroy_same [OF h'(1)]] show ?thesis
      using k Some h' assms(1) by (simp add: removeSession_def store_ok_def qm_ok_remove)
  qed
qed

section \<open>Runs of the store\<close>

text \<open>
  What requests, controllers and the timer do to a store: \<open>L\<close> holds the handles given to
  controllers and not yet destroyed. New data has an unused address and an unused id.
\<close>

inductive store_run :: "bytes \<Rightarrow> int \<Rightarrow> session_store \<Rightarrow> 'd heap \<Rightarrow> handle multiset \<Rightarrow> bool" for cn ex where
  start: "store_run cn ex (new_store cn ex) (\<lambda>_. None) {#}"
| get: "store_run cn ex st h L \<Longrightarrow> h a = None \<Longrightarrow> \<not> qm_contains (ss_sessions st) uuid \<Longrightarrow>
    getSession cfg a uuid now req resp allow st h = Done (st', h', resp', p) \<Longrightarrow>
    store_run cn ex st' h' (add_mset p L)"
| put: "store_run cn ex st h L \<Longrightarrow> p \<in># L \<Longrightarrow> session_set p k v h = Done h' \<Longrightarrow> store_run cn ex st h' L"
| erase: "store_run cn ex st h L \<Longrightarrow> p \<in># L \<Longrightarrow> session_remove p k h = Done h' \<Longrightarrow> store_run cn ex st h' L"
| drop: "store_run cn ex st h (add_mset p L) \<Longrightarrow> destroy_session p h = Done h' \<Longrightarrow> store_run cn ex st h' L"
| timer: "store_run cn ex st h L \<Longrightarrow> timerEvent now st h = Done (st', h') \<Longrightarrow> store_run cn ex st' h' L"
| remove: "store_run cn ex st h L \<Longrightarrow> p \<in># L \<Longrightarrow> removeSession p st h = Done (st', h') \<Longrightarrow> store_run cn ex st' h' L"

lemma store_run_ok: "store_run cn ex st h L \<Longrightarrow> store_ok st h L"
proof (induction rule: store_run.induct)
  case start
  then show ?case by (simp add: store_ok_def new_store_def heap_exact_def)
next
  case (get st h L a uuid cfg now req resp allow st' h' resp' p)
  then show ?case using getSession_ok [of st h L a uuid cfg now req resp allow] by auto
next
  case (put st h L p k v h')
  then show ?case
    using data_step_ok [of st h L p "\<lambda>d. d\<lparr>sd_values := qm_insert k v (sd_values d)\<rparr>"] by (auto simp: session_set_def)
next
  case (erase st h L p k h')
  then show ?case
    using data_step_ok [of st h L p "\<lambda>d. d\<lparr>sd_values := qm_remove k (sd_values d)\<rparr>"] by (auto simp: session_remove_def)
next
  case (drop st h p L h')
  then show ?case using drop_ok by fastforce
next
  case (timer st h L now st' h')
  then show ?case using timerEvent_ok [of st h L now] by auto
next
  case (remove st h L p st' h')
  then show ?case using removeSession_ok [of st h L p] by auto
qed


definition sample_store :: session_store where
  "sample_store = \<lparr>ss_sessions = [(''id'', Some 0)], ss_cookieName = ''sessionid'', ss_expirationTime = 3600000\<rparr>"

definition sample_heap :: "nat heap" where
  "sample_heap = (\<lambda>_. None)(0 \<mapsto> \<lparr>sd_refCount = 1, sd_lastAccess = 5, sd_id = ''id'', sd_values = []\<rparr>)"

text \<open>A request without a cookie creates a session; its controller then lets go of the handle.\<close>

lemma sample_run: "store_run ''sessionid'' 3600000 sample_store sample_heap {#}"
proof -
  let ?g = "getSession \<lparr>cs_cookieName = ''sessionid'', cs_cookiePath = ''/'', cs_cookieComment = [], cs_cookieDomain = []\<rparr>
    0 ''id'' 5 (new_request 10 10) (new_response good_socket) True (new_store ''sessionid'' 3600000) ((\<lambda>_. None) :: nat heap)"
  have "\<exists>r. ?g = Done (sample_store, (\<lambda>_. None)(0 \<mapsto> \<lparr>sd_refCount = 2, sd_lastAccess = 5, sd_id = ''id'', sd_values = []\<rparr>), r, Some 0)"
    by (simp add: getSession_def getSessionId_def new_store_def new_request_def new_response_def qm_value_def
        empty_cookie_def getCookie_def new_session_def getId_def read_data_def insert_session_def copy_session_def
        with_data_def sample_store_def Let_def)
  then obtain r where "?g = Done (sample_store, (\<lambda>_. None)(0 \<mapsto> \<lparr>sd_refCount = 2, sd_lastAccess = 5, sd_id = ''id'', sd_values = []\<rparr>), r, Some 0)"
    by blast
  from store_run.get [OF store_run.start _ _ this]
  have "store_run ''sessionid'' 3600000 sample_store
      ((\<lambda>_. None)(0 \<mapsto> \<lparr>sd_refCount = 2, sd_lastAccess = 5, sd_id = ''id'', sd_values = []\<rparr>) :: nat heap) {#Some 0#}"
    by (simp add: new_store_def qm_contains_def)
  from store_run.drop [OF this] show ?thesis
    by (simp add: destroy_session_def sample_heap_def)
qed


text \<open>
  C16. The timer removes exactly the expired sessions: it succeeds in every run, keeps the
  sessions accessed within the expiration time, and frees the data of the others unless a
  controller still holds a handle.
\<close>

theorem timer_expires:
  assumes "store_run cn ex st h L"
  shows "\<exists>h'. timerEvent now st h =
      Done (st\<lparr>ss_sessions := filter (fresh_session now (ss_expirationTime st) h) (ss_sessions st)\<rparr>, h') \<and>
    (\<forall>(k, p) \<in> set (ss_sessions st). \<forall>a. p = Some a \<longrightarrow>
       \<not> fresh_session now (ss_expirationTime st) h (k, p) \<longrightarrow> p \<notin># L \<longrightarrow> h' a = None)"
proof -
  let ?m = "filter (fresh_session now (ss_expirationTime st) h) (ss_sessions st)"
  have ok: "store_ok st h L" by (rule store_run_ok [OF assms])
  obtain h' where h': "timerEvent now st h = Done (st\<lparr>ss_sessions := ?m\<rparr>, h')"
    "store_ok (st\<lparr>ss_sessions := ?m\<rparr>) h' L"
    using timerEvent_ok [OF ok] by blast
  have "h' a = None"
    if "(k, Some a) \<in> set (ss_sessions st)" "\<not> fresh_session now (ss_expirationTime st) h (k, Some a)" "Some a \<notin># L" for k a
  proof -
    have "Some a \<notin># handles ?m"
    proof
      assume "Some a \<in># handles ?m"
      then obtain k' where k': "(k', Some a) \<in> set ?m" by (auto simp: handles_def)
      then have "id_of h (Some a) = Some k'" "id_of h (Some a) = Some k"
        using ok that(1) unfolding store_ok_def by auto
      then have "k' = k" by simp
      then show False using k' that(2) by simp
    qed
    then have "count (handles ?m + L) (Some a) = 0" using that(3) by (simp add: not_in_iff)
    moreover have "cell_exact (h' a) (count (handles ?m + L) (Some a))"
      using h'(2) heap_exact_cell [of h' "handles ?m + L" a] by (simp add: store_ok_def)
    ultimately show "h' a = None" by (cases "h' a") auto
  qed
  then show ?thesis using h'(1) by fastforce
qed

theorem timer_expires_witness:
  "\<exists>h'. timerEvent 3600006 sample_store sample_heap = Done (sample_store\<lparr>ss_sessions := []\<rparr>, h') \<and> h' 0 = None"
proof -
  have "\<not> fresh_session 3600006 3600000 sample_heap (''id'', Some 0)"
    by (simp add: fresh_session_def access_of_def sample_heap_def)
  then show ?thesis using timer_expires [OF sample_run, of 3600006] by (simp add: sample_store_def)
qed

end
