(* ===== verification/Http_Request_Safety.thy ===== *)
theory Http_Request_Safety
  imports Http_Request
begin

text \<open>
  The limits of a request: its status only advances, the sizes it counts never wrap and bound
  what it stores, and the loop that feeds it ends on every input.
\<close>

section \<open>The order of the status values\<close>

fun status_rank :: "RequestStatus \<Rightarrow> nat" where
  "status_rank waitForRequest = 0"
| "status_rank waitForHeader = 1"
| "status_rank waitForBody = 2"
| "status_rank complete = 3"
| "status_rank abort = 4"

instantiation RequestStatus :: linorder
begin

definition less_eq_RequestStatus :: "RequestStatus \<Rightarrow> RequestStatus \<Rightarrow> bool" where
  "less_eq_RequestStatus a b \<longleftrightarrow> status_rank a \<le> status_rank b"

definition less_RequestStatus :: "RequestStatus \<Rightarrow> RequestStatus \<Rightarrow> bool" where
  "less_RequestStatus a b \<longleftrightarrow> status_rank a < status_rank b"

instance
proof
  fix a b c :: RequestStatus
  show "(a < b) = (a \<le> b \<and> \<not> b \<le> a)" "a \<le> a" "a \<le> b \<Longrightarrow> b \<le> c \<Longrightarrow> a \<le> c" "a \<le> b \<or> b \<le> a"
    by (auto simp: less_eq_RequestStatus_def less_RequestStatus_def)
  show "a \<le> b \<Longrightarrow> b \<le> a \<Longrightarrow> a = b"
    by (cases a; cases b) (auto simp: less_eq_RequestStatus_def)
qed

end

lemma status_order [simp]:
  "waitForRequest \<le> s" "s \<le> abort" "waitForHeader \<le> waitForBody" "waitForHeader \<le> complete"
  "waitForBody \<le> complete"
  by (cases s; simp add: less_eq_RequestStatus_def)+

section \<open>What the operations keep\<close>

text \<open>The fields that only the reading of the body and the size counts touch.\<close>

definition same_frame :: "HttpRequest \<Rightarrow> HttpRequest \<Rightarrow> bool" where
  "same_frame r r' \<longleftrightarrow> rq_maxSize r' = rq_maxSize r \<and> rq_maxMultiPartSize r' = rq_maxMultiPartSize r \<and>
     rq_bodyData r' = rq_bodyData r \<and> rq_tempFile r' = rq_tempFile r \<and>
     (in_i32 (rq_expectedBodySize r) \<longrightarrow> in_i32 (rq_expectedBodySize r'))"

lemma same_frame_refl [simp]: "same_frame r r"
  by (simp add: same_frame_def)

lemma same_frame_trans [trans]: "same_frame a b \<Longrightarrow> same_frame b c \<Longrightarrow> same_frame a c"
  by (simp add: same_frame_def)

lemma read_line_length: "length (trimmed (fst (read_line n s))) + length (snd (read_line n s)) \<le> length s"
proof -
  obtain l t where lt: "read_line n s = (l, t)" by force
  then have "length s = length l + length t" using read_line_append by fastforce
  then show ?thesis using length_trimmed [of l] by (simp add: lt)
qed

lemma decode_frame:
  "same_frame r (decodeRequestParams r)" "rq_currentSize (decodeRequestParams r) = rq_currentSize r"
  "rq_status (decodeRequestParams r) = rq_status r"
  by (simp_all add: decodeRequestParams_def split_url_def same_frame_def Let_def split: prod.splits)

lemma cookies_frame:
  "same_frame r (extractCookies r)" "rq_currentSize (extractCookies r) = rq_currentSize r"
  "rq_status (extractCookies r) = rq_status r"
  by (simp_all add: extractCookies_def same_frame_def)

lemma set_boundary_frame: "same_frame r (set_boundary r)" "rq_currentSize (set_boundary r) = rq_currentSize r"
  by (simp_all add: set_boundary_def same_frame_def Let_def)

lemma set_expected_frame: "same_frame r (set_expected r)" "rq_currentSize (set_expected r) = rq_currentSize r"
  by (simp_all add: set_expected_def same_frame_def Let_def or_zero_range)

lemma headers_end_frame:
  "same_frame r (headers_end r)" "rq_currentSize (headers_end r) = rq_currentSize r"
  "rq_status (headers_end r) \<in> {waitForBody, complete, abort}"
  using set_boundary_frame [of r] set_expected_frame [of "set_boundary r"]
  by (simp_all add: headers_end_def same_frame_def Let_def body_status_def)

lemma header_line_frame:
  "same_frame r (header_line r d c)" "rq_currentSize (header_line r d c) = rq_currentSize r"
  "rq_status (header_line r d c) = rq_status r"
  by (simp_all add: header_line_def same_frame_def Let_def)

lemma header_continued_frame:
  "same_frame r (header_continued r d)" "rq_currentSize (header_continued r d) = rq_currentSize r"
  "rq_status (header_continued r d) = rq_status r"
  by (simp_all add: header_continued_def same_frame_def)

lemma end_part_frame:
  assumes "end_part r fn fl uf v = Done r'"
  shows "same_frame r r'" "rq_currentSize r' = rq_currentSize r" "rq_status r' = rq_status r"
    "rq_boundary r' = rq_boundary r"
  using assms by (auto simp: end_part_def same_frame_def split: if_splits option.splits)

text \<open>The parts of a multipart body are counted at most once, and without wrap-around.\<close>

definition counted :: "HttpRequest \<Rightarrow> int \<Rightarrow> HttpRequest \<Rightarrow> int \<Rightarrow> bool" where
  "counted r n r' n' \<longleftrightarrow> same_frame r r' \<and> rq_status r' = rq_status r \<and>
     rq_currentSize r \<le> rq_currentSize r' \<and> rq_currentSize r' + n' \<le> rq_currentSize r + n"

lemma counted_trans: "counted a n b k \<Longrightarrow> counted b k c m \<Longrightarrow> counted a n c m"
  using same_frame_trans by (auto simp: counted_def)

lemma part_body_counted:
  "part_body rest r fn fl uf v = Done (r', rest', fin) \<Longrightarrow> 0 \<le> rq_currentSize r \<Longrightarrow>
    rq_currentSize r + bsize rest < 2 ^ 31 \<Longrightarrow> counted r (bsize rest) r' (bsize rest')"
proof (induction "length rest" arbitrary: rest r uf v rule: less_induct)
  case less
  obtain l t where lt: "read_line 65536 rest = (l, t)" by force
  then have rest: "rest = l @ t" by (rule read_line_append)
  show ?case
  proof (cases "rest = []")
    case True
    then show ?thesis using less.prems by (auto simp: part_body.simps [of "[]"] counted_def)
  next
    case False
    then have t: "length t < length rest" using read_line_less [of rest 65536] lt by simp
    have keep: "counted r (bsize rest) r (bsize t)" by (simp add: counted_def rest bsize_def)
    have on: "counted r (bsize rest) r' (bsize rest')"
      if "part_body t r2 fn fl u2 v2 = Done (r', rest', fin)" "counted r (bsize rest) r2 (bsize t)" for r2 u2 v2
    proof (rule counted_trans [OF that(2)])
      show "counted r2 (bsize t) r' (bsize rest')"
        by (rule less.hyps [OF t that(1)]) (use that(2) less.prems in \<open>auto simp: counted_def\<close>)
    qed
    have i: "i32 (rq_currentSize r + bsize l) = rq_currentSize r + bsize l"
      using less.prems(2,3) by (intro i32_id) (simp add: in_i32_def rest bsize_def)
    then have add: "counted r (bsize rest) (r\<lparr>rq_currentSize := i32 (rq_currentSize r + bsize l)\<rparr>) (bsize t)"
      by (simp add: counted_def same_frame_def rest bsize_def)
    have ended: "counted r (bsize rest) r' (bsize t)" if "end_part r fn fl uf v = Done r'"
      using end_part_frame [OF that] keep by (simp add: counted_def)
    show ?thesis
      using less.prems(1) False on [OF _ keep] on [OF _ add] ended
      by (auto simp: part_body.simps [of rest] lt Let_def rbind_Done split: if_splits)
  qed
qed

lemma parse_parts_counted:
  "parse_parts rest r = Done r' \<Longrightarrow> 0 \<le> rq_currentSize r \<Longrightarrow>
    rq_currentSize r + bsize rest < 2 ^ 31 \<Longrightarrow> counted r (bsize rest) r' 0"
proof (induction "length rest" arbitrary: rest r rule: less_induct)
  case less
  show ?case
  proof (cases "rest = []")
    case True
    then show ?thesis using less.prems by (auto simp: parse_parts.simps [of "[]"] counted_def bsize_def)
  next
    case False
    obtain rest1 fn fl where h: "part_header rest [] [] = (rest1, fn, fl)" by (metis prod_cases3)
    then have l1: "length rest1 < length rest" using part_header_less [OF False, of "[]" "[]"] by simp
    then obtain r2 rest2 fin where b: "part_body rest1 r fn fl None [] = Done (r2, rest2, fin)"
      and n: "if fin then r' = r2 else parse_parts rest2 r2 = Done r'"
      using less.prems(1) False by (auto simp: parse_parts.simps [of rest] h split: run.splits prod.splits if_splits)
    have c: "counted r (bsize rest1) r2 (bsize rest2)"
      by (rule part_body_counted [OF b]) (use less.prems l1 in \<open>auto simp: bsize_def\<close>)
    then have c': "counted r (bsize rest) r2 (bsize rest2)" using l1 by (simp add: counted_def bsize_def)
    show ?thesis
    proof (cases fin)
      case True
      then show ?thesis using n c' by (auto simp: counted_def bsize_def)
    next
      case False
      have "length rest2 < length rest" using part_body_le [OF b] l1 by simp
      then have "counted r2 (bsize rest2) r' 0"
        using less.hyps [of rest2 r2] n False c' less.prems by (auto simp: counted_def)
      with c' show ?thesis by (rule counted_trans)
    qed
  qed
qed

section \<open>One step within the limits\<close>

text \<open>
  The limits under which no size wraps: the two maxima of the settings and the largest number
  of bytes a socket holds at once.
\<close>

definition limits :: "int \<Rightarrow> int \<Rightarrow> int \<Rightarrow> bool" where
  "limits M MM B \<longleftrightarrow> 0 \<le> M \<and> 0 \<le> MM \<and> 0 \<le> B \<and> M + MM + B + 65536 < 2 ^ 31"

text \<open>
  The invariant: the body is counted; a request that is not aborted is within \<open>maxSize\<close>, and
  its temporary file below \<open>maxMultiPartSize\<close>.
\<close>

definition req_inv :: "int \<Rightarrow> int \<Rightarrow> int \<Rightarrow> HttpRequest \<Rightarrow> bool" where
  "req_inv M MM B r \<longleftrightarrow> rq_maxSize r = M \<and> rq_maxMultiPartSize r = MM \<and> 0 \<le> rq_currentSize r \<and>
     bsize (rq_bodyData r) \<le> rq_currentSize r \<and> rq_currentSize r \<le> M + MM + B \<and>
     in_i32 (rq_expectedBodySize r) \<and>
     (rq_status r \<noteq> abort \<longrightarrow> rq_currentSize r \<le> M \<and> (rq_tempFile r = [] \<or> bsize (rq_tempFile r) < MM))"

definition req_next :: "int \<Rightarrow> int \<Rightarrow> int \<Rightarrow> HttpRequest \<Rightarrow> bytes \<Rightarrow> HttpRequest \<times> bytes \<Rightarrow> bool" where
  "req_next M MM B r s res \<longleftrightarrow> (case res of (r', s') \<Rightarrow>
     rq_maxSize r' = M \<and> rq_maxMultiPartSize r' = MM \<and> rq_status r \<le> rq_status r' \<and>
     bsize (rq_bodyData r') \<le> rq_currentSize r' \<and> 0 \<le> rq_currentSize r' \<and>
     rq_currentSize r' \<le> M + MM + B \<and> in_i32 (rq_expectedBodySize r') \<and>
     (rq_status r' \<noteq> abort \<longrightarrow> rq_tempFile r' = [] \<or> bsize (rq_tempFile r') < MM) \<and>
     length s' \<le> length s \<and> (length s' < length s \<or> complete \<le> rq_status r'))"

lemma line_step:
  assumes "limits M MM B" "req_inv M MM B r" "rq_status r \<noteq> abort" "s \<noteq> []" "bsize s \<le> B"
    and l: "read_line (i32 (rq_maxSize r - rq_currentSize r + 1)) s = (l, t)"
  shows "length t < length s" "i32 (rq_currentSize r + bsize (trimmed l)) = rq_currentSize r + bsize (trimmed l)"
    "rq_currentSize r + bsize (trimmed l) \<le> M + B"
proof -
  have "i32 (rq_maxSize r - rq_currentSize r + 1) = rq_maxSize r - rq_currentSize r + 1"
    using assms(1-3) by (intro i32_id) (simp add: in_i32_def limits_def req_inv_def)
  then have "0 \<le> i32 (rq_maxSize r - rq_currentSize r + 1)" using assms(2,3) by (simp add: req_inv_def)
  from read_line_less [OF assms(4) this] show "length t < length s" using l by simp
  have "bsize (trimmed l) \<le> B"
    using read_line_length [of "i32 (rq_maxSize r - rq_currentSize r + 1)" s] assms(5) l by (simp add: bsize_def)
  then show "i32 (rq_currentSize r + bsize (trimmed l)) = rq_currentSize r + bsize (trimmed l)"
    "rq_currentSize r + bsize (trimmed l) \<le> M + B"
    using assms(1-3) by (auto intro!: i32_id simp: in_i32_def limits_def req_inv_def bsize_def)
qed

lemma readRequest_next:
  assumes "limits M MM B" "req_inv M MM B r" "rq_status r = waitForRequest" "s \<noteq> []" "bsize s \<le> B"
  shows "req_next M MM B r s (readRequest r s)"
proof -
  obtain l t where l: "read_line (i32 (rq_maxSize r - rq_currentSize r + 1)) s = (l, t)" by force
  have na: "rq_status r \<noteq> abort" using assms(3) by simp
  note step = line_step [OF assms(1,2) na assms(4,5) l]
  have "0 \<le> bsize (trimmed l)" by (simp add: bsize_def)
  then show ?thesis
    unfolding readRequest_def Let_def l prod.case step(2)
    using step assms by (simp add: req_next_def req_inv_def limits_def)
qed

lemma readHeader_next:
  assumes "limits M MM B" "req_inv M MM B r" "rq_status r = waitForHeader" "s \<noteq> []" "bsize s \<le> B"
  shows "req_next M MM B r s (readHeader r s)"
proof -
  obtain l t where l: "read_line (i32 (rq_maxSize r - rq_currentSize r + 1)) s = (l, t)" by force
  have na: "rq_status r \<noteq> abort" using assms(3) by simp
  note step = line_step [OF assms(1,2) na assms(4,5) l]
  let ?r = "r\<lparr>rq_currentSize := rq_currentSize r + bsize (trimmed l)\<rparr>"
  have "0 \<le> bsize (trimmed l)" by (simp add: bsize_def)
  then have *: "req_next M MM B r s (r', t)"
    if "same_frame ?r r'" "rq_currentSize r' = rq_currentSize ?r" "waitForHeader \<le> rq_status r'" for r'
    using step assms that by (simp add: req_next_def req_inv_def limits_def same_frame_def)
  have "req_next M MM B r s (headers_end ?r, t)" "req_next M MM B r s (header_line ?r d c, t)"
    "req_next M MM B r s (header_continued ?r d, t)" for d c
    using headers_end_frame [of ?r] header_line_frame [of ?r d c] header_continued_frame [of ?r d] assms(3)
    by (auto intro!: *)
  then show ?thesis
    unfolding readHeader_def Let_def l prod.case step(2) by (auto simp only: split: if_split)
qed

lemma readBody_next:
  assumes "limits M MM B" "req_inv M MM B r" "rq_status r = waitForBody" "s \<noteq> []" "bsize s \<le> B"
    "readBody r s = Done res"
  shows "req_next M MM B r s res"
proof (cases "rq_boundary r = []")
  case True
  let ?n = "i32 (rq_expectedBodySize r - bsize (rq_bodyData r))"
  let ?d = "take (nat ?n) s"
  have d: "bsize ?d \<le> B" "bsize ?d + bsize (drop (nat ?n) s) = bsize s"
    using assms(5) by (auto simp: bsize_def)
  have b: "0 \<le> bsize (rq_bodyData r)" "bsize (rq_bodyData r) < 2 ^ 31"
    using assms(1-3) by (auto simp: req_inv_def limits_def bsize_def)
  have i: "i32 (rq_currentSize r + bsize ?d) = rq_currentSize r + bsize ?d"
    using assms(1-3) d by (intro i32_id) (auto simp: in_i32_def limits_def req_inv_def bsize_def)
  have "rq_expectedBodySize r \<le> bsize (rq_bodyData r @ ?d)" if "\<not> length (drop (nat ?n) s) < length s"
  proof -
    have "?n \<le> 0" using that assms(4) by (cases "nat ?n") auto
    moreover have "?n = rq_expectedBodySize r - bsize (rq_bodyData r)" if "rq_expectedBodySize r > bsize (rq_bodyData r)"
      using that b assms(2) by (intro i32_id) (simp add: in_i32_def req_inv_def)
    ultimately show ?thesis
      by (cases "rq_expectedBodySize r > bsize (rq_bodyData r)") (simp_all add: bsize_def)
  qed
  then have stay: "length (drop (nat ?n) s) < length s \<or> rq_expectedBodySize r \<le> bsize (rq_bodyData r @ ?d)"
    by blast
  let ?r = "r\<lparr>rq_currentSize := rq_currentSize r + bsize ?d, rq_bodyData := rq_bodyData r @ ?d\<rparr>"
  have "res = (if rq_expectedBodySize r \<le> bsize (rq_bodyData r @ ?d) then ?r\<lparr>rq_status := complete\<rparr> else ?r, drop (nat ?n) s)"
    using assms(6) True by (auto simp: readBody_def read_bytes_def Let_def i)
  then show ?thesis
    using assms(1-3) d(1) stay bsize_ge0 [of ?d]
    by (cases "rq_expectedBodySize r \<le> bsize (rq_bodyData r @ ?d)") (simp_all add: req_next_def req_inv_def limits_def)
next
  case False
  let ?n = "min (i32 (rq_expectedBodySize r - bsize (rq_tempFile r))) 65536"
  let ?f = "rq_tempFile r @ take (nat ?n) s"
  let ?r = "r\<lparr>rq_tempOpen := True, rq_tempFile := ?f\<rparr>"
  let ?t = "drop (nat ?n) s"
  have f: "0 \<le> bsize (rq_tempFile r)" "bsize (rq_tempFile r) \<le> MM" "bsize (take (nat ?n) s) \<le> 65536"
    "bsize ?f = bsize (rq_tempFile r) + bsize (take (nat ?n) s)"
    using assms(1-3) by (auto simp: req_inv_def bsize_def limits_def)
  then have i: "i32 (bsize (rq_tempFile r) + bsize (take (nat ?n) s)) = bsize ?f"
    using assms(1) by (subst i32_id) (auto simp: in_i32_def limits_def bsize_def)
  have stay: "rq_expectedBodySize r \<le> bsize ?f" if "\<not> length ?t < length s"
  proof -
    have "i32 (rq_expectedBodySize r - bsize (rq_tempFile r)) \<le> 0"
      using that assms(4) by (cases "nat ?n") auto
    moreover have "i32 (rq_expectedBodySize r - bsize (rq_tempFile r)) = rq_expectedBodySize r - bsize (rq_tempFile r)"
      if "rq_expectedBodySize r > bsize (rq_tempFile r)"
      using that f(1) assms(2) by (intro i32_id) (simp add: in_i32_def req_inv_def)
    ultimately show ?thesis
      by (cases "rq_expectedBodySize r > bsize (rq_tempFile r)") (simp_all add: bsize_def)
  qed
  have eq: "readBody r s =
     (if MM \<le> bsize ?f then Done (?r\<lparr>rq_status := abort\<rparr>, ?t)
      else if rq_expectedBodySize r \<le> bsize ?f then
        rbind (parse_parts ?f ?r) (\<lambda>r. Done (r\<lparr>rq_tempOpen := False, rq_status := complete\<rparr>, ?t))
      else Done (?r, ?t))"
    using False assms(2) i
    by (simp add: readBody_def read_bytes_def Let_def parseMultiPartFile_def req_inv_def)
  have parsed: "req_next M MM B r s (r'\<lparr>rq_tempOpen := False, rq_status := complete\<rparr>, ?t)"
    if "parse_parts ?f ?r = Done r'" "\<not> MM \<le> bsize ?f" for r'
    using parse_parts_counted [OF that(1)] that(2) assms(1-3)
    by (auto simp: counted_def same_frame_def req_next_def req_inv_def limits_def bsize_def)
  consider "MM \<le> bsize ?f" "res = (?r\<lparr>rq_status := abort\<rparr>, ?t)"
    | r' where "\<not> MM \<le> bsize ?f" "parse_parts ?f ?r = Done r'"
        "res = (r'\<lparr>rq_tempOpen := False, rq_status := complete\<rparr>, ?t)"
    | "\<not> MM \<le> bsize ?f" "\<not> rq_expectedBodySize r \<le> bsize ?f" "res = (?r, ?t)"
    using assms(6) unfolding eq by (fastforce simp only: rbind_Done run.inject split: if_splits)
  then show ?thesis
  proof cases
    case 1
    then show ?thesis using assms(1-3) by (simp add: req_next_def req_inv_def limits_def less_eq_RequestStatus_def)
  next
    case 2
    then show ?thesis using parsed by simp
  next
    case 3
    then have "length ?t < length s" using stay by blast
    then show ?thesis using assms(1-3) 3 by (simp add: req_next_def req_inv_def limits_def)
  qed
qed

lemma finish_step_status:
  "rq_status (finish_step r) = (if rq_maxSize r < rq_currentSize r then abort else rq_status r)"
  by (simp add: finish_step_def Let_def cookies_frame decode_frame)

lemma finish_step_frame: "same_frame r (finish_step r)" "rq_currentSize (finish_step r) = rq_currentSize r"
  using decode_frame [of r] cookies_frame [of "decodeRequestParams r"] same_frame_trans
  by (auto simp: finish_step_def Let_def same_frame_def)

lemma readFromSocket_cases:
  assumes "readFromSocket peer r s = Done (r', s')" "rq_status r \<notin> {complete, abort}"
  obtains r2 where "r' = finish_step r2"
    "rq_status r = waitForRequest \<Longrightarrow> (r2, s') = readRequest (r\<lparr>rq_source := peer\<rparr>) s"
    "rq_status r = waitForHeader \<Longrightarrow> (r2, s') = readHeader (r\<lparr>rq_source := peer\<rparr>) s"
    "rq_status r = waitForBody \<Longrightarrow> readBody (r\<lparr>rq_source := peer\<rparr>) s = Done (r2, s')"
  using assms unfolding readFromSocket_def Let_def
  by (cases "rq_status r") (auto simp: rbind_Done split: prod.splits)

lemma readFromSocket_next:
  assumes lim: "limits M MM B" and inv: "req_inv M MM B r" and st: "rq_status r \<notin> {complete, abort}"
    and s: "s \<noteq> []" "bsize s \<le> B" and step: "readFromSocket peer r s = Done (r', s')"
  shows "req_inv M MM B r'" "length s' \<le> length s" "length s' < length s \<or> rq_status r' \<in> {complete, abort}"
proof -
  let ?r = "r\<lparr>rq_source := peer\<rparr>"
  obtain r2 where r2: "r' = finish_step r2"
    "rq_status r = waitForRequest \<Longrightarrow> (r2, s') = readRequest ?r s"
    "rq_status r = waitForHeader \<Longrightarrow> (r2, s') = readHeader ?r s"
    "rq_status r = waitForBody \<Longrightarrow> readBody ?r s = Done (r2, s')"
    using readFromSocket_cases [OF step st] by blast
  have inv': "req_inv M MM B ?r" using inv by (simp add: req_inv_def)
  have "req_next M MM B ?r s (r2, s')"
  proof (cases "rq_status r")
    case waitForRequest
    then show ?thesis using readRequest_next [OF lim inv' _ s] by (simp add: r2(2))
  next
    case waitForHeader
    then show ?thesis using readHeader_next [OF lim inv' _ s] by (simp add: r2(3))
  next
    case waitForBody
    then show ?thesis using readBody_next [OF lim inv' _ s r2(4)] by simp
  qed (use st in auto)
  then have n: "rq_maxSize r2 = M" "rq_maxMultiPartSize r2 = MM" "bsize (rq_bodyData r2) \<le> rq_currentSize r2"
    "0 \<le> rq_currentSize r2" "rq_currentSize r2 \<le> M + MM + B" "in_i32 (rq_expectedBodySize r2)"
    "rq_status r2 \<noteq> abort \<longrightarrow> rq_tempFile r2 = [] \<or> bsize (rq_tempFile r2) < MM"
    "length s' \<le> length s" "length s' < length s \<or> complete \<le> rq_status r2"
    by (simp_all add: req_next_def)
  then show "length s' \<le> length s" by simp
  have "complete \<le> x \<longleftrightarrow> x \<in> {complete, abort}" for x
    by (cases x) (simp_all add: less_eq_RequestStatus_def)
  then show "length s' < length s \<or> rq_status r' \<in> {complete, abort}"
    using n(9) by (simp add: r2(1) finish_step_status)
  show "req_inv M MM B r'"
    using n finish_step_frame [of r2] by (simp add: req_inv_def r2(1) finish_step_status same_frame_def)
qed

lemma end_part_not_Loop: "end_part q fn fl uf v \<noteq> Loop"
  by (simp add: end_part_def split: option.split)

lemma part_body_not_Loop: "part_body rest q fn fl uf v \<noteq> Loop"
proof (induction "length rest" arbitrary: rest q fn fl uf v rule: less_induct)
  case less
  show ?case
  proof (cases "rest = []")
    case False
    then show ?thesis
      using less.hyps [of "snd (read_line 65536 rest)"] read_line_less [of rest 65536]
      by (subst part_body.simps) (simp add: Let_def rbind_not_Loop end_part_not_Loop)
  qed (simp add: part_body.simps [of "[]"])
qed

lemma parse_parts_not_Loop: "parse_parts rest q \<noteq> Loop"
proof (induction "length rest" arbitrary: rest q rule: less_induct)
  case less
  show ?case
  proof (cases "rest = []")
    case False
    obtain rest1 fn fl where h: "part_header rest [] [] = (rest1, fn, fl)" by (metis prod_cases3)
    then have l: "length rest1 < length rest" using part_header_less [OF False, of "[]" "[]"] by simp
    show ?thesis
    proof (cases "part_body rest1 q fn fl None []")
      case (Done x)
      obtain q2 rest2 fin where x: "x = (q2, rest2, fin)" by (metis prod_cases3)
      have "length rest2 < length rest" using part_body_le [OF Done [unfolded x]] l by simp
      then show ?thesis using False less.hyps by (simp add: parse_parts.simps [of rest] h Done x)
    qed (use False in \<open>simp_all add: parse_parts.simps [of rest] h part_body_not_Loop\<close>)
  qed (simp add: parse_parts.simps [of "[]"])
qed

lemma readFromSocket_Fault_or_Done: "readFromSocket peer r s \<noteq> Loop"
proof -
  have "readBody q s \<noteq> Loop" for q
    by (simp add: readBody_def read_bytes_def parseMultiPartFile_def Let_def rbind_not_Loop parse_parts_not_Loop)
  then show ?thesis
    by (cases "rq_status r") (auto simp: readFromSocket_def Let_def rbind_not_Loop split: prod.splits)
qed

section \<open>Receiving a request\<close>

text \<open>
  A request on a connection: data arrives in pieces of any size, as long as the socket holds no
  more than \<open>B\<close> bytes, and the handler reads steps in between.
\<close>

inductive receiving :: "int \<Rightarrow> int \<Rightarrow> int \<Rightarrow> 32 word \<Rightarrow> HttpRequest \<Rightarrow> bytes \<Rightarrow> bool"
  for M MM B peer where
  start: "receiving M MM B peer (new_request M MM) []"
| arrive: "receiving M MM B peer r s \<Longrightarrow> bsize (s @ d) \<le> B \<Longrightarrow> receiving M MM B peer r (s @ d)"
| step: "receiving M MM B peer r s \<Longrightarrow> s \<noteq> [] \<Longrightarrow> rq_status r \<notin> {complete, abort} \<Longrightarrow>
    readFromSocket peer r s = Done (r', s') \<Longrightarrow> receiving M MM B peer r' s'"

lemma receiving_inv:
  assumes "limits M MM B" "receiving M MM B peer r s"
  shows "req_inv M MM B r \<and> bsize s \<le> B"
  using assms(2)
proof (induction rule: receiving.induct)
  case start
  then show ?case using assms(1) by (simp add: req_inv_def new_request_def limits_def in_i32_def)
next
  case (step r s r' s')
  then have "req_inv M MM B r" "bsize s \<le> B" by simp_all
  note n = readFromSocket_next [OF assms(1) this(1) step(3,2) this(2) step(4)]
  show ?case using n(1,2) \<open>bsize s \<le> B\<close> by (simp add: bsize_def)
qed simp

lemma read_loop_ends:
  "limits M MM B \<Longrightarrow> req_inv M MM B r \<Longrightarrow> bsize s \<le> B \<Longrightarrow> length s < n \<Longrightarrow> read_loop n peer r s \<noteq> Loop"
proof (induction n arbitrary: r s)
  case (Suc n)
  show ?case
  proof (cases "s = [] \<or> rq_status r = complete \<or> rq_status r = abort")
    case True
    then show ?thesis by (auto simp: read_loop.simps)
  next
    case False
    then have rd: "rq_status r \<notin> {complete, abort}" "s \<noteq> []" by auto
    show ?thesis
    proof (cases "readFromSocket peer r s")
      case (Done x)
      obtain r' s' where x: "x = (r', s')" by force
      note n = readFromSocket_next [OF Suc.prems(1,2) rd Suc.prems(3) Done [unfolded x]]
      have "read_loop n peer r' s' \<noteq> Loop"
      proof (cases "rq_status r' \<in> {complete, abort}")
        case True
        then show ?thesis by (auto simp: read_loop.simps)
      next
        case False
        then show ?thesis
          using n Suc.prems by (intro Suc.IH) (auto simp: bsize_def)
      qed
      then show ?thesis using False Done x by (auto simp: read_loop.simps [of "Suc n"])
    next
      case Loop
      then show ?thesis using readFromSocket_Fault_or_Done by simp
    qed (use False in \<open>auto simp: read_loop.simps [of "Suc n"]\<close>)
  qed
qed simp

text \<open>
  C5. A request never goes back: every step leaves its status or advances it in the order
  request line, headers, body, complete, aborted.
\<close>

theorem status_monotone:
  assumes "readFromSocket peer r s = Done (r', s')"
  shows "rq_status r \<le> rq_status r'"
proof (cases "rq_status r \<in> {complete, abort}")
  case True
  then have "r' = finish_step (r\<lparr>rq_source := peer\<rparr>)"
    using assms by (auto simp: readFromSocket_def Let_def)
  then show ?thesis by (simp add: finish_step_status)
next
  case False
  then obtain r2 where r2: "r' = finish_step r2"
    "rq_status r = waitForRequest \<Longrightarrow> (r2, s') = readRequest (r\<lparr>rq_source := peer\<rparr>) s"
    "rq_status r = waitForHeader \<Longrightarrow> (r2, s') = readHeader (r\<lparr>rq_source := peer\<rparr>) s"
    "rq_status r = waitForBody \<Longrightarrow> readBody (r\<lparr>rq_source := peer\<rparr>) s = Done (r2, s')"
    using readFromSocket_cases [OF assms] by blast
  have "rq_status r \<le> rq_status r2"
  proof (cases "rq_status r")
    case waitForHeader
    from r2(3) [OF this] waitForHeader show ?thesis
      using headers_end_frame(3) header_line_frame(3) header_continued_frame(3)
      by (auto simp: readHeader_def Let_def split: prod.splits if_splits)
         (metis insertE singletonD status_order(2,3,4))
  next
    case waitForBody
    from r2(4) [OF this] waitForBody show ?thesis
      by (auto simp: readBody_def Let_def rbind_Done split: prod.splits if_splits)
  qed (use False in auto)
  then show ?thesis by (simp add: r2(1) finish_step_status)
qed

theorem status_monotone_witness:
  "waitForRequest \<le> rq_status (new_request 100 100\<lparr>rq_source := 7, rq_currentSize := 1, rq_status := abort\<rparr>)"
proof -
  have "readFromSocket 7 (new_request 100 100) ''x'' =
      Done (new_request 100 100\<lparr>rq_source := 7, rq_currentSize := 1, rq_status := abort\<rparr>, [])"
    by (simp add: readFromSocket_def readRequest_def new_request_def read_line_def line_length_def
        trimmed_def ltrim_def is_space_def i32_id in_i32_def bsize_def finish_step_def)
  from status_monotone [OF this] show ?thesis by (simp add: new_request_def)
qed


lemma limits_default: "limits 16000 1000000 65536"
  by (simp add: limits_def)


text \<open>
  C7. The loop that feeds a request ends on every input: with a step for every byte and one
  more, it stops because the bytes are used up or the request is complete or aborted (or the
  process faults).
\<close>

theorem read_loop_terminates:
  assumes "limits M MM B" "receiving M MM B peer r s"
  shows "read_loop (Suc (length s)) peer r s \<noteq> Loop"
  using receiving_inv [OF assms] by (intro read_loop_ends [OF assms(1)]) auto

theorem read_loop_terminates_witness:
  "read_loop (Suc (length ''GET'')) 7 (new_request 16000 1000000) ''GET'' \<noteq> Loop"
proof -
  have "receiving 16000 1000000 65536 7 (new_request 16000 1000000) ([] @ ''GET'')"
    by (intro receiving.arrive receiving.start) (simp add: bsize_def)
  then have "receiving 16000 1000000 65536 7 (new_request 16000 1000000) ''GET''" by simp
  from read_loop_terminates [OF limits_default this] show ?thesis .
qed

end
