(* ===== verification/Http_Url.thy ===== *)
theory Http_Url
  imports Http_Request
begin

text \<open>
  The decoding of URL text: \<open>urlDecode\<close> rewrites its buffer in place and searches on from an
  index; here it is shown equal to one pass over the text, and the inverse of percent encoding.
\<close>

section \<open>One pass instead of an index\<close>

fun decode_pass :: "bytes \<Rightarrow> bytes" where
  "decode_pass [] = []"
| "decode_pass (c # s) =
     (if c = CHR ''%'' then
        (case bytes_toInt 16 (take 2 s) of
           Some n \<Rightarrow> byte_char n # decode_pass (drop 2 s)
         | None \<Rightarrow> c # decode_pass s)
      else c # decode_pass s)"

lemma indexOf_at_append:
  "indexOf_at (a @ s) c (length a) =
     (if c \<in> set s then Some (length a + length (takeWhile (\<lambda>x. x \<noteq> c) s)) else None)"
  by (simp add: indexOf_at_def)

lemma decode_pass_plain: "CHR ''%'' \<notin> set p \<Longrightarrow> decode_pass (p @ s) = p @ decode_pass s"
  by (induction p) auto

lemma urlDecode_loop_pass: "urlDecode_loop (a @ s) (length a) = a @ decode_pass s"
proof (induction "length s" arbitrary: a s rule: less_induct)
  case less
  show ?case
  proof (cases "CHR ''%'' \<in> set s")
    case False
    then show ?thesis using decode_pass_plain [of s "[]"]
      by (simp add: urlDecode_loop.simps [of _ "length a"] indexOf_at_append)
  next
    case True
    then obtain p t where s: "s = p @ CHR ''%'' # t" and p: "CHR ''%'' \<notin> set p"
      by (meson split_list_first)
    have "takeWhile (\<lambda>x. x \<noteq> CHR ''%'') s = p"
      using p unfolding s by (auto simp: takeWhile_append)
    then have i: "indexOf_at (a @ s) (CHR ''%'') (length a) = Some (length (a @ p))"
      using True by (simp add: indexOf_at_append)
    have cut: "take (length (a @ p)) (a @ s) = a @ p" "drop (length (a @ p) + 3) (a @ s) = drop 2 t"
      "drop (Suc (length (a @ p))) (a @ s) = t"
      by (simp_all add: s numeral_3_eq_3 numeral_2_eq_2)
    show ?thesis
    proof (cases "bytes_toInt 16 (take 2 t)")
      case None
      have "urlDecode_loop (a @ s) (length a) = urlDecode_loop ((a @ p @ [CHR ''%'']) @ t) (length (a @ p @ [CHR ''%'']))"
        using None cut by (subst urlDecode_loop.simps) (simp add: i, simp add: s)
      then show ?thesis
        using less.hyps [of t "a @ p @ [CHR ''%'']"] None by (simp add: s decode_pass_plain [OF p])
    next
      case (Some n)
      have "urlDecode_loop (a @ s) (length a) =
          urlDecode_loop ((a @ p @ [byte_char n]) @ drop 2 t) (length (a @ p @ [byte_char n]))"
        using Some cut by (subst urlDecode_loop.simps) (simp add: i)
      then show ?thesis
        using less.hyps [of "drop 2 t" "a @ p @ [byte_char n]"] Some by (simp add: s decode_pass_plain [OF p])
    qed
  qed
qed

definition plus_blank :: "char \<Rightarrow> char" where
  "plus_blank c = (if c = CHR ''+'' then CHR '' '' else c)"

lemma urlDecode_pass: "urlDecode s = decode_pass (map plus_blank s)"
  using urlDecode_loop_pass [of "[]"] by (simp add: urlDecode_def plus_blank_def [abs_def])

section \<open>Percent encoding\<close>

text \<open>
  The reverse direction as the header file names it: letters, digits and \<open>-._~\<close> stand for
  themselves, any other byte is a percent sign and its two digits in base 16.
\<close>

definition unreserved :: "char \<Rightarrow> bool" where
  "unreserved c \<longleftrightarrow> char_digit c \<noteq> None \<or> c \<in> set ''-._~''"

definition percent_char :: "char \<Rightarrow> bytes" where
  "percent_char c =
     (if unreserved c then [c]
      else [CHR ''%'', digit_char (of_char c div 16), digit_char (of_char c mod 16)])"

definition percent_encode :: "bytes \<Rightarrow> bytes" where
  "percent_encode s = concat (map percent_char s)"

lemma percent_encode_simps [simp]:
  "percent_encode [] = []" "percent_encode (c # s) = percent_char c @ percent_encode s"
  by (simp_all add: percent_encode_def)

lemma not_unreserved [simp]:
  "\<not> unreserved (CHR ''+'')" "\<not> unreserved (CHR ''%'')" "\<not> unreserved (CHR ''&'')"
  "\<not> unreserved (CHR ''='')" "\<not> unreserved (CHR ''?'')" "\<not> unreserved (CHR '' '')"
  by (simp_all add: unreserved_def char_digit_def)

lemma unreserved_plain:
  assumes "unreserved c"
  shows "c \<notin> {CHR ''+'', CHR ''%'', CHR ''&'', CHR ''='', CHR ''?''}" "\<not> is_space c"
proof -
  show "c \<notin> {CHR ''+'', CHR ''%'', CHR ''&'', CHR ''='', CHR ''?''}" using assms not_unreserved by auto
  show "\<not> is_space c"
  proof
    assume "is_space c"
    then have "(of_char c :: nat) = 32 \<or> (9 \<le> (of_char c :: nat) \<and> (of_char c :: nat) \<le> 13)"
      by (auto simp: is_space_def)
    then show False using assms by (auto simp: unreserved_def char_digit_def Let_def split: if_splits)
  qed
qed

lemma hex_digit_plain:
  assumes "d < 16"
  shows "digit_char d \<notin> {CHR ''+'', CHR ''%'', CHR ''&'', CHR ''='', CHR ''?''}" "\<not> is_space (digit_char d)"
proof -
  have "unreserved (digit_char d)" using assms by (simp add: unreserved_def char_digit_char)
  then show "digit_char d \<notin> {CHR ''+'', CHR ''%'', CHR ''&'', CHR ''='', CHR ''?''}" "\<not> is_space (digit_char d)"
    by (rule unreserved_plain)+
qed

lemma two_hex_digits:
  assumes "a < 16" "b < 16"
  shows "bytes_toInt 16 [digit_char a, digit_char b] = Some (int (16 * a + b))"
proof -
  have x: "digit_char b \<noteq> CHR ''x''" "digit_char b \<noteq> CHR ''X''"
  proof -
    have "(of_char (digit_char b) :: nat) < 103" using assms(2) by (simp add: of_char_digit_char)
    moreover have "char_digit (digit_char b) = Some b" using assms(2) by (simp add: char_digit_char)
    ultimately show "digit_char b \<noteq> CHR ''x''" "digit_char b \<noteq> CHR ''X''"
      using assms(2) by (auto simp: char_digit_def)
  qed
  have s: "ltrim [digit_char a, digit_char b] = [digit_char a, digit_char b]"
    using hex_digit_plain(2) [OF assms(1)] by (simp add: ltrim_def)
  have "parse_nat 16 [digit_char a, digit_char b] = Some (16 * a + b)"
    using assms by (simp add: parse_nat_def digit_in_char of_digits_def)
  then have "parse_signed 16 [digit_char a, digit_char b] = Some (int (16 * a + b))"
    using digit_char_plain(1,2) [of a] assms(1) x
    by (simp add: parse_signed_def parse_unsigned_def starts_with_def)
  then show ?thesis using assms by (simp add: bytes_toInt_def s int_in_def)
qed

lemma percent_char_plus: "map plus_blank (percent_char c) = percent_char c"
proof -
  have "(of_char c :: nat) < 256" by simp
  then have "(of_char c :: nat) div 16 < 16" by (simp add: less_mult_imp_div_less)
  then show ?thesis
    using unreserved_plain(1) [of c] hex_digit_plain(1) [of "of_char c div 16"] hex_digit_plain(1) [of "of_char c mod 16"]
    by (simp add: percent_char_def plus_blank_def)
qed

lemma decode_percent_char: "decode_pass (percent_char c @ s) = c # decode_pass s"
proof (cases "unreserved c")
  case True
  then show ?thesis using unreserved_plain(1) [of c] by (simp add: percent_char_def)
next
  case False
  let ?n = "of_char c :: nat"
  have n: "?n < 256" by simp
  then have d: "?n div 16 < 16" "?n mod 16 < 16" by (simp_all add: less_mult_imp_div_less)
  have "byte_char (int (16 * (?n div 16) + ?n mod 16)) = c"
    using n by (simp add: byte_char_def nat_mod_as_int [symmetric])
  then show ?thesis using False two_hex_digits [OF d] by (simp add: percent_char_def)
qed

lemma percent_encode_plus: "map plus_blank (percent_encode s) = percent_encode s"
  by (induction s) (simp_all add: percent_char_plus)

lemma decode_percent_encode: "decode_pass (percent_encode s) = s"
  by (induction s) (simp_all add: decode_percent_char)

text \<open>
  C4. \<open>urlDecode\<close> undoes percent encoding: every byte string, encoded byte by byte, is decoded
  to itself, although the loop rewrites the buffer it searches.
\<close>

theorem urlDecode_percent_encode: "urlDecode (percent_encode s) = s"
  by (simp add: urlDecode_pass percent_encode_plus decode_percent_encode)

end
