(* ===== verification/Http_Request_Spec.thy ===== *)
theory Http_Request_Spec
  imports Http_Request_Safety Http_Url
begin

text \<open>
  What a request means: the text of a request, written by the rules of HTTP, is read back as its
  method, path, version, headers, cookies, parameters and body.
\<close>

section \<open>Lines\<close>

definition eol :: bytes where
  "eol = [CHR 0x0D, CHR 0x0A]"

lemma read_line_eol:
  assumes "CHR 0x0A \<notin> set l" "int (length l) + 2 \<le> n"
  shows "read_line n (l @ eol @ s) = (l @ eol, s)"
proof -
  have "takeWhile (\<lambda>c. c \<noteq> CHR 0x0A) (l @ eol @ s) = l @ [CHR 0x0D]"
    using assms(1) by (auto simp: eol_def takeWhile_append)
  then have "line_length (l @ eol @ s) = length l + 2" by (simp add: line_length_def eol_def)
  then show ?thesis using assms(2) by (simp add: read_line_def Let_def eol_def)
qed

lemma trimmed_eol:
  assumes "tight l"
  shows "trimmed (l @ eol) = l"
proof -
  have "ltrim (l @ eol) = (if l = [] then [] else l @ eol)"
    using assms by (cases l) (auto simp: ltrim_def eol_def is_space_def tight_def)
  moreover have "ltrim (rev (l @ eol)) = ltrim (rev l)"
    by (simp add: ltrim_def eol_def is_space_def)
  moreover have "rev (ltrim (rev l)) = l"
    using assms by (cases l rule: rev_cases) (auto simp: ltrim_def tight_def)
  ultimately show ?thesis by (simp add: trimmed_def ltrim_def)
qed

text \<open>A line that is read in full, with what it does to the size.\<close>

lemma limit_reads_line:
  assumes "tight l" "CHR 0x0A \<notin> set l" "0 \<le> rq_currentSize r"
    "rq_currentSize r + bsize (l @ eol @ s) \<le> rq_maxSize r" "rq_maxSize r < 2 ^ 31 - 1"
  shows "read_line (i32 (rq_maxSize r - rq_currentSize r + 1)) (l @ eol @ s) = (l @ eol, s)"
    "trimmed (l @ eol) = l" "i32 (rq_currentSize r + bsize l) = rq_currentSize r + bsize l"
proof -
  have e: "bsize eol = 2" "0 \<le> bsize s" "0 \<le> bsize l" by (simp_all add: eol_def bsize_def)
  have "i32 (rq_maxSize r - rq_currentSize r + 1) = rq_maxSize r - rq_currentSize r + 1"
    using assms(3-5) e by (intro i32_id) (simp add: in_i32_def)
  moreover have "int (length l) + 2 \<le> rq_maxSize r - rq_currentSize r + 1"
    using assms(4) e by (simp add: bsize_def)
  ultimately show "read_line (i32 (rq_maxSize r - rq_currentSize r + 1)) (l @ eol @ s) = (l @ eol, s)"
    using assms(2) by (simp add: read_line_eol)
  show "trimmed (l @ eol) = l" using assms(1) by (rule trimmed_eol)
  show "i32 (rq_currentSize r + bsize l) = rq_currentSize r + bsize l"
    using assms(3-5) e by (intro i32_id) (simp add: in_i32_def)
qed

section \<open>The text of a request\<close>

definition header_text :: "bytes \<times> bytes \<Rightarrow> bytes" where
  "header_text h = fst h @ '': '' @ snd h"

definition header_lines :: "(bytes \<times> bytes) list \<Rightarrow> bytes" where
  "header_lines hs = concat (map (\<lambda>h. header_text h @ eol) hs)"

definition request_line :: "bytes \<Rightarrow> bytes \<Rightarrow> bytes \<Rightarrow> bytes" where
  "request_line m p v = join_with '' '' [m, p, v]"

definition request_text :: "bytes \<Rightarrow> bytes \<Rightarrow> bytes \<Rightarrow> (bytes \<times> bytes) list \<Rightarrow> bytes \<Rightarrow> bytes" where
  "request_text m p v hs body = request_line m p v @ eol @ header_lines hs @ eol @ body"

text \<open>A word of the request line: not empty and without white space.\<close>

definition word_text :: "bytes \<Rightarrow> bool" where
  "word_text w \<longleftrightarrow> w \<noteq> [] \<and> (\<forall>c \<in> set w. \<not> is_space c)"

definition good_header :: "bytes \<times> bytes \<Rightarrow> bool" where
  "good_header h \<longleftrightarrow> fst h \<noteq> [] \<and> snd h \<noteq> [] \<and> tight (fst h) \<and> tight (snd h) \<and>
     CHR '':'' \<notin> set (fst h) \<and> CHR 0x0A \<notin> set (fst h) \<and> CHR 0x0A \<notin> set (snd h)"

definition header_map :: "(bytes \<times> bytes) list \<Rightarrow> (bytes \<times> bytes) list \<Rightarrow> (bytes \<times> bytes) list" where
  "header_map hs m = fold (\<lambda>(k, v). mm_insert k v) hs m"

lemma spaces [simp]: "is_space (CHR '' '')" "is_space (CHR 0x0A)" "is_space (CHR 0x0D)"
  by (simp_all add: is_space_def)

lemma word_text_tight: "word_text w \<Longrightarrow> tight w \<and> CHR '' '' \<notin> set w \<and> CHR 0x0A \<notin> set w \<and> w \<noteq> []"
  using spaces by (auto simp: word_text_def tight_def)

lemma request_line_facts:
  assumes "word_text m" "word_text p" "word_text v"
  shows "tight (request_line m p v)" "CHR 0x0A \<notin> set (request_line m p v)"
    "split_on (CHR '' '') (request_line m p v) = [m, p, v]" "request_line m p v \<noteq> []"
proof -
  note w = assms [THEN word_text_tight]
  show "split_on (CHR '' '') (request_line m p v) = [m, p, v]"
    unfolding request_line_def using w by (intro split_join) auto
  show "tight (request_line m p v)" "CHR 0x0A \<notin> set (request_line m p v)" "request_line m p v \<noteq> []"
    using w by (auto simp: request_line_def tight_def)
qed

lemma header_text_facts:
  assumes "good_header h"
  shows "tight (header_text h)" "CHR 0x0A \<notin> set (header_text h)" "header_text h \<noteq> []"
    "indexOf (header_text h) (CHR '':'') = int (length (fst h))" "0 < int (length (fst h))"
    "bleft (header_text h) (int (length (fst h))) = fst h"
    "trimmed (bmid (header_text h) (int (length (fst h)) + 1)) = snd h"
proof -
  have "header_text h = fst h @ CHR '':'' # CHR '' '' # snd h" by (simp add: header_text_def)
  then show "indexOf (header_text h) (CHR '':'') = int (length (fst h))"
    "bleft (header_text h) (int (length (fst h))) = fst h"
    "trimmed (bmid (header_text h) (int (length (fst h)) + 1)) = snd h"
    using assms by (simp_all add: good_header_def indexOf_append bleft_def bmid_def nat_add_distrib trimmed_blank)
  show "tight (header_text h)" "CHR 0x0A \<notin> set (header_text h)" "header_text h \<noteq> []" "0 < int (length (fst h))"
    using assms by (auto simp: good_header_def tight_def header_text_def)
qed

section \<open>Reading it\<close>

lemma readRequest_text:
  assumes "word_text m" "word_text p" "word_text v" "contains_sub v ''HTTP''"
    "0 \<le> rq_currentSize r" "rq_currentSize r + bsize (request_line m p v @ eol @ s) \<le> rq_maxSize r"
    "rq_maxSize r < 2 ^ 31 - 1"
  shows "readRequest r (request_line m p v @ eol @ s) =
    (r\<lparr>rq_currentSize := rq_currentSize r + bsize (request_line m p v), rq_method := m, rq_path := p,
       rq_version := v, rq_status := waitForHeader\<rparr>, s)"
proof -
  note q = request_line_facts [OF assms(1-3)]
  note l = limit_reads_line [OF q(1,2) assms(5-7)]
  show ?thesis
    unfolding readRequest_def Let_def l prod.case using q(3,4) assms(4) by simp
qed

lemma readHeader_text:
  assumes "good_header h" "0 \<le> rq_currentSize r"
    "rq_currentSize r + bsize (header_text h @ eol @ s) \<le> rq_maxSize r" "rq_maxSize r < 2 ^ 31 - 1"
  shows "readHeader r (header_text h @ eol @ s) =
    (r\<lparr>rq_currentSize := rq_currentSize r + bsize (header_text h), rq_currentHeader := fst h,
       rq_headers := mm_insert (fst h) (snd h) (rq_headers r)\<rparr>, s)"
proof -
  note q = header_text_facts [OF assms(1)]
  note l = limit_reads_line [OF q(1,2) assms(2-4)]
  show ?thesis
    unfolding readHeader_def Let_def l prod.case q using q(5) by (simp add: header_line_def Let_def q)
qed

lemma readHeader_end:
  assumes "0 \<le> rq_currentSize r" "rq_currentSize r + bsize (eol @ s) \<le> rq_maxSize r" "rq_maxSize r < 2 ^ 31 - 1"
  shows "readHeader r (eol @ s) = (headers_end r, s)"
proof -
  have t: "tight []" "CHR 0x0A \<notin> set []" by (simp_all add: tight_def)
  have "rq_currentSize r + bsize ([] @ eol @ s) \<le> rq_maxSize r" using assms(2) by simp
  note l = limit_reads_line [OF t assms(1) this assms(3), simplified]
  show ?thesis
    unfolding readHeader_def Let_def l prod.case by (simp add: indexOf_def l)
qed

lemma read_loop_step:
  assumes "s \<noteq> []" "rq_status r \<notin> {complete, abort}" "readFromSocket peer r s = Done (r', s')"
  shows "read_loop (Suc n) peer r s = read_loop n peer r' s'"
  using assms by (subst read_loop.simps) auto

lemma finish_step_waiting:
  "rq_currentSize r \<le> rq_maxSize r \<Longrightarrow> rq_status r \<noteq> complete \<Longrightarrow> finish_step r = r"
  by (simp add: finish_step_def)

definition header_sizes :: "(bytes \<times> bytes) list \<Rightarrow> int" where
  "header_sizes hs = (\<Sum>h\<leftarrow>hs. bsize (header_text h))"

lemma header_lines_Cons: "header_lines (h # hs) = header_text h @ eol @ header_lines hs"
  by (simp add: header_lines_def)

lemma eol_size [simp]: "bsize eol = 2" "eol \<noteq> []"
  by (simp_all add: eol_def bsize_def)

definition after_headers :: "(bytes \<times> bytes) list \<Rightarrow> HttpRequest \<Rightarrow> HttpRequest" where
  "after_headers hs r =
     r\<lparr>rq_currentSize := rq_currentSize r + header_sizes hs,
       rq_currentHeader := (if hs = [] then rq_currentHeader r else fst (last hs)),
       rq_headers := header_map hs (rq_headers r)\<rparr>"

lemma read_headers:
  "\<forall>h \<in> set hs. good_header h \<Longrightarrow> rq_status r = waitForHeader \<Longrightarrow> rq_source r = peer \<Longrightarrow>
    0 \<le> rq_currentSize r \<Longrightarrow> rq_currentSize r + bsize (header_lines hs @ eol @ body) \<le> rq_maxSize r \<Longrightarrow>
    rq_maxSize r < 2 ^ 31 - 1 \<Longrightarrow>
    read_loop (length hs + n) peer r (header_lines hs @ eol @ body) =
      read_loop n peer (after_headers hs r) (eol @ body)"
proof (induction hs arbitrary: r)
  case Nil
  then show ?case by (simp add: header_lines_def after_headers_def header_sizes_def header_map_def)
next
  case (Cons h hs)
  let ?s = "header_lines hs @ eol @ body"
  let ?r = "r\<lparr>rq_currentSize := rq_currentSize r + bsize (header_text h), rq_currentHeader := fst h,
       rq_headers := mm_insert (fst h) (snd h) (rq_headers r)\<rparr>"
  have sz: "rq_currentSize r + bsize (header_text h @ eol @ ?s) \<le> rq_maxSize r" "good_header h"
    using Cons.prems by (simp_all add: header_lines_Cons)
  have p: "0 \<le> bsize ?s" "0 \<le> bsize (header_text h)" by (simp_all add: bsize_def)
  have up: "r\<lparr>rq_source := peer\<rparr> = r" using Cons.prems(3) by (simp add: HttpRequest.equality)
  have "readFromSocket peer r (header_text h @ eol @ ?s) = Done (finish_step ?r, ?s)"
    using readHeader_text [OF sz(2) Cons.prems(4) sz(1) Cons.prems(6)] Cons.prems(2)
    by (simp add: readFromSocket_def Let_def up)
  also have "finish_step ?r = ?r"
    using sz(1) p Cons.prems(2) by (intro finish_step_waiting) simp_all
  finally have "read_loop (Suc (length hs + n)) peer r (header_text h @ eol @ ?s) = read_loop (length hs + n) peer ?r ?s"
    using Cons.prems(2) by (intro read_loop_step) (simp_all add: eol_def)
  also have "\<dots> = read_loop n peer (after_headers hs ?r) (eol @ body)"
    by (rule Cons.IH) (use Cons.prems sz p in simp_all)
  also have "after_headers hs ?r = after_headers (h # hs) r"
    by (cases h) (simp add: after_headers_def header_sizes_def header_map_def)
  finally show ?case by (simp add: header_lines_Cons)
qed

text \<open>The headers describe the body: no multipart, and its length if there is one.\<close>

definition describes :: "(bytes \<times> bytes) list \<Rightarrow> bytes \<Rightarrow> bool" where
  "describes hm body \<longleftrightarrow>
     \<not> starts_with (qm_value [] hm ''Content-Type'') ''multipart/form-data'' \<and>
     (if body = [] then qm_value [] hm ''Content-Length'' = []
      else qm_value [] hm ''Content-Length'' = int_text 10 (int (length body)))"

lemma headers_end_text:
  assumes "describes (rq_headers r) body" "rq_boundary r = []" "rq_expectedBodySize r = 0"
    "0 \<le> rq_currentSize r" "rq_currentSize r + bsize body \<le> rq_maxSize r" "rq_maxSize r < 2 ^ 31 - 1"
  shows "headers_end r = r\<lparr>rq_expectedBodySize := bsize body, rq_status := if body = [] then complete else waitForBody\<rparr>"
proof -
  have b: "set_boundary r = r"
    using assms(1) by (simp add: set_boundary_def describes_def getHeader_def Let_def)
  have l: "0 \<le> bsize body" "in_i32 (bsize body)" "int_text 10 n \<noteq> []" for n
    using assms(4-6) by (auto simp: bsize_def in_i32_def int_text_def)
  have e: "set_expected r = r\<lparr>rq_expectedBodySize := bsize body\<rparr>"
  proof (cases "body = []")
    case True
    then show ?thesis using assms(1,3)
      by (simp add: set_expected_def describes_def getHeader_def HttpRequest.equality)
  next
    case False
    then show ?thesis using assms(1) l toInt_text [of "bsize body"]
      by (simp add: set_expected_def describes_def getHeader_def or_zero_def bsize_def)
  qed
  have "i32 (bsize body + rq_currentSize r) = bsize body + rq_currentSize r"
    using assms(4-6) l by (intro i32_id) (simp add: in_i32_def)
  then show ?thesis
    using assms(2,5) by (simp add: headers_end_def b e body_status_def bsize_def)
qed

lemma read_end:
  assumes "describes (rq_headers r) body" "rq_boundary r = []" "rq_expectedBodySize r = 0" "rq_bodyData r = []"
    "rq_status r = waitForHeader" "rq_source r = peer"
    "0 \<le> rq_currentSize r" "rq_currentSize r + bsize (eol @ body) \<le> rq_maxSize r" "rq_maxSize r < 2 ^ 31 - 1"
  shows "\<exists>k. read_loop (Suc (Suc n)) peer r (eol @ body) =
    Done (extractCookies (decodeRequestParams (r\<lparr>rq_expectedBodySize := bsize body, rq_bodyData := body,
      rq_status := complete, rq_currentSize := k\<rparr>)), [])"
proof -
  have h: "headers_end r = r\<lparr>rq_expectedBodySize := bsize body, rq_status := if body = [] then complete else waitForBody\<rparr>"
    using assms by (intro headers_end_text) simp_all
  have up: "r\<lparr>rq_source := peer\<rparr> = r" using assms(6) by (simp add: HttpRequest.equality)
  have one: "readFromSocket peer r (eol @ body) = Done (finish_step (headers_end r), body)"
    using readHeader_end [OF assms(7-9)] assms(5) by (simp add: readFromSocket_def Let_def up)
  have stopped: "read_loop k peer (extractCookies (decodeRequestParams q)) s = Done (extractCookies (decodeRequestParams q), s)"
    if "rq_status q = complete" for q s k
    using that by (subst read_loop.simps) (simp add: cookies_frame decode_frame)
  have sz: "rq_currentSize r \<le> rq_maxSize r" "0 \<le> bsize body" using assms(8) by (simp_all add: bsize_def)
  show ?thesis
  proof (cases "body = []")
    case True
    have e: "r\<lparr>rq_expectedBodySize := 0, rq_status := complete\<rparr> =
        r\<lparr>rq_expectedBodySize := 0, rq_bodyData := [], rq_status := complete\<rparr>"
      using assms(4) by (intro HttpRequest.equality) simp_all
    have "finish_step (headers_end r) = extractCookies (decodeRequestParams (r\<lparr>rq_expectedBodySize := bsize body,
        rq_bodyData := body, rq_status := complete, rq_currentSize := rq_currentSize r\<rparr>))"
      using sz True e by (simp add: h finish_step_def)
    then show ?thesis
      using read_loop_step [OF _ _ one, of "Suc n"] assms(5) stopped True by (intro exI [of _ "rq_currentSize r"]) simp
  next
    case False
    let ?q = "r\<lparr>rq_expectedBodySize := bsize body, rq_status := waitForBody\<rparr>"
    let ?z = "?q\<lparr>rq_currentSize := rq_currentSize r + bsize body, rq_bodyData := body, rq_status := complete\<rparr>"
    have f1: "finish_step (headers_end r) = ?q" using False sz by (simp add: h finish_step_waiting)
    have i: "i32 (bsize body) = bsize body" "i32 (rq_currentSize r + bsize body) = rq_currentSize r + bsize body"
      using assms(7-9) sz by (intro i32_id; simp add: in_i32_def)+
    have upq: "?q\<lparr>rq_source := peer\<rparr> = ?q"
      using assms(6) by (intro HttpRequest.equality) simp_all
    have "readFromSocket peer ?q body = Done (finish_step ?z, [])"
      unfolding readFromSocket_def Let_def upq
      using assms(2,4) i by (simp add: readBody_def read_bytes_def Let_def) (simp add: bsize_def)
    then have two: "read_loop (Suc n) peer ?q body = read_loop n peer (finish_step ?z) []"
      using False by (intro read_loop_step) simp_all
    have f2: "finish_step ?z = extractCookies (decodeRequestParams ?z)"
      using assms(8) by (simp add: finish_step_def)
    have eq: "?z = r\<lparr>rq_expectedBodySize := bsize body, rq_bodyData := body,
        rq_status := complete, rq_currentSize := rq_currentSize r + bsize body\<rparr>" by simp
    show ?thesis
      using read_loop_step [OF _ _ one, of "Suc n", unfolded f1] two [unfolded f2, unfolded eq]
        stopped [of ?z n "[]", unfolded eq] assms(5)
      by (intro exI [of _ "rq_currentSize r + bsize body"]) simp
  qed
qed

section \<open>The request as received\<close>

definition path_part :: "bytes \<Rightarrow> bytes" where
  "path_part p = takeWhile (\<lambda>c. c \<noteq> CHR ''?'') p"

definition query_part :: "bytes \<Rightarrow> bytes" where
  "query_part p = drop 1 (dropWhile (\<lambda>c. c \<noteq> CHR ''?'') p)"

text \<open>The parameters' text: the body if it is a form, else the query of the path.\<close>

definition is_form :: "(bytes \<times> bytes) list \<Rightarrow> bytes \<Rightarrow> bool" where
  "is_form hm body \<longleftrightarrow> body \<noteq> [] \<and>
     (let ct = qm_value [] hm ''Content-Type'' in
      ct = [] \<or> starts_with ct ''application/x-www-form-urlencoded'')"

definition parameters_of :: "bytes \<Rightarrow> (bytes \<times> bytes) list" where
  "parameters_of t = fold insert_parameter (split_on (CHR ''&'') t) []"

lemma split_url_parts:
  "split_url r = (r\<lparr>rq_path := path_part (rq_path r)\<rparr>, query_part (rq_path r))"
proof (cases "CHR ''?'' \<in> set (rq_path r)")
  case True
  then obtain a b where ab: "rq_path r = a @ CHR ''?'' # b" "CHR ''?'' \<notin> set a"
    by (meson split_list_first)
  then have "path_part (rq_path r) = a" "query_part (rq_path r) = b"
    by (auto simp: path_part_def query_part_def takeWhile_append dropWhile_append)
  then show ?thesis using ab by (simp add: split_url_def indexOf_append bleft_def bmid_def nat_add_distrib)
next
  case False
  then have *: "\<forall>c \<in> set (rq_path r). c \<noteq> CHR ''?''" by auto
  have "takeWhile (\<lambda>c. c \<noteq> CHR ''?'') (rq_path r) = rq_path r" "dropWhile (\<lambda>c. c \<noteq> CHR ''?'') (rq_path r) = []"
    unfolding takeWhile_eq_all_conv dropWhile_eq_Nil_conv using * by blast+
  then have "path_part (rq_path r) = rq_path r" "query_part (rq_path r) = []"
    by (simp_all only: path_part_def query_part_def drop_Nil)
  then show ?thesis using False by (simp add: split_url_def indexOf_def)
qed

lemma decode_parameters:
  assumes "rq_parameters r = []"
  shows "rq_parameters (decodeRequestParams r) =
    parameters_of (if is_form (rq_headers r) (rq_bodyData r) then rq_bodyData r else query_part (rq_path r))"
proof -
  have "parameters_of (CHR ''&'' # b) = parameters_of b" for b
    by (simp add: parameters_of_def insert_parameter_def indexOf_def)
  then show ?thesis
    using assms by (simp add: decodeRequestParams_def split_url_parts raw_parameters_def is_form_def getHeader_def
        Let_def parameters_of_def)
qed

lemma decode_fields:
  "rq_path (decodeRequestParams r) = path_part (rq_path r)" "rq_method (decodeRequestParams r) = rq_method r"
  "rq_version (decodeRequestParams r) = rq_version r" "rq_headers (decodeRequestParams r) = rq_headers r"
  "rq_cookies (decodeRequestParams r) = rq_cookies r" "rq_bodyData (decodeRequestParams r) = rq_bodyData r"
  by (simp_all add: decodeRequestParams_def split_url_parts)

text \<open>
  C8. A request is read as it was sent. For every request line, list of headers and body within
  the limit, the loop ends with the bytes used up and a complete request: its method, version
  and body, its path without the query, its headers but for the cookies, the cookies of all
  \<open>Cookie\<close> headers, and the parameters of the query, or of the body in its place if the body is
  a form.
\<close>

theorem request_read_as_sent:
  assumes "word_text m" "word_text p" "word_text v" "contains_sub v ''HTTP''" "\<forall>h \<in> set hs. good_header h"
    and hm: "hm = header_map hs []" "describes hm body"
    and lim: "bsize (request_text m p v hs body) \<le> M" "M < 2 ^ 31 - 1"
  shows "\<exists>r. read_loop (length hs + 3) peer (new_request M MM) (request_text m p v hs body) = Done (r, []) \<and>
    rq_status r = complete \<and> rq_method r = m \<and> rq_version r = v \<and> rq_bodyData r = body \<and>
    rq_path r = path_part p \<and> rq_headers r = qm_remove ''Cookie'' hm \<and>
    rq_cookies r = fold insert_cookies (mm_values hm ''Cookie'') [] \<and>
    rq_parameters r = parameters_of (if is_form hm body then body else query_part p)"
proof -
  let ?s = "header_lines hs @ eol @ body"
  let ?r0 = "new_request M MM\<lparr>rq_source := peer\<rparr>"
  let ?r1 = "?r0\<lparr>rq_currentSize := bsize (request_line m p v), rq_method := m, rq_path := p,
       rq_version := v, rq_status := waitForHeader\<rparr>"
  have nn: "0 \<le> bsize ?s" "0 \<le> bsize (request_line m p v)" by (simp_all add: bsize_def)
  have sz: "bsize (request_line m p v) + 2 + bsize ?s \<le> M" using lim(1) by (simp add: request_text_def)
  have "readRequest ?r0 (request_line m p v @ eol @ ?s) = (?r1, ?s)"
    using readRequest_text [OF assms(1-4), of ?r0 ?s] sz nn lim(2) by (simp add: new_request_def)
  then have "readFromSocket peer (new_request M MM) (request_line m p v @ eol @ ?s) = Done (finish_step ?r1, ?s)"
    by (simp add: readFromSocket_def Let_def new_request_def)
  also have "finish_step ?r1 = ?r1" using sz nn by (intro finish_step_waiting) (simp_all add: new_request_def)
  finally have "read_loop (Suc (length hs + 2)) peer (new_request M MM) (request_line m p v @ eol @ ?s) =
      read_loop (length hs + 2) peer ?r1 ?s"
    by (intro read_loop_step) (simp_all add: new_request_def)
  also have "\<dots> = read_loop 2 peer (after_headers hs ?r1) (eol @ body)"
    using assms(5) sz nn lim(2) by (intro read_headers) (simp_all add: new_request_def)
  finally have steps: "read_loop (length hs + 3) peer (new_request M MM) (request_text m p v hs body) =
      read_loop (Suc (Suc 0)) peer (after_headers hs ?r1) (eol @ body)"
    by (simp add: request_text_def numeral_2_eq_2 numeral_3_eq_3)
  have lines: "header_sizes hs \<le> bsize (header_lines hs)" "0 \<le> header_sizes hs"
    by (induction hs) (simp_all add: header_sizes_def header_lines_def bsize_ge0)
  have hdr: "rq_headers (after_headers hs ?r1) = hm" using hm(1) by (simp add: after_headers_def new_request_def)
  obtain k where k: "read_loop (Suc (Suc 0)) peer (after_headers hs ?r1) (eol @ body) =
    Done (extractCookies (decodeRequestParams ((after_headers hs ?r1)\<lparr>rq_expectedBodySize := bsize body,
      rq_bodyData := body, rq_status := complete, rq_currentSize := k\<rparr>)), [])"
    using read_end [of "after_headers hs ?r1" body peer 0] hm(2) hdr sz nn lim(2) lines
    by (auto simp: after_headers_def new_request_def)
  let ?q = "(after_headers hs ?r1)\<lparr>rq_expectedBodySize := bsize body, rq_bodyData := body,
      rq_status := complete, rq_currentSize := k\<rparr>"
  have "rq_headers ?q = hm" "rq_parameters ?q = []" "rq_cookies ?q = []" "rq_path ?q = p" "rq_method ?q = m"
    "rq_version ?q = v" "rq_bodyData ?q = body" "rq_status ?q = complete"
    using hdr by (simp_all add: after_headers_def new_request_def)
  then show ?thesis
    using steps k decode_parameters [of ?q]
    by (intro exI [of _ "extractCookies (decodeRequestParams ?q)"])
      (simp add: extractCookies_def decode_fields decode_frame)
qed

theorem request_read_as_sent_witness:
  "\<exists>r. read_loop 4 7 (new_request 16000 1000000) (request_text ''GET'' ''/a?k=v'' ''HTTP/1.1'' [(''Host'', ''x'')] []) = Done (r, []) \<and>
    rq_status r = complete \<and> rq_method r = ''GET'' \<and> rq_version r = ''HTTP/1.1'' \<and> rq_bodyData r = [] \<and>
    rq_path r = ''/a'' \<and> rq_headers r = [(''Host'', ''x'')] \<and> rq_cookies r = [] \<and>
    rq_parameters r = [(''k'', ''v'')]"
proof -
  have g: "word_text ''GET''" "word_text ''/a?k=v''" "word_text ''HTTP/1.1''" "contains_sub ''HTTP/1.1'' ''HTTP''"
    "\<forall>h \<in> set [(''Host'', ''x'')]. good_header h"
    by (simp_all add: word_text_def is_space_def contains_sub_def starts_with_def good_header_def tight_def)
  have hm: "[(''Host'', ''x'')] = header_map [(''Host'', ''x'')] []" "describes [(''Host'', ''x'')] []"
    by (simp_all add: header_map_def describes_def qm_value_def starts_with_def)
  have lim: "bsize (request_text ''GET'' ''/a?k=v'' ''HTTP/1.1'' [(''Host'', ''x'')] []) \<le> 16000" "(16000::int) < 2 ^ 31 - 1"
    by (simp_all add: request_text_def request_line_def header_lines_def header_text_def bsize_def eol_def)
  have "parameters_of ''k=v'' = [(''k'', ''v'')]"
    by (simp add: parameters_of_def insert_parameter_def indexOf_def bleft_def bmid_def urlDecode_pass plus_blank_def
        trimmed_def ltrim_def is_space_def)
  then show ?thesis
    using request_read_as_sent [OF g hm lim, of 7 1000000]
    by (simp add: path_part_def query_part_def is_form_def qm_remove_def mm_values_def)
qed

section \<open>Parameters\<close>

definition form_text :: "(bytes \<times> bytes) list \<Rightarrow> bytes" where
  "form_text ps = join_with ''&'' (map (\<lambda>(k, v). percent_encode k @ ''='' @ percent_encode v) ps)"

lemma percent_encode_chars:
  assumes "c \<in> set (percent_encode s)"
  shows "c \<notin> {CHR ''&'', CHR ''='', CHR ''?''}" "\<not> is_space c"
proof -
  obtain x where "c \<in> set (percent_char x)" using assms by (auto simp: percent_encode_def)
  then have c: "c = CHR ''%'' \<or> unreserved c \<or> c = digit_char (of_char x div 16) \<or> c = digit_char (of_char x mod 16)"
    by (auto simp: percent_char_def split: if_splits)
  have "(of_char x :: nat) < 256" by simp
  then have "(of_char x :: nat) div 16 < 16" "(of_char x :: nat) mod 16 < 16"
    by (simp_all add: less_mult_imp_div_less)
  note h = hex_digit_plain [OF this(1)] hex_digit_plain [OF this(2)]
  show "c \<notin> {CHR ''&'', CHR ''='', CHR ''?''}" "\<not> is_space c"
    using c h unreserved_plain by (auto simp: is_space_def)
qed

lemma percent_encode_tight: "tight (percent_encode s)"
  using percent_encode_chars(2) [of _ s] by (auto simp: tight_def)

lemma insert_parameter_encoded:
  "insert_parameter (percent_encode k @ CHR ''='' # percent_encode v) m = mm_insert k v m"
proof -
  have "CHR ''='' \<notin> set (percent_encode k)" using percent_encode_chars(1) [of "CHR ''=''" k] by auto
  then show ?thesis
    by (simp add: insert_parameter_def indexOf_append bleft_def bmid_def nat_add_distrib trimmed_id
        percent_encode_tight urlDecode_pass percent_encode_plus decode_percent_encode)
qed

text \<open>
  C9. Parameters arrive as they were encoded: for every list of names and values, of any bytes,
  the form text of the list, as a query or as a body, gives exactly these parameters, the
  later value of a name first.
\<close>

theorem parameters_of_form_text: "parameters_of (form_text ps) = fold (\<lambda>(k, v). mm_insert k v) ps []"
proof (cases "ps = []")
  case True
  then show ?thesis by (simp add: form_text_def parameters_of_def insert_parameter_def indexOf_def)
next
  case False
  have "split_on (CHR ''&'') (form_text ps) = map (\<lambda>(k, v). percent_encode k @ ''='' @ percent_encode v) ps"
    unfolding form_text_def using False percent_encode_chars(1) by (intro split_join) fastforce+
  moreover have "fold insert_parameter (map (\<lambda>(k, v). percent_encode k @ ''='' @ percent_encode v) ps) m =
      fold (\<lambda>(k, v). mm_insert k v) ps m" for m
    by (induction ps arbitrary: m) (auto simp: insert_parameter_encoded)
  ultimately show ?thesis by (simp add: parameters_of_def)
qed

section \<open>What goes wrong\<close>

text \<open>
  An upload without data crashes the server: when the boundary line follows the headers of
  a file part at once, no file was opened for the part, and its end works on a null pointer.
\<close>

theorem empty_upload_faults:
  assumes "fieldName \<noteq> []" "fileName \<noteq> []" "starts_with (fst (read_line 65536 rest)) (''--'' @ rq_boundary r)"
  shows "part_body rest r fieldName fileName None [] = Fault"
proof -
  have "rest \<noteq> []" using assms(3) by (auto simp: read_line_def starts_with_def)
  then show ?thesis using assms by (simp add: part_body.simps [of rest] Let_def end_part_def)
qed

theorem empty_upload_faults_witness:
  "part_body (''--b--'' @ eol) (new_request 10 10\<lparr>rq_boundary := ''b''\<rparr>) ''f'' ''x.torrent'' None [] = Fault"
  by (rule empty_upload_faults)
    (simp_all add: read_line_def line_length_def eol_def starts_with_def new_request_def)

text \<open>
  A request that arrives in pieces is refused: the reader takes whatever bytes are there for
  a whole line, so a first piece that holds only the method aborts the request.
\<close>

theorem fragment_aborts:
  assumes "word_text m" "bsize m \<le> M" "M < 2 ^ 31 - 1"
  shows "\<exists>r. readFromSocket peer (new_request M MM) m = Done (r, []) \<and> rq_status r = abort"
proof -
  note w = word_text_tight [OF assms(1)]
  have i: "i32 (M + 1) = M + 1" "i32 (bsize m) = bsize m"
    using assms(2,3) bsize_ge0 [of m] by (intro i32_id; simp add: in_i32_def)+
  have "\<forall>c \<in> set m. c \<noteq> CHR 0x0A" using w by blast
  then have tw: "takeWhile (\<lambda>c. c \<noteq> CHR 0x0A) m = m" unfolding takeWhile_eq_all_conv .
  have len: "line_length m = length m" unfolding line_length_def tw using w by simp
  have "read_line (M + 1) m = (m, [])"
    using assms(2) bsize_ge0 [of m] by (simp add: read_line_def len bsize_def)
  moreover have "trimmed m = m" "split_on (CHR '' '') m = [m]"
    using w by (simp_all add: trimmed_id split_on_none)
  ultimately have "readRequest (new_request M MM\<lparr>rq_source := peer\<rparr>) m =
      (new_request M MM\<lparr>rq_source := peer, rq_currentSize := bsize m, rq_status := abort\<rparr>, [])"
    using w i by (simp add: readRequest_def new_request_def)
  then show ?thesis by (simp add: readFromSocket_def Let_def new_request_def finish_step_status)
qed

theorem fragment_aborts_witness:
  "\<exists>r. readFromSocket 7 (new_request 16000 1000000) ''GET'' = Done (r, []) \<and> rq_status r = abort"
  by (rule fragment_aborts) (simp_all add: word_text_def is_space_def bsize_def)

text \<open>
  The check of the announced length wraps: the largest length an \<open>int\<close> holds passes it, however
  small the limit.
\<close>

lemma huge_length_accepted:
  assumes "rq_boundary r = []" "rq_expectedBodySize r = 2 ^ 31 - 1" "1 \<le> rq_currentSize r"
    "rq_currentSize r < 2 ^ 31" "0 \<le> rq_maxSize r"
  shows "body_status r = waitForBody"
proof -
  have "i32 (rq_expectedBodySize r + rq_currentSize r) = rq_expectedBodySize r + rq_currentSize r - 2 ^ 32"
    using assms by (intro i32_wrap) simp_all
  then show ?thesis using assms by (simp add: body_status_def)
qed

end
