(* ===== verification/Http_Auth.thy ===== *)
theory Http_Auth
  imports Http_Request Http_Response
begin

text \<open>
  The digest authentication of \<open>http/httprequesthandler.cpp\<close>. The hash function is an argument;
  strings are byte strings.
\<close>

section \<open>The handler\<close>

record account =
  ac_requireAuth :: bool
  ac_username :: bytes
  ac_password :: bytes

text \<open>The handler's own \<open>service\<close>, for a class that does not override it.\<close>

definition default_service :: "HttpRequest \<Rightarrow> HttpResponse \<Rightarrow> HttpResponse" where
  "default_service request response =
     write_part (setStatus 501 ''not implemented'' response) ''501 not implemented'' True"

definition no_quotes :: "bytes \<Rightarrow> bytes" where
  "no_quotes s = replace_char (CHR 0x22) [] s"

text \<open>
  One part of the header: with exactly one equals sign both sides are trimmed, otherwise the
  key is taken as it is and the rest is joined again.
\<close>

definition auth_pair :: "bytes \<Rightarrow> bytes \<times> bytes" where
  "auth_pair part =
     (let keyValue = split_on (CHR ''='') part in
      if length keyValue = 2 then (trimmed (keyValue ! 0), no_quotes (trimmed (keyValue ! 1)))
      else (keyValue ! 0, no_quotes (join_with ''='' (tl keyValue))))"

definition auth_params :: "bytes \<Rightarrow> (bytes \<times> bytes) list" where
  "auth_params autorization =
     (let m = hd (split_on (CHR '' '') autorization);
          parametrs = drop (length m) autorization
      in fold (\<lambda>part. case auth_pair part of (k, v) \<Rightarrow> qm_insert k v) (split_on (CHR '','') parametrs) [])"

definition digest_response :: "(bytes \<Rightarrow> bytes) \<Rightarrow> bytes \<Rightarrow> bytes \<Rightarrow> (bytes \<Rightarrow> bytes) \<Rightarrow> bytes" where
  "digest_response md5 password reqMethod v =
     (let HA1 = md5 (v ''username'' @ '':'' @ v ''realm'' @ '':'' @ password);
          HA2 = md5 (reqMethod @ '':'' @ v ''uri'')
      in to_hex (md5 (to_hex HA1 @ '':'' @ v ''nonce'' @ '':'' @ v ''nc'' @ '':'' @ v ''cnonce'' @ '':''
           @ v ''qop'' @ '':'' @ to_hex HA2)))"

definition digest_challenge :: bytes where
  "digest_challenge =
     (let q = [CHR 0x22] in ''Digest realm='' @ q @ ''realm@host.com'' @ q @ '',qop='' @ q @ ''auth,auth-int'' @ q
        @ '',nonce='' @ q @ ''dcd98b7102dd2f0e8b11d0f600bfb0c093'' @ q
        @ '',opaque='' @ q @ ''5ccc069c403ebaf9f0171e9517f40e41'' @ q)"

definition unauthorized :: "HttpResponse \<Rightarrow> HttpResponse" where
  "unauthorized r =
     write_part (setHeader ''WWW-Authenticate'' digest_challenge (setStatus 401 ''Unauthorized'' r))
       ''<BODY><H1>401 Unauthorized.</H1></BODY>'' False"

definition CheckCreditinals :: "(bytes \<Rightarrow> bytes) \<Rightarrow> account \<Rightarrow> HttpRequest \<Rightarrow> HttpResponse \<Rightarrow> HttpResponse \<times> bool" where
  "CheckCreditinals md5 acc request response =
     (if ac_requireAuth acc then
        (let autorization = getHeader request ''Authorization'' in
         if autorization = [] then
           (setHeader ''WWW-Authenticate'' digest_challenge (setStatus 401 ''Not authoriarised'' response), False)
         else
           (let v = qm_value [] (auth_params autorization) in
            if v ''username'' \<noteq> ac_username acc then (unauthorized response, False)
            else if digest_response md5 (ac_password acc) (rq_method request) v \<noteq> v ''response''
            then (unauthorized response, False)
            else (response, True)))
      else (response, True))"

section \<open>A client's header\<close>

text \<open>The values of a client, quoted and listed after the word \<open>Digest\<close>.\<close>

definition field_text :: "bytes \<times> bytes \<Rightarrow> bytes" where
  "field_text f = '' '' @ fst f @ ''='' @ [CHR 0x22] @ snd f @ [CHR 0x22]"

definition client_header :: "(bytes \<times> bytes) list \<Rightarrow> bytes" where
  "client_header fs = ''Digest'' @ join_with '','' (map field_text fs)"

definition key_text :: "bytes \<Rightarrow> bool" where
  "key_text k \<longleftrightarrow> k \<noteq> [] \<and> tight k \<and> CHR ''='' \<notin> set k \<and> CHR '','' \<notin> set k \<and> CHR 0x22 \<notin> set k"

definition value_text :: "bytes \<Rightarrow> bool" where
  "value_text v \<longleftrightarrow> CHR '','' \<notin> set v \<and> CHR 0x22 \<notin> set v"

lemma no_quotes_simps [simp]:
  "no_quotes [] = []" "no_quotes (c # s) = (if c = CHR 0x22 then no_quotes s else c # no_quotes s)"
  "no_quotes (s @ t) = no_quotes s @ no_quotes t"
  by (simp_all add: no_quotes_def)

lemma no_quotes_id: "CHR 0x22 \<notin> set s \<Longrightarrow> no_quotes s = s"
  by (induction s) auto

lemma quoted_tight: "tight ([CHR 0x22] @ v @ [CHR 0x22])"
  by (simp add: tight_def is_space_def)

lemma key_blank: "key_text k \<Longrightarrow> trimmed (CHR '' '' # k) = k"
  by (simp add: trimmed_blank key_text_def)

lemma auth_pair_field:
  assumes "key_text k" "value_text v" "CHR ''='' \<notin> set v"
  shows "auth_pair (field_text (k, v)) = (k, v)"
proof -
  have s: "split_on (CHR ''='') (field_text (k, v)) = [CHR '' '' # k, CHR 0x22 # v @ [CHR 0x22]]"
    using assms split_on_append [of "CHR ''=''" "CHR '' '' # k" "CHR 0x22 # v @ [CHR 0x22]"]
    by (simp add: field_text_def key_text_def split_on_none)
  have t: "trimmed (CHR 0x22 # v @ [CHR 0x22]) = CHR 0x22 # v @ [CHR 0x22]"
    using trimmed_id [OF quoted_tight [of v]] by simp
  show ?thesis
    using assms by (simp add: auth_pair_def s t key_blank no_quotes_id value_text_def)
qed

text \<open>With an equals sign in the value, the key keeps the blank before it.\<close>

lemma split_on_length: "length (split_on c s) = Suc (length (filter (\<lambda>x. x = c) s))"
  by (induction s) (auto split: list.splits)

lemma auth_pair_equals:
  assumes "key_text k" "value_text v" "CHR ''='' \<in> set v"
  shows "fst (auth_pair (field_text (k, v))) = CHR '' '' # k"
proof -
  let ?t = "CHR 0x22 # v @ [CHR 0x22]"
  have s: "split_on (CHR ''='') (field_text (k, v)) = (CHR '' '' # k) # split_on (CHR ''='') ?t"
    using assms(1) split_on_append [of "CHR ''=''" "CHR '' '' # k" ?t]
    by (simp add: field_text_def key_text_def)
  have "filter (\<lambda>x. x = CHR ''='') v \<noteq> []" using assms(3) by (auto simp: filter_empty_conv)
  then have "length (split_on (CHR ''='') ?t) \<noteq> 1" unfolding split_on_length by simp
  then show ?thesis by (simp add: auth_pair_def s Let_def)
qed

lemma auth_params_header:
  assumes "fs \<noteq> []" "\<forall>(k, v) \<in> set fs. key_text k \<and> value_text v"
  shows "auth_params (client_header fs) = fold (\<lambda>f. case auth_pair (field_text f) of (k, v) \<Rightarrow> qm_insert k v) fs []"
proof -
  obtain f gs where f: "fs = f # gs" using assms(1) by (cases fs) auto
  have "hd (split_on (CHR '' '') (client_header fs)) = ''Digest''"
    using split_on_append [of "CHR '' ''" "''Digest''"]
    by (cases gs) (simp_all add: client_header_def f field_text_def)
  then have d: "drop (length (hd (split_on (CHR '' '') (client_header fs)))) (client_header fs) = join_with '','' (map field_text fs)"
    by (simp add: client_header_def)
  have "split_on (CHR '','') (join_with '','' (map field_text fs)) = map field_text fs"
    using assms by (intro split_join) (auto simp: field_text_def key_text_def value_text_def)
  then show ?thesis unfolding auth_params_def Let_def d by (simp add: fold_map comp_def)
qed

text \<open>The fields a browser sends, in its order.\<close>

definition client_fields :: "bytes \<Rightarrow> bytes \<Rightarrow> bytes \<Rightarrow> bytes \<Rightarrow> bytes \<Rightarrow> bytes \<Rightarrow> bytes \<Rightarrow> bytes \<Rightarrow> (bytes \<times> bytes) list" where
  "client_fields u realm nonce uri qop nc cnonce resp =
     [(''username'', u), (''realm'', realm), (''nonce'', nonce), (''uri'', uri), (''qop'', qop), (''nc'', nc),
      (''cnonce'', cnonce), (''response'', resp)]"

lemma field_keys:
  "key_text ''username''" "key_text ''realm''" "key_text ''nonce''" "key_text ''uri''" "key_text ''qop''"
  "key_text ''nc''" "key_text ''cnonce''" "key_text ''response''"
  by (simp_all add: key_text_def tight_def is_space_def)

definition simple_value :: "bytes \<Rightarrow> bool" where
  "simple_value v \<longleftrightarrow> value_text v \<and> CHR ''='' \<notin> set v"

lemma to_hex_simple: "simple_value (to_hex s)"
proof -
  have d: "digit_char d \<notin> {CHR '','', CHR 0x22, CHR ''=''}" if "d < 16" for d
  proof -
    have "char_digit (digit_char d) = Some d" using that by (simp add: char_digit_char)
    then show ?thesis by (auto simp: char_digit_def)
  qed
  have "x \<notin> {CHR '','', CHR 0x22, CHR ''=''}" if x: "x \<in> set (to_hex s)" for x
  proof -
    obtain c where "x = digit_char (of_char c div 16) \<or> x = digit_char (of_char c mod 16)"
      using x by (auto simp: to_hex_def)
    moreover have "(of_char c :: nat) < 256" by simp
    then have "(of_char c :: nat) div 16 < 16" "(of_char c :: nat) mod 16 < 16"
      by (simp_all add: less_mult_imp_div_less)
    ultimately show ?thesis using d by metis
  qed
  then show ?thesis unfolding simple_value_def value_text_def by blast
qed

lemma client_params:
  assumes "\<forall>v \<in> set [u, realm, nonce, qop, nc, cnonce, resp]. simple_value v" "value_text uri"
  defines "m \<equiv> auth_params (client_header (client_fields u realm nonce uri qop nc cnonce resp))"
  shows "qm_value [] m ''username'' = u" "qm_value [] m ''realm'' = realm" "qm_value [] m ''nonce'' = nonce"
    "qm_value [] m ''qop'' = qop" "qm_value [] m ''nc'' = nc" "qm_value [] m ''cnonce'' = cnonce"
    "qm_value [] m ''response'' = resp"
    "qm_value [] m ''uri'' = (if CHR ''='' \<in> set uri then [] else uri)"
proof -
  let ?fs = "client_fields u realm nonce uri qop nc cnonce resp"
  have sv: "value_text v \<and> CHR ''='' \<notin> set v" if "v \<in> set [u, realm, nonce, qop, nc, cnonce, resp]" for v
    using assms(1) that by (auto simp: simple_value_def)
  have "\<forall>(k, v) \<in> set ?fs. key_text k \<and> value_text v"
    using sv assms(2) field_keys by (simp add: client_fields_def)
  then have m: "m = fold (\<lambda>f. case auth_pair (field_text f) of (k, v) \<Rightarrow> qm_insert k v) ?fs []"
    unfolding m_def by (intro auth_params_header) (simp add: client_fields_def)
  obtain ku vu where uri: "auth_pair (field_text (''uri'', uri)) = (ku, vu)" by force
  have ku: "(ku, vu) = (''uri'', uri) \<and> CHR ''='' \<notin> set uri \<or> ku = '' uri'' \<and> CHR ''='' \<in> set uri"
    using auth_pair_field [OF field_keys(4) assms(2)] auth_pair_equals [OF field_keys(4) assms(2)] uri
    by (cases "CHR ''='' \<in> set uri") simp_all
  have pairs: "map (\<lambda>f. auth_pair (field_text f)) ?fs =
    [(''username'', u), (''realm'', realm), (''nonce'', nonce), (ku, vu), (''qop'', qop), (''nc'', nc),
      (''cnonce'', cnonce), (''response'', resp)]"
    using sv field_keys by (simp add: client_fields_def auth_pair_field uri)
  have "m = fold (\<lambda>(k, v). qm_insert k v) (map (\<lambda>f. auth_pair (field_text f)) ?fs) []"
    unfolding m fold_map by (simp add: comp_def)
  then have mp: "qm_get m = map_of (rev (map (\<lambda>f. auth_pair (field_text f)) ?fs))"
    using qm.look_fold_ins [OF qm_ok_Nil, of "map (\<lambda>f. auth_pair (field_text f)) ?fs"]
    by (simp only: map_of.simps empty_map_add)
  have g: "qm_get m = map_of (rev [(''username'', u), (''realm'', realm), (''nonce'', nonce), (ku, vu), (''qop'', qop),
      (''nc'', nc), (''cnonce'', cnonce), (''response'', resp)])"
    using mp unfolding pairs .
  have k: "ku \<noteq> ''username''" "ku \<noteq> ''realm''" "ku \<noteq> ''nonce''" "ku \<noteq> ''qop''" "ku \<noteq> ''nc''" "ku \<noteq> ''cnonce''"
    "ku \<noteq> ''response''"
    using ku by auto
  show "qm_value [] m ''username'' = u" "qm_value [] m ''realm'' = realm" "qm_value [] m ''nonce'' = nonce"
    "qm_value [] m ''qop'' = qop" "qm_value [] m ''nc'' = nc" "qm_value [] m ''cnonce'' = cnonce"
    "qm_value [] m ''response'' = resp"
    unfolding qm_value_def g using k by simp_all
  show "qm_value [] m ''uri'' = (if CHR ''='' \<in> set uri then [] else uri)"
    unfolding qm_value_def g using ku by (cases "CHR ''='' \<in> set uri") simp_all
qed

text \<open>The answer of a client that knows the password.\<close>

definition client_response :: "(bytes \<Rightarrow> bytes) \<Rightarrow> bytes \<Rightarrow> bytes \<Rightarrow> bytes \<Rightarrow> bytes \<Rightarrow> bytes \<Rightarrow> bytes \<Rightarrow> bytes \<Rightarrow> bytes \<Rightarrow> bytes \<Rightarrow> bytes" where
  "client_response md5 password reqMethod u realm nonce uri qop nc cnonce =
     digest_response md5 password reqMethod
       (qm_value [] [(''username'', u), (''realm'', realm), (''nonce'', nonce), (''uri'', uri), (''qop'', qop),
         (''nc'', nc), (''cnonce'', cnonce)])"


definition sample_account :: account where
  "sample_account = \<lparr>ac_requireAuth = True, ac_username = ''admin'', ac_password = ''secret''\<rparr>"

definition sample_header :: "bytes \<Rightarrow> bytes" where
  "sample_header uri = client_header (client_fields ''admin'' ''r'' ''n'' uri ''auth'' ''1'' ''c''
     (client_response rev ''secret'' ''GET'' ''admin'' ''r'' ''n'' uri ''auth'' ''1'' ''c''))"

definition sample_request :: "bytes \<Rightarrow> HttpRequest" where
  "sample_request uri = new_request 10 10\<lparr>rq_method := ''GET'', rq_headers := [(''Authorization'', sample_header uri)]\<rparr>"

lemma sample_values: "\<forall>v \<in> set [''admin'', ''r'', ''n'', ''auth'', ''1'', ''c'']. simple_value v"
  by (simp add: simple_value_def value_text_def)


text \<open>
  A path with an equals sign is never authenticated: the header of the same client is
  accepted only if the digest for its path and the digest for the empty path agree, because the
  untrimmed key loses the path.
\<close>

theorem equals_in_path_rejected:
  assumes "\<forall>v \<in> set [ac_username acc, realm, nonce, qop, nc, cnonce]. simple_value v" "value_text uri"
    "CHR ''='' \<in> set uri" "ac_requireAuth acc"
    and "getHeader q ''Authorization'' = client_header (client_fields (ac_username acc) realm nonce uri qop nc cnonce
      (client_response md5 (ac_password acc) (rq_method q) (ac_username acc) realm nonce uri qop nc cnonce))"
  shows "snd (CheckCreditinals md5 acc q r) \<longleftrightarrow>
    client_response md5 (ac_password acc) (rq_method q) (ac_username acc) realm nonce uri qop nc cnonce =
    client_response md5 (ac_password acc) (rq_method q) (ac_username acc) realm nonce [] qop nc cnonce"
proof -
  let ?resp = "client_response md5 (ac_password acc) (rq_method q) (ac_username acc) realm nonce uri qop nc cnonce"
  have "\<forall>v \<in> set [ac_username acc, realm, nonce, qop, nc, cnonce, ?resp]. simple_value v"
    using assms(1) to_hex_simple by (simp add: client_response_def digest_response_def Let_def)
  note p = client_params [OF this assms(2), folded assms(5)]
  have ne: "getHeader q ''Authorization'' \<noteq> []" unfolding assms(5) by (simp add: client_header_def)
  have d: "digest_response md5 (ac_password acc) (rq_method q) (qm_value [] (auth_params (getHeader q ''Authorization''))) =
      client_response md5 (ac_password acc) (rq_method q) (ac_username acc) realm nonce [] qop nc cnonce"
    unfolding client_response_def digest_response_def Let_def p using assms(3) by (simp add: qm_value_def)
  show ?thesis
    using assms(4) ne unfolding CheckCreditinals_def Let_def p d by (auto simp: unauthorized_def)
qed

theorem equals_in_path_rejected_witness:
  "\<not> snd (CheckCreditinals rev sample_account (sample_request ''/a?k=v'') (new_response \<lparr>sk_open = True, sk_sent = [], sk_plan = []\<rparr>))"
proof -
  have "snd (CheckCreditinals rev sample_account (sample_request ''/a?k=v'') (new_response \<lparr>sk_open = True, sk_sent = [], sk_plan = []\<rparr>)) \<longleftrightarrow>
    client_response rev ''secret'' ''GET'' ''admin'' ''r'' ''n'' ''/a?k=v'' ''auth'' ''1'' ''c'' =
    client_response rev ''secret'' ''GET'' ''admin'' ''r'' ''n'' [] ''auth'' ''1'' ''c''"
    using equals_in_path_rejected [of sample_account "''r''" "''n''" "''auth''" "''1''" "''c''" "''/a?k=v''"
        "sample_request ''/a?k=v''" rev] sample_values
    by (simp add: sample_account_def value_text_def getHeader_def sample_request_def sample_header_def qm_value_def)
  moreover have "length (client_response rev ''secret'' ''GET'' ''admin'' ''r'' ''n'' ''/a?k=v'' ''auth'' ''1'' ''c'') \<noteq>
    length (client_response rev ''secret'' ''GET'' ''admin'' ''r'' ''n'' [] ''auth'' ''1'' ''c'')"
    by (simp add: client_response_def digest_response_def to_hex_def qm_value_def)
  ultimately show ?thesis by metis
qed

end
