(* ===== verification/Http_Reply.thy ===== *)
theory Http_Reply
  imports Http_Response
begin

text \<open>
  What a client gets of a response, as an abstract object: nothing yet, an open body, or a whole
  answer. \<open>write_part\<close> implements the abstract write, and the services of the server are judged by
  the answer they leave: the locale \<open>request_service\<close> is the contract between the connection
  handler and the function that answers a request.
\<close>

section \<open>The abstract reply\<close>

datatype reply = Fresh | Open bytes | Closed bytes

fun reply_write :: "reply \<Rightarrow> bytes \<Rightarrow> bool \<Rightarrow> reply" where
  "reply_write Fresh d lastPart = (if lastPart then Closed d else Open d)"
| "reply_write (Open e) d lastPart = (if lastPart then Closed (e @ d) else Open (e @ d))"
| "reply_write (Closed e) d lastPart = Closed e"

text \<open>A client's reading of the bytes after a header block, by the framing that the block announces.\<close>

definition client_body :: "HttpResponse \<Rightarrow> bytes \<Rightarrow> bytes option" where
  "client_body h b =
     (if is_chunked h then decode_chunks b
      else if bytes_toInt 10 (qm_value [] (rs_headers h) ''Content-Length'') = Some (int (length b)) then Some b
      else None)"

text \<open>After the bytes \<open>s\<close> sent before, the client got exactly one response, and its body is \<open>d\<close>.\<close>

definition answered :: "bytes \<Rightarrow> bytes \<Rightarrow> HttpResponse \<Rightarrow> bool" where
  "answered s d r \<longleftrightarrow> rs_sentLastPart r \<and> healthy (rs_socket r) \<and>
     (\<exists>h b. sent r = s @ header_block h @ b \<and> client_body h b = Some d)"

fun reply_of :: "bytes \<Rightarrow> reply \<Rightarrow> HttpResponse \<Rightarrow> bool" where
  "reply_of s Fresh r \<longleftrightarrow> unframed r \<and> \<not> rs_sentLastPart r \<and> sent r = s"
| "reply_of s (Open d) r \<longleftrightarrow> streaming r \<and> \<not> rs_sentLastPart r \<and>
     (\<exists>h ds. is_chunked h \<and> concat ds = d \<and> sent r = s @ header_block h @ concat (map chunk_text ds))"
| "reply_of s (Closed d) r \<longleftrightarrow> answered s d r"

lemma lastPart_writeHeaders [simp]: "rs_sentLastPart (writeHeaders r) = rs_sentLastPart r"
  by (simp add: writeHeaders_def)

lemma lastPart_framing [simp]: "rs_sentLastPart (add_framing r d l) = rs_sentLastPart r"
  by (simp add: add_framing_def)

lemma lastPart_send_all [simp]: "rs_sentLastPart (send_all ds r) = rs_sentLastPart r"
  by (simp add: send_all_def)

lemma lastPart_write [simp]: "rs_sentLastPart (write_part r d l) \<longleftrightarrow> l \<or> rs_sentLastPart r"
  by (simp add: write_part_def Let_def)

lemma healthy_chunked_end:
  assumes "streaming r"
  shows "healthy (rs_socket (write_part r d True))"
proof -
  have h: "healthy (rs_socket r)" "rs_sentHeaders r" "is_chunked r" using assms by (simp_all add: streaming_def)
  let ?r = "if d \<noteq> [] then send_all [int_text 16 (int (length d)) @ crlf, d, crlf] r else r"
  have "healthy (rs_socket ?r)" using h(1) send_all_sink(2) [OF h(1)] by simp
  from send_all_sink(2) [OF this] show ?thesis using h by (simp add: write_part_def Let_def)
qed

section \<open>Writes implement the abstract write\<close>

lemma reply_first:
  assumes "reply_of s Fresh r"
  shows "reply_of s (Open d) (write_part r d False)"
    "int (length d) < 2 ^ 31 \<Longrightarrow> reply_of s (Closed d) (write_part r d True)"
proof -
  have u: "unframed r" "\<not> rs_sentLastPart r" "sent r = s" using assms by simp_all
  have "is_chunked (with_header ''Transfer-Encoding'' ''chunked'' r)"
    by (simp add: is_chunked_def header_is_def with_header_def qm_value_def qm_get_insert)
  then have "\<exists>h ds. is_chunked h \<and> concat ds = d \<and>
      sent (write_part r d False) = s @ header_block h @ concat (map chunk_text ds)"
    using first_chunk(2) [OF u(1), of d] u(3) by (intro exI [of _ "with_header ''Transfer-Encoding'' ''chunked'' r"] exI [of _ "[d]"]) simp
  then show "reply_of s (Open d) (write_part r d False)" using first_chunk(1) [OF u(1)] u(2) by simp
  assume "int (length d) < 2 ^ 31"
  note p = single_part [OF u(1) this]
  have "client_body (write_part r d True) d = Some d" using p(2,5) by (simp add: client_body_def)
  then show "reply_of s (Closed d) (write_part r d True)" using p u(3) by (auto simp: answered_def)
qed

lemma reply_more:
  assumes "reply_of s (Open e) r"
  shows "reply_of s (Open (e @ d)) (write_part r d False)" "reply_of s (Closed (e @ d)) (write_part r d True)"
proof -
  obtain h ds where o: "streaming r" "\<not> rs_sentLastPart r" "is_chunked h" "concat ds = e"
    "sent r = s @ header_block h @ concat (map chunk_text ds)"
    using assms by auto
  have "\<exists>h ds. is_chunked h \<and> concat ds = e @ d \<and>
      sent (write_part r d False) = s @ header_block h @ concat (map chunk_text ds)"
    using chunked_part(2) [OF o(1), of d] o by (intro exI [of _ h] exI [of _ "ds @ [d]"]) simp
  then show "reply_of s (Open (e @ d)) (write_part r d False)" using chunked_part(1) [OF o(1)] o(2) by simp
  let ?b = "concat (map chunk_text (ds @ [d])) @ ''0'' @ crlf @ crlf"
  have "sent (write_part r d True) = s @ header_block h @ ?b" using chunked_end [OF o(1), of d] o(5) by simp
  moreover have "client_body h ?b = Some (e @ d)" unfolding client_body_def decode_all using o(3,4) by simp
  ultimately show "reply_of s (Closed (e @ d)) (write_part r d True)"
    using healthy_chunked_end [OF o(1)] unfolding reply_of.simps answered_def by (metis lastPart_write)
qed

fun is_closed :: "reply \<Rightarrow> bool" where
  "is_closed (Closed d) = True"
| "is_closed _ = False"

lemma reply_step:
  "\<not> is_closed a \<Longrightarrow> int (length d) < 2 ^ 31 \<Longrightarrow> reply_of s a r \<Longrightarrow> reply_of s (reply_write a d l) (write_part r d l)"
  using reply_first [of s r d] reply_more [of s _ r d] by (cases a) auto

text \<open>
  C22. The response implements the abstract reply: until its last part, every write on a healthy
  connection takes a response whose client has the reply \<open>a\<close> to one whose client has the reply
  the abstract write gives.
\<close>

theorem write_implements_reply:
  assumes "\<not> is_closed a" "int (length d) < 2 ^ 31" "reply_of s a r"
  shows "reply_of s (reply_write a d l) (write_part r d l)"
  using assms by (rule reply_step)

theorem write_implements_reply_witness:
  "answered [] ''ok'' (write_part (new_response good_socket) ''ok'' True)"
  using write_implements_reply [of Fresh "''ok''" "[]" "new_response good_socket" True] fresh_unframed
  by (simp add: sent_def new_response_def good_socket_def)

text \<open>A response keeps its abstract reply when only its status or an unrelated header changes.\<close>

definition framing_header :: "bytes \<Rightarrow> bool" where
  "framing_header n \<longleftrightarrow> ''Content-Length'' = n \<or> ''Transfer-Encoding'' = n \<or> ''Connection'' = n"

lemma fresh_status: "reply_of s Fresh r \<Longrightarrow> reply_of s Fresh (setStatus c t r)"
  by (simp add: setStatus_def unframed_def sent_def header_is_def)

lemma fresh_header: "reply_of s Fresh r \<Longrightarrow> \<not> framing_header n \<Longrightarrow> reply_of s Fresh (setHeader n v r)"
  by (simp add: setHeader_def unframed_def sent_def header_is_def qm_value_def qm_contains_def qm_get_insert framing_header_def)

lemma reply_parts:
  "\<not> is_closed a \<Longrightarrow> \<forall>d \<in> set ds. int (length d) < 2 ^ 31 \<Longrightarrow> reply_of s a r \<Longrightarrow> ds \<noteq> [] \<Longrightarrow>
    reply_of s (Open ((case a of Open e \<Rightarrow> e | _ \<Rightarrow> []) @ concat ds)) (fold (\<lambda>d r. write_part r d False) ds r)"
proof (induction ds arbitrary: a r)
  case (Cons d ds)
  have "reply_of s (reply_write a d False) (write_part r d False)" using Cons.prems by (intro reply_step) auto
  moreover have "reply_write a d False = Open ((case a of Open e \<Rightarrow> e | _ \<Rightarrow> []) @ d)"
    using Cons.prems(1) by (cases a) auto
  ultimately have o: "reply_of s (Open ((case a of Open e \<Rightarrow> e | _ \<Rightarrow> []) @ d)) (write_part r d False)" by metis
  show ?case
  proof (cases "ds = []")
    case False
    have "\<forall>d \<in> set ds. int (length d) < 2 ^ 31" using Cons.prems(2) by simp
    from Cons.IH [OF _ this o False] show ?thesis by simp
  qed (use o in simp)
qed simp

section \<open>Services\<close>

text \<open>The connection handler ends a response the service left open.\<close>

definition finalize :: "HttpResponse \<Rightarrow> HttpResponse" where
  "finalize r = (if \<not> rs_sentLastPart r then write_part r [] True else r)"

lemma finalize_Fresh: "reply_of s Fresh r \<Longrightarrow> reply_of s (Closed []) (finalize r)"
  using reply_step [of Fresh "[]" s r True] by (simp add: finalize_def)

lemma finalize_Open: "reply_of s (Open d) r \<Longrightarrow> reply_of s (Closed d) (finalize r)"
  using reply_more(2) [of s d r "[]"] by (simp add: finalize_def)

lemma finalize_Closed: "reply_of s (Closed d) r \<Longrightarrow> reply_of s (Closed d) (finalize r)"
  by (simp add: finalize_def answered_def)

lemmas finalize_reply = finalize_Fresh finalize_Open finalize_Closed

text \<open>
  The contract of the function that answers a request: given a new response on a healthy
  connection, it leaves one reply, open or closed, for the requests it is meant for.
\<close>

locale request_service =
  fixes service :: "'q \<Rightarrow> HttpResponse \<Rightarrow> HttpResponse"
    and meant :: "'q \<Rightarrow> bool"
  assumes one_reply: "meant q \<Longrightarrow> reply_of s Fresh r \<Longrightarrow> \<exists>a. reply_of s a (service q r)"
begin

lemma one_answer:
  assumes "meant q" "reply_of s Fresh r"
  shows "\<exists>d. answered s d (finalize (service q r))"
proof -
  obtain a where a: "reply_of s a (service q r)" using one_reply [OF assms] by blast
  then have "\<exists>d. reply_of s (Closed d) (finalize (service q r))"
    by (cases a) (blast dest: finalize_reply)+
  then show ?thesis unfolding reply_of.simps .
qed

text \<open>
  A connection that stays open: the answers to the requests follow one another, each one whole.
\<close>

lemma answers_in_order:
  assumes "healthy t" "sk_sent t = s" "meant q" 
  shows "\<exists>d. answered s d (finalize (service q (new_response t)))"
  using one_answer [OF assms(3), of s "new_response t"] assms(1,2)
  by (simp add: unframed_def new_response_def qm_contains_def header_is_def qm_value_def sent_def)

end

end
