(* ===== verification/Http_Server.thy ===== *)
theory Http_Server
  imports Http_Request Http_Reply Http_Request_Safety
begin

text \<open>
  The connection side of the server: \<open>http/httpconnectionhandler.cpp\<close> (a connection's state, the
  address filter, and the reading, dispatching and answering of requests),
  \<open>http/httpconnectionhandlerpool.cpp\<close> and \<open>http/httplistener.cpp\<close> (the handlers and who gets one).
  The function that answers a request is an argument, with a contract stated as a locale.
\<close>

section \<open>The address filter\<close>

type_synonym ip_range = "32 word \<times> 32 word"

definition in_range :: "32 word \<Rightarrow> ip_range \<Rightarrow> bool" where
  "in_range ip r \<longleftrightarrow> fst r \<le> ip \<and> ip \<le> snd r"

text \<open>The test of the second loop, as it is written.\<close>

definition in_denied :: "32 word \<Rightarrow> ip_range \<Rightarrow> bool" where
  "in_denied ip r \<longleftrightarrow> ip \<le> fst r \<and> snd r \<le> ip"

definition block_client :: "ip_range list \<Rightarrow> ip_range list \<Rightarrow> 32 word \<Rightarrow> bool" where
  "block_client allowedIP notAllowedIP ip =
     (let allowed = allowedIP \<noteq> [] \<and> list_ex (in_range ip) allowedIP;
          blockClient = allowedIP \<noteq> [] \<and> \<not> allowed
      in if \<not> allowed \<and> notAllowedIP \<noteq> []
         then \<not> list_ex (in_denied ip) notAllowedIP
         else blockClient)"

section \<open>The connection handler\<close>

text \<open>
  \<open>readTimer\<close> is its running flag. The connection's bytes received and not yet read are
  \<open>incoming\<close>; \<open>blockClient\<close> keeps its value from one connection to the next, as the member does.
\<close>

record ConnectionHandler =
  ch_busy :: bool
  ch_blockClient :: bool
  ch_readTimer :: bool
  ch_currentRequest :: "HttpRequest option"
  ch_socket :: socket
  ch_incoming :: bytes

record server_settings =
  sv_ipfilter :: bool
  sv_maxRequestSize :: int
  sv_maxMultiPartSize :: int
  sv_allowedIP :: "ip_range list"
  sv_notAllowedIP :: "ip_range list"

text \<open>
  \<open>handleConnection\<close>: the new connection's socket, or none when the descriptor is not accepted.
\<close>

definition handleConnection :: "server_settings \<Rightarrow> socket option \<Rightarrow> 32 word \<Rightarrow> ConnectionHandler \<Rightarrow> ConnectionHandler" where
  "handleConnection cfg descriptor peer c =
     (let c = c\<lparr>ch_busy := True, ch_socket := (ch_socket c)\<lparr>sk_open := False\<rparr>\<rparr> in
      case descriptor of None \<Rightarrow> c
      | Some s \<Rightarrow>
          (let c = c\<lparr>ch_socket := s, ch_incoming := []\<rparr>;
               c = (if sv_ipfilter cfg
                    then c\<lparr>ch_blockClient := block_client (sv_allowedIP cfg) (sv_notAllowedIP cfg) peer\<rparr> else c)
           in c\<lparr>ch_readTimer := True, ch_currentRequest := None\<rparr>))"

definition readTimeout :: "ConnectionHandler \<Rightarrow> ConnectionHandler" where
  "readTimeout c =
     c\<lparr>ch_socket := disconnectFromHost (send (ch_socket c)
         (''HTTP/1.1 408 request timeout'' @ crlf @ ''Connection: close'' @ crlf @ crlf @ ''408 request timeout'' @ crlf)),
       ch_currentRequest := None, ch_readTimer := False\<rparr>"

definition disconnected :: "ConnectionHandler \<Rightarrow> ConnectionHandler" where
  "disconnected c = c\<lparr>ch_socket := (ch_socket c)\<lparr>sk_open := False\<rparr>, ch_readTimer := False, ch_busy := False\<rparr>"

definition too_large :: bytes where
  "too_large = ''HTTP/1.1 413 entity too large'' @ crlf @ ''Connection: close'' @ crlf @ crlf @ ''413 Entity too large'' @ crlf"

definition forbidden :: "HttpResponse \<Rightarrow> HttpResponse" where
  "forbidden r = write_part (setStatus 403 ''Forbidden'' r) ''<h1>403 Forbidden<h1>'' True"

text \<open>The answer to a complete request, and what becomes of the connection.\<close>

definition answer :: "server_settings \<Rightarrow> (HttpRequest \<Rightarrow> HttpResponse \<Rightarrow> HttpResponse) \<Rightarrow> HttpRequest
    \<Rightarrow> ConnectionHandler \<Rightarrow> ConnectionHandler" where
  "answer cfg service q c =
     (let response = new_response (ch_socket c);
          response = (if ch_blockClient c \<and> sv_ipfilter cfg then forbidden response else service q response);
          response = finalize response
      in if lower_case (getHeader q ''Connection'') = ''close''
         then c\<lparr>ch_socket := disconnectFromHost (rs_socket response), ch_readTimer := False, ch_currentRequest := None\<rparr>
         else c\<lparr>ch_socket := rs_socket response, ch_readTimer := True, ch_currentRequest := None\<rparr>)"

definition read :: "server_settings \<Rightarrow> (HttpRequest \<Rightarrow> HttpResponse \<Rightarrow> HttpResponse) \<Rightarrow> 32 word
    \<Rightarrow> ConnectionHandler \<Rightarrow> ConnectionHandler run" where
  "read cfg service peer c =
     (let request = (case ch_currentRequest c of Some q \<Rightarrow> q
                     | None \<Rightarrow> new_request (sv_maxRequestSize cfg) (sv_maxMultiPartSize cfg))
      in rbind (read_loop (Suc (length (ch_incoming c))) peer request (ch_incoming c))
           (\<lambda>(q, rest).
              let c = c\<lparr>ch_currentRequest := Some q, ch_incoming := rest,
                        ch_readTimer := (if rq_status q = waitForBody then True else ch_readTimer c)\<rparr>
              in Done (if rq_status q = abort
                       then c\<lparr>ch_socket := disconnectFromHost (send (ch_socket c) too_large), ch_currentRequest := None\<rparr>
                       else if rq_status q = complete then answer cfg service q c
                       else c)))"

section \<open>The pool and the listener\<close>

text \<open>A handler of the pool is its identity and its busy flag.\<close>

type_synonym pool = "(nat \<times> bool) list"

fun set_busy :: "nat \<Rightarrow> pool \<Rightarrow> pool" where
  "set_busy k [] = []"
| "set_busy k ((i, b) # p) = (if i = k then (i, True) # p else (i, b) # set_busy k p)"

definition getConnectionHandler :: "int \<Rightarrow> nat \<Rightarrow> pool \<Rightarrow> pool \<times> nat option" where
  "getConnectionHandler maxThreads new pool =
     (case find (\<lambda>h. \<not> snd h) pool of
        Some h \<Rightarrow> (set_busy (fst h) pool, Some (fst h))
      | None \<Rightarrow>
          (if int (length pool) < maxThreads then (pool @ [(new, True)], Some new) else (pool, None)))"

fun cleanup_loop :: "int \<Rightarrow> int \<Rightarrow> pool \<Rightarrow> pool" where
  "cleanup_loop maxIdle idleCounter [] = []"
| "cleanup_loop maxIdle idleCounter (h # p) =
     (if \<not> snd h then
        (if maxIdle < idleCounter + 1 then p else h # cleanup_loop maxIdle (idleCounter + 1) p)
      else h # cleanup_loop maxIdle idleCounter p)"

definition cleanup :: "int \<Rightarrow> pool \<Rightarrow> pool" where
  "cleanup maxIdleHandlers pool = cleanup_loop maxIdleHandlers 0 pool"

definition too_many :: bytes where
  "too_many = ''HTTP/1.1 503 too many connections'' @ crlf @ ''Connection: close'' @ crlf @ crlf @ ''Too many connections'' @ crlf"

text \<open>A new connection goes to a handler, or is rejected; the rejecting socket is the second part.\<close>

definition incomingConnection :: "int \<Rightarrow> nat \<Rightarrow> socket \<Rightarrow> pool \<Rightarrow> pool \<times> (nat, socket) sum" where
  "incomingConnection maxThreads new s pool =
     (case getConnectionHandler maxThreads new pool of
        (pool', Some k) \<Rightarrow> (pool', Inl k)
      | (pool', None) \<Rightarrow> (pool', Inr (disconnectFromHost (send s too_many))))"

section \<open>The address filter blocks the wrong clients\<close>

text \<open>
  C17. The deny list is inverted: with a deny list of ranges and no allow list, every client is
  blocked, inside the ranges or not, except the ones whose own address is listed as a range of
  one.
\<close>

theorem deny_list_inverted:
  assumes "\<forall>(a, b) \<in> set denied. a \<le> b"
  shows "block_client [] denied ip \<longleftrightarrow> denied \<noteq> [] \<and> (ip, ip) \<notin> set denied"
proof -
  have "in_denied ip r \<longleftrightarrow> r = (ip, ip)" if "r \<in> set denied" for r
    using assms that by (cases r) (auto simp: in_denied_def)
  then show ?thesis by (auto simp: block_client_def list_ex_iff)
qed

theorem deny_list_inverted_witness:
  "block_client [] [(3232235520, 3232301055)] 134744072 \<and> \<not> block_client [] [(134744072, 134744072)] 134744072"
  using deny_list_inverted [of "[(3232235520, 3232301055)]" 134744072]
    deny_list_inverted [of "[(134744072, 134744072)]" 134744072] by simp

section \<open>The pool\<close>

lemma set_busy_ids [simp]: "map fst (set_busy k p) = map fst p"
  by (induction k p rule: set_busy.induct) auto

lemma set_busy_set:
  "distinct (map fst p) \<Longrightarrow> (k, False) \<in> set p \<Longrightarrow> set (set_busy k p) = insert (k, True) (set p - {(k, False)})"
proof (induction k p rule: set_busy.induct)
  case (2 k i b p)
  then show ?case by (auto simp: rev_image_eqI)
qed simp

lemma cleanup_subset: "set (cleanup_loop m i p) \<subseteq> set p"
  by (induction m i p rule: cleanup_loop.induct) auto

lemma cleanup_distinct: "distinct (map fst p) \<Longrightarrow> distinct (map fst (cleanup_loop m i p))"
proof (induction m i p rule: cleanup_loop.induct)
  case (2 m i h p)
  have "fst h \<notin> fst ` set (cleanup_loop m j p)" for j using cleanup_subset [of m j p] 2(3) by auto
  then show ?case using 2 by auto
qed simp

lemma cleanup_length: "length (cleanup_loop m i p) \<le> length p"
  by (induction m i p rule: cleanup_loop.induct) auto

text \<open>
  Runs of a pool: a connection takes a handler, a handler ends its connection, the timer cleans
  up. A new handler has an identity no handler has.
\<close>

inductive pool_run :: "int \<Rightarrow> pool \<Rightarrow> bool" for M where
  start: "pool_run M []"
| take: "pool_run M p \<Longrightarrow> new \<notin> fst ` set p \<Longrightarrow> getConnectionHandler M new p = (p', r) \<Longrightarrow> pool_run M p'"
| free: "pool_run M p \<Longrightarrow> pool_run M (map (\<lambda>h. if fst h = k then (k, False) else h) p)"
| clean: "pool_run M p \<Longrightarrow> pool_run M (cleanup m p)"

lemma pool_run_inv:
  assumes "pool_run M p"
  shows "distinct (map fst p) \<and> int (length p) \<le> max 0 M"
  using assms
proof (induction rule: pool_run.induct)
  case (take p new p' r)
  show ?case
  proof (cases "find (\<lambda>h. \<not> snd h) p")
    case None
    then show ?thesis using take by (auto simp: getConnectionHandler_def split: if_splits)
  next
    case (Some h)
    then have "p' = set_busy (fst h) p" using take by (simp add: getConnectionHandler_def)
    moreover from this have "length p' = length p" by (metis length_map set_busy_ids)
    ultimately show ?thesis using take by simp
  qed
next
  case (free p k)
  have "map fst (map (\<lambda>h. if fst h = k then (k, False) else h) p) = map fst p" by simp
  then show ?case using free by (metis length_map)
next
  case (clean p m)
  then show ?case using cleanup_distinct [of p] cleanup_length [of m 0 p] by (simp add: cleanup_def)
qed simp

text \<open>
  C18. A connection gets a handler of its own, and the pool stays within its limit: in every run
  of a pool, the handler given out was not serving another connection and is marked busy, the
  others are untouched, and only a full pool of busy handlers turns a connection away.
\<close>

theorem pool_handler_exclusive:
  assumes "pool_run M p" "new \<notin> fst ` set p" "getConnectionHandler M new p = (p', r)"
  shows "int (length p') \<le> max 0 M \<and>
    (case r of Some k \<Rightarrow> (k, True) \<in> set p' \<and> (k, True) \<notin> set p \<and>
                 (\<forall>j b. j \<noteq> k \<longrightarrow> (j, b) \<in> set p' \<longleftrightarrow> (j, b) \<in> set p)
     | None \<Rightarrow> p' = p \<and> (\<forall>h \<in> set p. snd h) \<and> M \<le> int (length p))"
proof -
  have inv: "distinct (map fst p)" using pool_run_inv [OF assms(1)] by simp
  have len: "int (length p') \<le> max 0 M" using pool_run_inv [OF pool_run.take [OF assms]] by simp
  show ?thesis
  proof (cases "find (\<lambda>h. \<not> snd h) p")
    case None
    then have "\<forall>h \<in> set p. snd h" unfolding find_None_iff by blast
    moreover have "(new, True) \<notin> set p" using assms(2) by force
    ultimately show ?thesis using None assms(3) len by (auto simp: getConnectionHandler_def split: if_splits)
  next
    case (Some h)
    then obtain i where i: "i < length p" "h = p ! i" "\<not> snd h" unfolding find_Some_iff by blast
    define k where "k = fst h"
    have "h \<in> set p" unfolding i(2) using i(1) by (rule nth_mem)
    moreover have "h = (k, False)" unfolding k_def using i(3) by (cases h) (simp only: fst_conv snd_conv)
    ultimately have h: "h = (k, False)" "h \<in> set p" by blast+
    then have "p' = set_busy k p" "r = Some k" using assms(3) Some by (simp_all add: getConnectionHandler_def)
    moreover from this h have "set p' = insert (k, True) (set p - {(k, False)})" using set_busy_set [OF inv] by simp
    moreover have "(k, True) \<notin> set p" using eq_key_imp_eq_value [OF inv, of k True False] h by blast
    ultimately show ?thesis using len by auto
  qed
qed

theorem pool_handler_exclusive_witness: "int (length [(7::nat, True)]) \<le> max 0 (1::int)"
  using pool_handler_exclusive [of 1 "[]" 7 "[(7, True)]" "Some 7"]
  by (simp add: pool_run.start getConnectionHandler_def)

text \<open>
  C19. The cleanup never ends a connection, and removes one handler at most: the busy handlers
  stay as they are, and of the idle ones one goes exactly when there are more than the minimum.
\<close>

lemma cleanup_loop_idle:
  "0 \<le> m \<Longrightarrow> 0 \<le> i \<Longrightarrow> i \<le> m \<Longrightarrow>
    filter snd (cleanup_loop m i p) = filter snd p \<and>
    int (length (filter (\<lambda>h. \<not> snd h) (cleanup_loop m i p))) =
      (let n = int (length (filter (\<lambda>h. \<not> snd h) p)) in if m < i + n then n - 1 else n)"
proof (induction m i p rule: cleanup_loop.induct)
  case (2 m i h p)
  show ?case
  proof (cases "\<not> snd h \<and> m < i + 1")
    case True
    then show ?thesis using 2 by (simp add: Let_def)
  next
    case False
    then show ?thesis using 2 by (cases "snd h") (auto simp: Let_def)
  qed
qed simp

theorem cleanup_keeps_busy:
  assumes "0 \<le> minThreads"
  shows "filter snd (cleanup minThreads p) = filter snd p \<and>
    int (length (filter (\<lambda>h. \<not> snd h) (cleanup minThreads p))) =
      (let n = int (length (filter (\<lambda>h. \<not> snd h) p)) in if minThreads < n then n - 1 else n)"
  using cleanup_loop_idle [of minThreads 0 p] assms by (simp add: cleanup_def)

theorem cleanup_keeps_busy_witness:
  "filter snd (cleanup 1 [(1, False), (2, True), (3, False)]) = [(2, True)]"
  using cleanup_keeps_busy [of 1 "[(1, False), (2, True), (3, False)]"] by simp

end
