(* ===== verification/Qt_Cache.thy ===== *)
theory Qt_Cache
  imports Qt_Maps
begin

text \<open>
  A \<open>QCache\<close>: objects with a cost under keys, of which the least recently used ones are deleted
  when the total cost exceeds the maximum. The list holds the entries from the most to the least
  recently used. The static file controller keeps its documents in one.
\<close>

section \<open>The cache\<close>

type_synonym ('k, 'v) qcache = "('k \<times> int \<times> 'v) list"

definition total_cost :: "('k, 'v) qcache \<Rightarrow> int" where
  "total_cost c = sum_list (map (\<lambda>e. fst (snd e)) c)"

definition cache_contains :: "'k \<Rightarrow> ('k, 'v) qcache \<Rightarrow> bool" where
  "cache_contains k c \<longleftrightarrow> k \<in> fst ` set c"

definition cache_remove :: "'k \<Rightarrow> ('k, 'v) qcache \<Rightarrow> ('k, 'v) qcache" where
  "cache_remove k c = filter (\<lambda>e. fst e \<noteq> k) c"

text \<open>Looking an object up makes it the most recently used one.\<close>

definition cache_object :: "'k \<Rightarrow> ('k, 'v) qcache \<Rightarrow> ('k, 'v) qcache \<times> 'v option" where
  "cache_object k c =
     (case map_of c k of None \<Rightarrow> (c, None)
      | Some (n, v) \<Rightarrow> ((k, n, v) # cache_remove k c, Some v))"

function cache_trim :: "int \<Rightarrow> ('k, 'v) qcache \<Rightarrow> ('k, 'v) qcache" where
  "cache_trim m c = (if c \<noteq> [] \<and> m < total_cost c then cache_trim m (butlast c) else c)"
  by pat_completeness auto
termination by (relation "measure (\<lambda>(m, c). length c)") auto

declare cache_trim.simps [simp del]

definition cache_insert :: "int \<Rightarrow> 'k \<Rightarrow> int \<Rightarrow> 'v \<Rightarrow> ('k, 'v) qcache \<Rightarrow> ('k, 'v) qcache" where
  "cache_insert maxCost k cost v c =
     (let c = cache_remove k c in
      if maxCost < cost then c else (k, cost, v) # cache_trim (maxCost - cost) c)"

section \<open>Its laws\<close>

definition cache_ok :: "int \<Rightarrow> ('k, 'v) qcache \<Rightarrow> bool" where
  "cache_ok maxCost c \<longleftrightarrow> distinct (map fst c) \<and> total_cost c \<le> maxCost \<and> (\<forall>e \<in> set c. 0 \<le> fst (snd e))"

lemma total_cost_simps [simp]:
  "total_cost [] = 0" "total_cost (e # c) = fst (snd e) + total_cost c"
  by (simp_all add: total_cost_def)

lemma cache_trim_prefix: "\<exists>d. c = cache_trim m c @ d"
proof (induction m c rule: cache_trim.induct)
  case (1 m c)
  show ?case
  proof (cases "c \<noteq> [] \<and> m < total_cost c")
    case True
    then obtain d where "butlast c = cache_trim m (butlast c) @ d" using 1 by blast
    moreover have "cache_trim m c = cache_trim m (butlast c)" using True by (subst cache_trim.simps) (rule if_P)
    moreover have "c = butlast c @ [last c]" using True by simp
    ultimately have "c = cache_trim m c @ (d @ [last c])" by (metis append_assoc)
    then show ?thesis ..
  next
    case False
    then have "cache_trim m c = c" by (subst cache_trim.simps) (rule if_not_P)
    then show ?thesis by simp
  qed
qed

lemma cache_trim_cost: "0 \<le> m \<Longrightarrow> total_cost (cache_trim m c) \<le> m"
proof (induction m c rule: cache_trim.induct)
  case (1 m c)
  show ?case
  proof (cases "c \<noteq> [] \<and> m < total_cost c")
    case True
    then have "cache_trim m c = cache_trim m (butlast c)" by (subst cache_trim.simps) (rule if_P)
    then show ?thesis using 1 True by simp
  next
    case False
    then have "cache_trim m c = c" by (subst cache_trim.simps) (rule if_not_P)
    then show ?thesis using False "1.prems" by (cases "c = []") simp_all
  qed
qed

lemma cache_trim_keep: "total_cost c \<le> m \<Longrightarrow> cache_trim m c = c"
  by (subst cache_trim.simps) auto

lemma cache_trim_set: "set (cache_trim m c) \<subseteq> set c"
  by (metis cache_trim_prefix set_append Un_upper1)

lemma cache_trim_distinct: "distinct (map fst c) \<Longrightarrow> distinct (map fst (cache_trim m c))"
  by (metis cache_trim_prefix map_append distinct_append)

lemma cache_remove_ok:
  assumes "cache_ok M c"
  shows "cache_ok M (cache_remove k c)"
proof -
  have "\<forall>e \<in> set c. 0 \<le> fst (snd e) \<Longrightarrow> total_cost (cache_remove k c) \<le> total_cost c"
    by (induction c) (auto simp: cache_remove_def)
  then show ?thesis using assms by (auto simp: cache_ok_def cache_remove_def distinct_map_filter)
qed

lemma cache_remove_cost:
  assumes "distinct (map fst c)" "(k, n, v) \<in> set c"
  shows "total_cost (cache_remove k c) = total_cost c - n"
  using assms
proof (induction c)
  case (Cons e c)
  show ?case
  proof (cases "fst e = k")
    case True
    then have "k \<notin> fst ` set c" using Cons.prems(1) by simp
    then have "\<forall>x \<in> set c. fst x \<noteq> k" by blast
    then have "cache_remove k c = c" by (simp add: cache_remove_def filter_id_conv)
    moreover have "e = (k, n, v)" using eq_key_imp_eq_value [OF Cons.prems(1), of k "snd e" "(n, v)"] Cons.prems(2) True
      by (cases e) simp
    ultimately show ?thesis by (simp add: cache_remove_def)
  next
    case False
    then show ?thesis using Cons by (auto simp: cache_remove_def)
  qed
qed simp

lemma cache_object_ok:
  assumes "cache_ok M c"
  shows "cache_ok M (fst (cache_object k c))"
proof (cases "map_of c k")
  case (Some e)
  obtain n v where e: "e = (n, v)" by (cases e)
  then have m: "(k, n, v) \<in> set c" using Some by (simp add: map_of_SomeD)
  have d: "distinct (map fst c)" using assms by (simp add: cache_ok_def)
  have "k \<notin> fst ` set (cache_remove k c)" by (auto simp: cache_remove_def)
  then show ?thesis
    using cache_remove_ok [OF assms, of k] cache_remove_cost [OF d m] m assms Some e
    by (auto simp: cache_object_def cache_ok_def)
qed (use assms in \<open>simp add: cache_object_def\<close>)

lemma cache_insert_ok:
  assumes "cache_ok M c" "0 \<le> cost"
  shows "cache_ok M (cache_insert M k cost v c)"
proof (cases "M < cost")
  case False
  let ?t = "cache_trim (M - cost) (cache_remove k c)"
  note r = cache_remove_ok [OF assms(1), of k]
  have "k \<notin> fst ` set (cache_remove k c)" by (auto simp: cache_remove_def)
  then have "k \<notin> fst ` set ?t" using cache_trim_set by fastforce
  moreover have "total_cost ?t \<le> M - cost" using False by (intro cache_trim_cost) simp
  moreover have "distinct (map fst ?t)" using r by (intro cache_trim_distinct) (simp add: cache_ok_def)
  moreover have "\<forall>e \<in> set ?t. 0 \<le> fst (snd e)" using r cache_trim_set by (fastforce simp: cache_ok_def)
  ultimately show ?thesis using False assms(2) by (simp add: cache_insert_def cache_ok_def)
qed (use cache_remove_ok [OF assms(1)] in \<open>simp add: cache_insert_def\<close>)

lemma cache_insert_set: "set (cache_insert M k cost v c) \<subseteq> insert (k, cost, v) (set c)"
  using cache_trim_set [of "M - cost" "cache_remove k c"] by (auto simp: cache_insert_def Let_def cache_remove_def)

lemma cache_object_set: "set (fst (cache_object k c)) \<subseteq> set c"
  by (auto simp: cache_object_def cache_remove_def map_of_SomeD split: option.splits)

lemma cache_object_entry: "snd (cache_object k c) = Some v \<Longrightarrow> \<exists>n. (k, n, v) \<in> set c"
  by (cases "map_of c k") (force simp: cache_object_def dest: map_of_SomeD)+

end
