(* ===== verification/Static_Files.thy ===== *)
theory Static_Files
  imports Http_Auth Http_Server Qt_Cache
begin

text \<open>
  The class \<open>StaticFileController\<close> of \<open>http/staticfilecontroller.cpp\<close>: the files under the document
  root, sent from the disk or from a cache. The file system at a time is an argument.
\<close>

section \<open>The file system and the configuration\<close>

text \<open>
  What is found at a path: the time of the last modification as the program reads it (whatever it
  reads when nothing is there) and, for a file, whether it can be opened and its contents.
\<close>

datatype fs_node = Missing int | Directory int | Regular int bool bytes

fun last_modified :: "fs_node \<Rightarrow> int" where
  "last_modified (Missing t) = t"
| "last_modified (Directory t) = t"
| "last_modified (Regular t _ _) = t"

fun is_dir :: "fs_node \<Rightarrow> bool" where
  "is_dir (Directory t) = True"
| "is_dir _ = False"

record cache_entry =
  ce_document :: bytes
  ce_created :: int

type_synonym file_cache = "(bytes, cache_entry) qcache"

record static_config =
  sf_docroot :: bytes
  sf_encoding :: bytes
  sf_maxAge :: int
  sf_cacheTimeout :: int
  sf_maxCachedFileSize :: int
  sf_maxCost :: int
  sf_account :: account

section \<open>The operations\<close>

definition content_type :: "bytes \<Rightarrow> bytes \<Rightarrow> bytes option" where
  "content_type encoding fileName =
     (if ends_with fileName ''.png'' then Some ''image/png''
      else if ends_with fileName ''.jpg'' then Some ''image/jpeg''
      else if ends_with fileName ''.gif'' then Some ''image/gif''
      else if ends_with fileName ''.pdf'' then Some ''application/pdf''
      else if ends_with fileName ''.txt'' then Some (''text/plain; charset='' @ encoding)
      else if ends_with fileName ''.html'' \<or> ends_with fileName ''.htm'' then Some (''text/html; charset='' @ encoding)
      else if ends_with fileName ''.css'' then Some ''text/css''
      else if ends_with fileName ''.js'' then Some ''text/javascript''
      else if ends_with fileName ''.woff'' then Some ''application/font-woff''
      else if ends_with fileName ''.ico'' then Some ''image/x-icon''
      else None)"

definition setContentType :: "bytes \<Rightarrow> bytes \<Rightarrow> HttpResponse \<Rightarrow> HttpResponse" where
  "setContentType encoding fileName r =
     (case content_type encoding fileName of None \<Rightarrow> r | Some t \<Rightarrow> setHeader ''Content-Type'' t r)"

text \<open>The headers of a document.\<close>

definition document_headers :: "static_config \<Rightarrow> bytes \<Rightarrow> HttpResponse \<Rightarrow> HttpResponse" where
  "document_headers cfg path r =
     setHeader ''Cache-Control'' (''max-age='' @ int_text 10 (cdiv (sf_maxAge cfg) 1000))
       (setContentType (sf_encoding cfg) path r)"

text \<open>The reads of a file until its end.\<close>

function file_parts :: "bytes \<Rightarrow> bytes list" where
  "file_parts s = (if s = [] then [] else take 65536 s # file_parts (drop 65536 s))"
  by pat_completeness auto
termination by (relation "measure length") auto

declare file_parts.simps [simp del]

definition write_parts :: "bytes list \<Rightarrow> HttpResponse \<Rightarrow> HttpResponse" where
  "write_parts ds r = fold (\<lambda>d r. write_part r d False) ds r"

definition refuse :: "int \<Rightarrow> bytes \<Rightarrow> bytes \<Rightarrow> HttpResponse \<Rightarrow> HttpResponse" where
  "refuse code reason message r = write_part (setStatus code reason r) message True"

definition cache_valid :: "static_config \<Rightarrow> (bytes \<Rightarrow> fs_node) \<Rightarrow> int \<Rightarrow> bytes \<Rightarrow> cache_entry \<Rightarrow> bool" where
  "cache_valid cfg fs now path entry \<longleftrightarrow>
     (sf_cacheTimeout cfg = 0 \<or> now - sf_cacheTimeout cfg < ce_created entry) \<and>
     last_modified (fs (sf_docroot cfg @ path)) \<le> ce_created entry"

definition store_document :: "static_config \<Rightarrow> int \<Rightarrow> bytes \<Rightarrow> bytes \<Rightarrow> bytes \<Rightarrow> file_cache \<Rightarrow> file_cache" where
  "store_document cfg now requestPath path document cache =
     (let cache = (if cache_contains path cache then cache_remove path cache else cache)
      in cache_insert (sf_maxCost cfg) requestPath (int (length document)) \<lparr>ce_document = document, ce_created = now\<rparr> cache)"

definition serve_disk :: "static_config \<Rightarrow> (bytes \<Rightarrow> fs_node) \<Rightarrow> int \<Rightarrow> bytes \<Rightarrow> HttpResponse \<Rightarrow> file_cache
    \<Rightarrow> file_cache \<times> HttpResponse" where
  "serve_disk cfg fs now requestPath response cache =
     (let path = (if is_dir (fs (sf_docroot cfg @ requestPath)) then requestPath @ ''/index.html'' else requestPath)
      in case fs (sf_docroot cfg @ path) of
           Missing t \<Rightarrow> (cache, refuse 404 ''not found'' ''404 not found'' response)
         | Directory t \<Rightarrow> (cache, refuse 403 ''forbidden'' ''403 forbidden'' response)
         | Regular t readable document \<Rightarrow>
             (if \<not> readable then (cache, refuse 403 ''forbidden'' ''403 forbidden'' response)
              else
                (let response = write_parts (file_parts document) (document_headers cfg path response) in
                 if int (length document) \<le> sf_maxCachedFileSize cfg
                 then (store_document cfg now requestPath path document cache, response)
                 else (cache, response))))"

definition serve_document :: "static_config \<Rightarrow> (bytes \<Rightarrow> fs_node) \<Rightarrow> int \<Rightarrow> bytes \<Rightarrow> HttpResponse \<Rightarrow> file_cache
    \<Rightarrow> file_cache \<times> HttpResponse" where
  "serve_document cfg fs now path response cache =
     (case cache_object path cache of
        (cache', Some entry) \<Rightarrow>
          (if cache_valid cfg fs now path entry
           then (cache', write_part (document_headers cfg path response) (ce_document entry) False)
           else serve_disk cfg fs now path response cache')
      | (cache', None) \<Rightarrow> serve_disk cfg fs now path response cache')"

definition static_service :: "(bytes \<Rightarrow> bytes) \<Rightarrow> static_config \<Rightarrow> (bytes \<Rightarrow> fs_node) \<Rightarrow> int \<Rightarrow> HttpRequest
    \<Rightarrow> HttpResponse \<Rightarrow> file_cache \<Rightarrow> file_cache \<times> HttpResponse" where
  "static_service md5 cfg fs now request response cache =
     (let path = getPath request;
          response = (if starts_with path ''/..'' then refuse 403 ''forbidden'' ''403 forbidden'' response else response)
      in case CheckCreditinals md5 (sf_account cfg) request response of
           (response, False) \<Rightarrow> (cache, response)
         | (response, True) \<Rightarrow> serve_document cfg fs now path response cache)"

section \<open>Every request gets one reply\<close>

lemma concat_file_parts [simp]: "concat (file_parts s) = s"
proof (induction s rule: file_parts.induct)
  case (1 s)
  show ?case
  proof (cases "s = []")
    case False
    then show ?thesis using 1 by (subst file_parts.simps) simp
  qed (simp add: file_parts.simps)
qed

lemma file_parts_Nil [simp]: "file_parts s = [] \<longleftrightarrow> s = []"
  by (subst file_parts.simps) simp

lemma file_parts_length: "d \<in> set (file_parts s) \<Longrightarrow> length d \<le> 65536"
proof (induction s rule: file_parts.induct)
  case (1 s)
  show ?case
  proof (cases "s = []")
    case False
    then have "file_parts s = take 65536 s # file_parts (drop 65536 s)" by (subst file_parts.simps) simp
    then show ?thesis using 1 False by auto
  qed (use 1 in \<open>simp add: file_parts.simps\<close>)
qed

lemma fresh_document_headers:
  "reply_of s Fresh r \<Longrightarrow> reply_of s Fresh (document_headers cfg p r)"
  unfolding document_headers_def setContentType_def
  by (intro fresh_header) (auto simp: framing_header_def intro!: fresh_header split: option.split simp del: reply_of.simps)

lemma refuse_Closed:
  "reply_of s Fresh r \<Longrightarrow> int (length m) < 2 ^ 31 \<Longrightarrow> reply_of s (Closed m) (refuse c t m r)"
  unfolding refuse_def by (intro reply_first(2) fresh_status)

lemma write_parts_reply:
  assumes "reply_of s Fresh r"
  shows "reply_of s (if d = [] then Fresh else Open d) (write_parts (file_parts d) r)"
proof (cases "d = []")
  case False
  have "\<forall>x \<in> set (file_parts d). int (length x) < 2 ^ 31"
    using file_parts_length by fastforce
  from reply_parts [OF _ this assms] False show ?thesis by (simp add: write_parts_def del: reply_of.simps)
qed (use assms in \<open>simp add: write_parts_def file_parts.simps\<close>)

lemma check_reply:
  assumes "reply_of s Fresh r" "CheckCreditinals md5 acc q r = (r', ok)"
  shows "if ok then r' = r else \<exists>a. reply_of s a r'"
proof -
  have c: "reply_of s Fresh (setHeader ''WWW-Authenticate'' digest_challenge (setStatus k t r))" for k t
    by (intro fresh_header fresh_status assms(1)) (simp add: framing_header_def)
  have u: "\<exists>a. reply_of s a (unauthorized r)"
    unfolding unauthorized_def using reply_first(1) [OF c] by blast
  have "r' = r \<and> ok \<or> (\<not> ok \<and> (r' = unauthorized r \<or>
      r' = setHeader ''WWW-Authenticate'' digest_challenge (setStatus 401 ''Not authoriarised'' r)))"
    using assms(2) by (auto simp: CheckCreditinals_def Let_def split: if_splits)
  then show ?thesis using c u by (cases ok) (auto simp del: reply_of.simps)
qed

lemma serve_disk_reply:
  assumes "reply_of s Fresh r"
  shows "\<exists>a. reply_of s a (snd (serve_disk cfg fs now p r c))"
proof -
  have f: "\<exists>a. reply_of s a (refuse k t m r)" if "int (length m) < 2 ^ 31" for k t m
    using refuse_Closed [OF assms that] by blast
  have w: "\<exists>a. reply_of s a (write_parts (file_parts d) (document_headers cfg p' r))" for d p'
    using write_parts_reply [OF fresh_document_headers [OF assms]] by blast
  show ?thesis
    unfolding serve_disk_def Let_def using w by (auto simp del: reply_of.simps intro!: f split: fs_node.split)
qed

lemma serve_document_reply:
  assumes "reply_of s Fresh r"
  shows "\<exists>a. reply_of s a (snd (serve_document cfg fs now p r c))"
proof -
  have "\<exists>a. reply_of s a (write_part (document_headers cfg p r) d False)" for d
    using reply_first(1) [OF fresh_document_headers [OF assms]] by blast
  then show ?thesis using serve_disk_reply [OF assms]
    unfolding serve_document_def by (auto simp del: reply_of.simps split: prod.split option.split)
qed

interpretation static: request_service "\<lambda>q r. snd (static_service md5 cfg fs now q r c)"
  "\<lambda>q. \<not> starts_with (getPath q) ''/..''"
proof (unfold_locales, goal_cases)
  case (1 q s r)
  obtain r' ok where c: "CheckCreditinals md5 (sf_account cfg) q r = (r', ok)" by force
  show ?case
    using 1(1) check_reply [OF 1(2) c] serve_document_reply [OF 1(2)] c
    by (cases ok) (auto simp: static_service_def simp del: reply_of.simps)
qed

interpretation unhandled: request_service default_service "\<lambda>q. True"
proof (unfold_locales, goal_cases)
  case (1 q s r)
  have "reply_of s (Closed ''501 not implemented'') (default_service q r)"
    unfolding default_service_def by (intro reply_first(2) fresh_status 1(2)) simp
  then show ?case by blast
qed


definition sample_config :: static_config where
  "sample_config = \<lparr>sf_docroot = ''/srv'', sf_encoding = ''UTF-8'', sf_maxAge = 60000, sf_cacheTimeout = 60000,
     sf_maxCachedFileSize = 65536, sf_maxCost = 1000000,
     sf_account = \<lparr>ac_requireAuth = False, ac_username = [], ac_password = []\<rparr>\<rparr>"

definition sample_handler :: ConnectionHandler where
  "sample_handler = \<lparr>ch_busy = True, ch_blockClient = False, ch_readTimer = True,
     ch_currentRequest = Some (new_request 100 100\<lparr>rq_path := ''/a.txt'', rq_status := complete\<rparr>),
     ch_socket = good_socket, ch_incoming = ''GET''\<rparr>"

definition sample_settings :: server_settings where
  "sample_settings = \<lparr>sv_ipfilter = True, sv_maxRequestSize = 16000, sv_maxMultiPartSize = 1000000,
     sv_allowedIP = [], sv_notAllowedIP = []\<rparr>"

lemma sample_path: "getPath (new_request 100 100\<lparr>rq_path := ''/a.txt'', rq_status := complete\<rparr>) = ''/a.txt''"
  by (simp add: getPath_def urlDecode_def urlDecode_loop.simps indexOf_at_def replace_char_def)


section \<open>The cache never shows\<close>

definition current_document :: "static_config \<Rightarrow> (bytes \<Rightarrow> fs_node) \<Rightarrow> bytes \<Rightarrow> bytes option" where
  "current_document cfg fs requestPath =
     (let path = (if is_dir (fs (sf_docroot cfg @ requestPath)) then requestPath @ ''/index.html'' else requestPath)
      in case fs (sf_docroot cfg @ path) of Regular t True d \<Rightarrow> Some d | _ \<Rightarrow> None)"

text \<open>Runs of the controller: requests at increasing times, while the files change as they like.\<close>

inductive serving :: "(bytes \<Rightarrow> bytes) \<Rightarrow> static_config \<Rightarrow> (int \<Rightarrow> bytes \<Rightarrow> fs_node) \<Rightarrow> int \<Rightarrow> file_cache \<Rightarrow> bool"
  for md5 cfg files where
  start: "serving md5 cfg files t []"
| request: "serving md5 cfg files t c \<Longrightarrow> t \<le> now \<Longrightarrow>
    serving md5 cfg files now (fst (static_service md5 cfg (files now) now q r c))"

definition entry_of :: "static_config \<Rightarrow> (int \<Rightarrow> bytes \<Rightarrow> fs_node) \<Rightarrow> int \<Rightarrow> bytes \<times> int \<times> cache_entry \<Rightarrow> bool" where
  "entry_of cfg files t e \<longleftrightarrow>
     (case e of (k, n, v) \<Rightarrow> n = int (length (ce_document v)) \<and> ce_created v \<le> t \<and>
        current_document cfg (files (ce_created v)) k = Some (ce_document v))"

lemma entry_of_mono: "entry_of cfg files t e \<Longrightarrow> t \<le> u \<Longrightarrow> entry_of cfg files u e"
  by (cases e) (auto simp: entry_of_def)

lemma store_document_set:
  "set (store_document cfg now p path d c) \<subseteq>
    insert (p, int (length d), \<lparr>ce_document = d, ce_created = now\<rparr>) (set c)"
  unfolding store_document_def Let_def
  by (rule order_trans [OF cache_insert_set]) (auto simp: cache_remove_def)

lemma store_document_ok:
  "cache_ok (sf_maxCost cfg) c \<Longrightarrow> cache_ok (sf_maxCost cfg) (store_document cfg now p path d c)"
  unfolding store_document_def Let_def by (intro cache_insert_ok) (simp_all add: cache_remove_ok)

lemma serve_disk_cache:
  "fst (serve_disk cfg fs now p r c) = c \<or>
    (\<exists>d path. current_document cfg fs p = Some d \<and> fst (serve_disk cfg fs now p r c) = store_document cfg now p path d c)"
proof -
  define path where "path = (if is_dir (fs (sf_docroot cfg @ p)) then p @ ''/index.html'' else p)"
  note f = serve_disk_def current_document_def path_def [symmetric] Let_def
  show ?thesis
  proof (cases "fs (sf_docroot cfg @ path)")
    case (Regular t b d)
    then show ?thesis unfolding f by (cases b) auto
  qed (simp_all add: f)
qed

lemma serve_document_cache:
  "(fst (serve_document cfg fs now p r c) = c' \<or>
     (\<exists>d path. current_document cfg fs p = Some d \<and>
        fst (serve_document cfg fs now p r c) = store_document cfg now p path d c'))"
  if "c' = fst (cache_object p c)" for c'
proof -
  define v where "v = snd (cache_object p c)"
  have o: "cache_object p c = (c', v)" unfolding v_def that by simp
  show ?thesis
  proof (cases "\<exists>w. v = Some w \<and> cache_valid cfg fs now p w")
    case True
    then show ?thesis by (auto simp: serve_document_def o)
  next
    case False
    then have "serve_document cfg fs now p r c = serve_disk cfg fs now p r c'"
      using o by (cases v) (auto simp: serve_document_def)
    then show ?thesis using serve_disk_cache [of cfg fs now p r c'] by simp
  qed
qed

lemma static_service_cache:
  "\<exists>c'. (c' = c \<or> c' = fst (cache_object (getPath q) c)) \<and>
    (fst (static_service md5 cfg fs now q r c) = c' \<or>
     (\<exists>d path. current_document cfg fs (getPath q) = Some d \<and>
        fst (static_service md5 cfg fs now q r c) = store_document cfg now (getPath q) path d c'))"
proof -
  define r0 where "r0 = (if starts_with (getPath q) ''/..'' then refuse 403 ''forbidden'' ''403 forbidden'' r else r)"
  obtain r1 ok where k: "CheckCreditinals md5 (sf_account cfg) q r0 = (r1, ok)" by force
  have "static_service md5 cfg fs now q r c = (if ok then serve_document cfg fs now (getPath q) r1 c else (c, r1))"
    by (cases ok) (simp_all add: static_service_def r0_def [symmetric] k)
  then show ?thesis
    using serve_document_cache [OF refl, of cfg fs now "getPath q" r1 c] by (cases ok) auto
qed

lemma serving_inv:
  assumes "serving md5 cfg files t c" "0 \<le> sf_maxCost cfg"
  shows "cache_ok (sf_maxCost cfg) c \<and> (\<forall>e \<in> set c. entry_of cfg files t e)"
  using assms(1)
proof (induction rule: serving.induct)
  case start
  then show ?case using assms(2) by (simp add: cache_ok_def)
next
  case (request t c now q r)
  obtain c' where c': "c' = c \<or> c' = fst (cache_object (getPath q) c)"
    "fst (static_service md5 cfg (files now) now q r c) = c' \<or>
     (\<exists>d path. current_document cfg (files now) (getPath q) = Some d \<and>
        fst (static_service md5 cfg (files now) now q r c) = store_document cfg now (getPath q) path d c')"
    using static_service_cache [of c q md5 cfg "files now" now r] by (elim exE conjE)
  have ok: "cache_ok (sf_maxCost cfg) c'" using request.IH cache_object_ok [of "sf_maxCost cfg" c "getPath q"] c'(1) by (elim disjE) simp_all
  have sub: "set c' \<subseteq> set c" using cache_object_set [of "getPath q" c] c'(1) by (elim disjE) simp_all
  have e: "\<forall>e \<in> set c'. entry_of cfg files now e"
    using request.IH entry_of_mono [OF _ request.hyps(2)] subsetD [OF sub] by metis
  show ?case
  proof (cases "fst (static_service md5 cfg (files now) now q r c) = c'")
    case False
    then obtain d path where d: "current_document cfg (files now) (getPath q) = Some d"
      "fst (static_service md5 cfg (files now) now q r c) = store_document cfg now (getPath q) path d c'"
      using c'(2) by blast
    have "entry_of cfg files now (getPath q, int (length d), \<lparr>ce_document = d, ce_created = now\<rparr>)"
      using d(1) by (simp add: entry_of_def)
    then have "\<forall>e \<in> set (store_document cfg now (getPath q) path d c'). entry_of cfg files now e"
      using e store_document_set [of cfg now "getPath q" path d c'] by blast
    then show ?thesis unfolding d(2) using store_document_ok [OF ok] by blast
  qed (use ok e in simp)
qed

lemma serve_disk_answer:
  assumes "reply_of s Fresh r" "current_document cfg fs p = Some d"
  shows "answered s d (finalize (snd (serve_disk cfg fs now p r c)))"
proof -
  define path where "path = (if is_dir (fs (sf_docroot cfg @ p)) then p @ ''/index.html'' else p)"
  obtain t where t: "fs (sf_docroot cfg @ path) = Regular t True d"
    using assms(2) by (auto simp: current_document_def path_def [symmetric] Let_def split: fs_node.splits bool.splits)
  have "snd (serve_disk cfg fs now p r c) = write_parts (file_parts d) (document_headers cfg path r)"
    by (simp add: serve_disk_def path_def [symmetric] Let_def t)
  moreover have "reply_of s (if d = [] then Fresh else Open d) (write_parts (file_parts d) (document_headers cfg path r))"
    by (rule write_parts_reply [OF fresh_document_headers [OF assms(1)]])
  then have "reply_of s (Closed d) (finalize (write_parts (file_parts d) (document_headers cfg path r)))"
    using finalize_Fresh finalize_Open by (cases "d = []") (simp_all del: reply_of.simps)
  ultimately show ?thesis by simp
qed

lemma cached_answer:
  assumes "reply_of s Fresh r"
  shows "answered s d (finalize (write_part (document_headers cfg p r) d False))"
  using finalize_Open [OF reply_first(1) [OF fresh_document_headers [OF assms]]] by simp

text \<open>
  The documented behaviour of modification times that the cache relies on: a file whose time of
  modification is not after \<open>t\<close> had its present contents at \<open>t\<close>.
\<close>

definition honest :: "(int \<Rightarrow> bytes \<Rightarrow> fs_node) \<Rightarrow> bool" where
  "honest files \<longleftrightarrow> (\<forall>p t u m b d. t \<le> u \<longrightarrow> files u p = Regular m b d \<longrightarrow> m \<le> t \<longrightarrow>
     (\<exists>b'. files t p = Regular m b' d))"

text \<open>
  C24. The cache is transparent for files: in every run, whatever the requests and however files
  change under honest modification times, the answer to a request for a readable file carries
  its present contents, from the cache or from the disk.
\<close>

theorem cache_transparent:
  assumes "serving md5 cfg files t c" "t \<le> now" "honest files" "0 \<le> sf_maxCost cfg"
    and "files now (sf_docroot cfg @ getPath q) = Regular m True d" "\<not> starts_with (getPath q) ''/..''"
    and "CheckCreditinals md5 (sf_account cfg) q r = (r, True)" "reply_of s Fresh r"
  shows "answered s d (finalize (snd (static_service md5 cfg (files now) now q r c)))"
proof -
  let ?p = "getPath q"
  have e: "\<forall>e \<in> set c. entry_of cfg files t e" using serving_inv [OF assms(1,4)] by blast
  have cur: "current_document cfg (files now) ?p = Some d" using assms(5) by (simp add: current_document_def)
  have s: "static_service md5 cfg (files now) now q r c = serve_document cfg (files now) now ?p r c"
    using assms(6,7) by (simp add: static_service_def)
  obtain c' v where o: "cache_object ?p c = (c', v)" by force
  show ?thesis
  proof (cases "\<exists>w. v = Some w \<and> cache_valid cfg (files now) now ?p w")
    case True
    then obtain w where w: "v = Some w" "cache_valid cfg (files now) now ?p w" by blast
    then obtain n where "(?p, n, w) \<in> set c" using cache_object_entry [of ?p c w] o by auto
    then have w2: "ce_created w \<le> t" "current_document cfg (files (ce_created w)) ?p = Some (ce_document w)"
      using e by (auto simp: entry_of_def)
    have "m \<le> ce_created w" using w(2) assms(5) by (simp add: cache_valid_def)
    then obtain b' where "files (ce_created w) (sf_docroot cfg @ ?p) = Regular m b' d"
      using assms(2,3,5) w2(1) unfolding honest_def by (meson order_trans)
    then have "ce_document w = d" using w2(2) by (cases b') (simp_all add: current_document_def)
    then show ?thesis using s o w cached_answer [OF assms(8)] by (simp add: serve_document_def)
  next
    case False
    then have "serve_document cfg (files now) now ?p r c = serve_disk cfg (files now) now ?p r c'"
      using o by (cases v) (auto simp: serve_document_def)
    then show ?thesis using s serve_disk_answer [OF assms(8) cur] by simp
  qed
qed

text \<open>A site whose only file was written at time 1 and never changed.\<close>

definition sample_site :: "int \<Rightarrow> bytes \<Rightarrow> fs_node" where
  "sample_site t p = (if 1 \<le> t \<and> p = ''/srv/a.txt'' then Regular 1 True ''hello'' else Missing 0)"

definition sample_get :: HttpRequest where
  "sample_get = new_request 100 100\<lparr>rq_path := ''/a.txt'', rq_status := complete\<rparr>"

theorem cache_transparent_witness:
  "\<exists>c. serving id sample_config sample_site 3 c \<and>
    answered [] ''hello'' (finalize (snd (static_service id sample_config (sample_site 9) 9 sample_get (new_response good_socket) c)))"
proof -
  have "serving id sample_config sample_site 3
      (fst (static_service id sample_config (sample_site 3) 3 sample_get (new_response good_socket) []))"
    by (rule serving.request [OF serving.start [where t = 0]]) simp
  moreover have "answered [] ''hello'' (finalize (snd (static_service id sample_config (sample_site 9) 9 sample_get
      (new_response good_socket) c)))" if "serving id sample_config sample_site 3 c" for c
  proof (rule cache_transparent [OF that])
    show "honest sample_site" by (auto simp: honest_def sample_site_def split: if_splits)
    show "sample_site 9 (sf_docroot sample_config @ getPath sample_get) = Regular 1 True ''hello''"
      unfolding sample_get_def sample_path by (simp add: sample_site_def sample_config_def)
    show "\<not> starts_with (getPath sample_get) ''/..''" unfolding sample_get_def sample_path by (simp add: starts_with_def)
    show "CheckCreditinals id (sf_account sample_config) sample_get (new_response good_socket) = (new_response good_socket, True)"
      by (simp add: CheckCreditinals_def sample_config_def)
    show "reply_of [] Fresh (new_response good_socket)"
      using fresh_unframed by (simp add: new_response_def sent_def good_socket_def)
  qed (simp_all add: sample_config_def)
  ultimately show ?thesis by blast
qed

text \<open>
  The cache is not transparent for directories: after a request for a directory whose index
  was stored, a second request within the timeout gets the stored index, whatever the files are by
  then, as long as the directory itself is not newer; only the directory's time is compared.
\<close>

theorem stale_index:
  assumes "files1 (sf_docroot cfg @ getPath q) = Directory m1"
    and "files1 (sf_docroot cfg @ getPath q @ ''/index.html'') = Regular m True old"
    and "int (length old) \<le> sf_maxCachedFileSize cfg" "int (length old) \<le> sf_maxCost cfg"
    and "files2 (sf_docroot cfg @ getPath q) = Directory m2" "m2 \<le> t1"
    and "sf_cacheTimeout cfg = 0 \<or> t2 - sf_cacheTimeout cfg < t1"
    and "\<not> starts_with (getPath q) ''/..''" "\<not> ac_requireAuth (sf_account cfg)" "reply_of s Fresh r2"
  shows "answered s old (finalize (snd (static_service md5 cfg files2 t2 q r2
    (fst (static_service md5 cfg files1 t1 q r1 [])))))"
proof -
  let ?p = "getPath q"
  let ?e = "\<lparr>ce_document = old, ce_created = t1\<rparr>"
  have a: "CheckCreditinals md5 (sf_account cfg) q r = (r, True)" for r
    using assms(9) by (simp add: CheckCreditinals_def)
  have "fst (static_service md5 cfg files1 t1 q r1 []) = store_document cfg t1 ?p (?p @ ''/index.html'') old []"
    using assms(1,2,3,8) by (simp add: static_service_def a serve_document_def cache_object_def serve_disk_def Let_def)
  also have "\<dots> = [(?p, int (length old), ?e)]"
    using assms(4) by (simp add: store_document_def cache_contains_def cache_insert_def cache_remove_def cache_trim_keep)
  finally have c: "fst (static_service md5 cfg files1 t1 q r1 []) = [(?p, int (length old), ?e)]" .
  have "cache_valid cfg files2 t2 ?p ?e" using assms(5,6,7) by (simp add: cache_valid_def)
  then have "snd (static_service md5 cfg files2 t2 q r2 [(?p, int (length old), ?e)]) =
      write_part (document_headers cfg ?p r2) old False"
    using assms(8) by (simp add: static_service_def a serve_document_def cache_object_def Let_def)
  then show ?thesis unfolding c using cached_answer [OF assms(10)] by simp
qed

definition index_site :: "bytes \<Rightarrow> bytes \<Rightarrow> fs_node" where
  "index_site content p = (if p = ''/srv/a.txt'' then Directory 1
     else if p = ''/srv/a.txt/index.html'' then Regular 1 True content else Missing 0)"

theorem stale_index_witness:
  "answered [] ''old'' (finalize (snd (static_service id sample_config (index_site ''new'') 9 sample_get
     (new_response good_socket) (fst (static_service id sample_config (index_site ''old'') 3 sample_get (new_response good_socket) [])))))"
  by (rule stale_index [where m = 1 and ?m1.0 = 1 and ?m2.0 = 1])
    (use fresh_unframed in \<open>simp_all add: sample_get_def sample_path index_site_def sample_config_def starts_with_def
      new_response_def sent_def good_socket_def\<close>)

section \<open>The guard of the document root does not stop\<close>

lemma closed_more:
  assumes "rs_sentHeaders r" "\<not> is_chunked r" "healthy (rs_socket r)"
  shows "rs_sentHeaders (write_part r d False)" "\<not> is_chunked (write_part r d False)"
    "healthy (rs_socket (write_part r d False))" "sent (write_part r d False) = sent r @ d"
  using assms send_all_sink [OF assms(3), of "[d]"]
  by (simp_all add: write_part_def Let_def is_chunked_def header_is_def)

lemma closed_parts:
  "rs_sentHeaders r \<Longrightarrow> \<not> is_chunked r \<Longrightarrow> healthy (rs_socket r) \<Longrightarrow> sent (write_parts ds r) = sent r @ concat ds"
proof (induction ds arbitrary: r)
  case (Cons d ds)
  note m = closed_more [OF Cons.prems, of d]
  show ?case using Cons.IH [OF m(1-3)] m(4) by (simp add: write_parts_def)
qed (simp add: write_parts_def)

text \<open>
  C26. The guard refuses and serves: for a path that starts with \<open>/..\<close> the client gets the
  refusal, and after it all the bytes of the file outside the document root.
\<close>

theorem guarded_file_sent:
  assumes "starts_with (getPath q) ''/..''" "\<not> ac_requireAuth (sf_account cfg)"
    and "fs (sf_docroot cfg @ getPath q) = Regular t True d" "reply_of s Fresh r"
  shows "\<exists>h. sent (finalize (snd (static_service md5 cfg fs now q r []))) =
    s @ header_block h @ ''403 forbidden'' @ d"
proof -
  let ?p = "getPath q"
  let ?r = "refuse 403 ''forbidden'' ''403 forbidden'' r"
  have a: "CheckCreditinals md5 (sf_account cfg) q r = (r, True)" for r
    using assms(2) by (simp add: CheckCreditinals_def)
  have f: "reply_of s Fresh (setStatus 403 ''forbidden'' r)" by (rule fresh_status [OF assms(4)])
  then have "unframed (setStatus 403 ''forbidden'' r)" by simp
  note p = single_part [OF this, of "''403 forbidden''", folded refuse_def]
  have sh: "rs_sentHeaders ?r"
    by (simp add: refuse_def write_part_def Let_def send_all_def writeHeaders_def)
  let ?d = "document_headers cfg ?p ?r"
  have d: "rs_sentHeaders ?d" "\<not> is_chunked ?d" "healthy (rs_socket ?d)" "sent ?d = sent ?r" "rs_sentLastPart ?d"
    using sh p(3,4,5)
    by (auto simp: document_headers_def setContentType_def setHeader_def is_chunked_def header_is_def qm_value_def
        qm_get_insert sent_def split: option.split)
  have "snd (static_service md5 cfg fs now q r []) = write_parts (file_parts d) ?d"
    using assms(1,3) by (simp add: static_service_def a serve_document_def cache_object_def serve_disk_def Let_def)
  moreover have "rs_sentLastPart (write_parts ds r0)" if "rs_sentLastPart r0" for ds r0
    using that by (induction ds arbitrary: r0) (simp_all add: write_parts_def)
  ultimately have "sent (finalize (snd (static_service md5 cfg fs now q r []))) = sent ?r @ d"
    using closed_parts [OF d(1-3), of "file_parts d"] d(4,5) by (simp add: finalize_def)
  then show ?thesis using p(1) f by auto
qed

definition outside_get :: HttpRequest where
  "outside_get = new_request 100 100\<lparr>rq_path := ''/../x''\<rparr>"

theorem guarded_file_sent_witness:
  "\<exists>h. sent (finalize (snd (static_service id sample_config (\<lambda>p. if p = ''/srv/../x'' then Regular 1 True ''secret'' else Missing 0)
     5 outside_get (new_response good_socket) []))) = header_block h @ ''403 forbidden'' @ ''secret''"
proof -
  have p: "getPath outside_get = ''/../x''"
    by (simp add: outside_get_def getPath_def urlDecode_def urlDecode_loop.simps indexOf_at_def replace_char_def)
  have f: "reply_of [] Fresh (new_response good_socket)"
    using fresh_unframed by (simp add: new_response_def sent_def good_socket_def)
  show ?thesis
    using guarded_file_sent [OF _ _ _ f, of outside_get sample_config "\<lambda>p. if p = ''/srv/../x'' then Regular 1 True ''secret'' else Missing 0"
        1 "''secret''" id 5]
    by (simp add: p starts_with_def sample_config_def)
qed

text \<open>
  C27. The cache stays within its budget: in every run its documents are as many bytes as it
  accounts for, and at most the configured maximum.
\<close>

theorem cache_within_budget:
  assumes "serving md5 cfg files t c" "0 \<le> sf_maxCost cfg"
  shows "(\<Sum>(k, n, v) \<leftarrow> c. int (length (ce_document v))) = total_cost c \<and> total_cost c \<le> sf_maxCost cfg"
proof -
  have i: "cache_ok (sf_maxCost cfg) c" "\<forall>e \<in> set c. entry_of cfg files t e" using serving_inv [OF assms] by blast+
  from i(2) have "(\<Sum>(k, n, v) \<leftarrow> c. int (length (ce_document v))) = total_cost c"
    by (induction c) (auto simp: entry_of_def)
  then show ?thesis using i(1) by (simp add: cache_ok_def)
qed

theorem cache_within_budget_witness:
  "total_cost (fst (static_service id sample_config (sample_site 3) 3 sample_get (new_response good_socket) [])) \<le> 1000000"
proof -
  have "serving id sample_config sample_site 3
      (fst (static_service id sample_config (sample_site 3) 3 sample_get (new_response good_socket) []))"
    by (rule serving.request [OF serving.start [where t = 0]]) simp
  from cache_within_budget [OF this] show ?thesis by (simp add: sample_config_def)
qed

end
