(* ===== verification/Bencode.thy ===== *)
theory Bencode
  imports Qt_Maps Qt_Bytes
begin

text \<open>
  The encoding of the tracker's replies and of torrent files: \<open>entry\<close>, \<open>bencode\<close> and \<open>bdecode\<close>
  of the library's headers \<open>libtorrent/bencode.hpp\<close> and \<open>libtorrent/entry.hpp\<close>, which the program
  is built with. The number of bytes that \<open>bencode\<close> returns is not modelled.
\<close>

section \<open>Entries\<close>

text \<open>A dictionary is a map ordered by its keys; an integer is in the range of 64 bits.\<close>

datatype entry =
    int_t int
  | string_t bytes
  | list_t "entry list"
  | dictionary_t "(bytes \<times> entry) list"
  | undefined_t

section \<open>Encoding\<close>

text \<open>
  The digits from the last to the first, in the room the buffer leaves. The smallest number has
  no positive counterpart and keeps its sign.
\<close>

fun digits_loop :: "nat \<Rightarrow> int \<Rightarrow> bytes \<Rightarrow> bytes" where
  "digits_loop 0 val buf = buf"
| "digits_loop (Suc room) val buf =
     (if val = 0 then buf
      else digits_loop room (cdiv val 10) (char_of (nat (48 + cmod val 10)) # buf))"

definition integer_to_str :: "int \<Rightarrow> bytes" where
  "integer_to_str val =
     (let sign = val < 0;
          v = (if sign then i64 (- val) else val);
          buf = (if v = 0 then ''0'' else []);
          buf = digits_loop (if sign then 19 else 20) v buf
      in if sign then CHR ''-'' # buf else buf)"

definition bencode_string :: "bytes \<Rightarrow> bytes" where
  "bencode_string s = integer_to_str (int (length s)) @ '':'' @ s"

fun bencode :: "entry \<Rightarrow> bytes" where
  "bencode (int_t n) = ''i'' @ integer_to_str n @ ''e''"
| "bencode (string_t s) = bencode_string s"
| "bencode (list_t es) = ''l'' @ concat (map bencode es) @ ''e''"
| "bencode (dictionary_t m) = ''d'' @ concat (map (\<lambda>(k, e). bencode_string k @ bencode e) m) @ ''e''"
| "bencode undefined_t = []"

section \<open>Decoding\<close>

definition read_until :: "char \<Rightarrow> bytes \<Rightarrow> (bytes \<times> bytes) option" where
  "read_until tok s =
     (if tok \<in> set s
      then Some (takeWhile (\<lambda>c. c \<noteq> tok) s, drop (Suc (length (takeWhile (\<lambda>c. c \<noteq> tok) s))) s)
      else None)"

text \<open>
  The C library's conversion of the leading digits, up to a zero byte, clamped to 64 bits;
  \<open>None\<close> when there are none.
\<close>

definition digits_value :: "bytes \<Rightarrow> nat option" where
  "digits_value s = parse_nat 10 (takeWhile (\<lambda>c. digit_in 10 c \<noteq> None) s)"

definition strtoll :: "bytes \<Rightarrow> int option" where
  "strtoll s =
     (let s = ltrim (takeWhile (\<lambda>c. c \<noteq> CHR 0x00) s);
          v = (case s of [] \<Rightarrow> None
               | c # t \<Rightarrow> if c = CHR ''-'' then map_option (\<lambda>n. - int n) (digits_value t)
                          else if c = CHR ''+'' then map_option int (digits_value t)
                          else map_option int (digits_value s))
      in map_option (\<lambda>v. max (- (2 ^ 63)) (min (2 ^ 63 - 1) v)) v)"

definition atoi :: "bytes \<Rightarrow> int" where
  "atoi s = i32 (case strtoll s of None \<Rightarrow> 0 | Some v \<Rightarrow> v)"

definition read_string :: "bytes \<Rightarrow> int \<Rightarrow> (bytes \<times> bytes) option" where
  "read_string s len =
     (if int (length s) < len then None else Some (take (nat len) s, drop (nat len) s))"

text \<open>
  The recursive reader. \<open>Done None\<close> is the error flag; \<open>Fault\<close> is a read at the end of the
  input, which the loops over a list and a dictionary do when nothing follows their first letter.
  A key that is not a string ends the dictionary without the error flag. \<open>Loop\<close> is a round that
  does not advance.
\<close>

definition is_digit :: "char \<Rightarrow> bool" where
  "is_digit c \<longleftrightarrow> digit_in 10 c \<noteq> None"

definition bdecode_scalar :: "char \<Rightarrow> bytes \<Rightarrow> (entry \<times> bytes) option" where
  "bdecode_scalar c s =
     (if c = CHR ''i'' then
        (case read_until (CHR ''e'') (tl s) of None \<Rightarrow> None
         | Some (val, t) \<Rightarrow> map_option (\<lambda>n. (int_t n, t)) (strtoll val))
      else if is_digit c then
        (case read_until (CHR '':'') s of None \<Rightarrow> None
         | Some (len, t) \<Rightarrow> map_option (\<lambda>(x, t). (string_t x, t)) (read_string t (atoi len)))
      else None)"

function bdecode_recursive :: "nat \<Rightarrow> bytes \<Rightarrow> (entry \<times> bytes) option run"
  and bdecode_list :: "nat \<Rightarrow> bytes \<Rightarrow> entry list \<Rightarrow> (entry \<times> bytes) option run"
  and bdecode_dict :: "nat \<Rightarrow> bytes \<Rightarrow> (bytes \<times> entry) list \<Rightarrow> (entry \<times> bytes) option run" where
  "bdecode_recursive depth s =
     (if 100 \<le> depth then Done None
      else case s of [] \<Rightarrow> Done None
        | c # t \<Rightarrow>
            (if c = CHR ''l'' then bdecode_list (Suc depth) t []
             else if c = CHR ''d'' then bdecode_dict (Suc depth) t []
             else Done (bdecode_scalar c s)))"
| "bdecode_list depth s es =
     (case s of [] \<Rightarrow> Fault
      | c # t \<Rightarrow>
          (if c = CHR ''e'' then Done (Some (list_t es, t))
           else case bdecode_recursive depth s of
             Done (Some (e, u)) \<Rightarrow>
               (if u = [] then Done None
                else if length u < length s then bdecode_list depth u (es @ [e]) else Loop)
           | r \<Rightarrow> r))"
| "bdecode_dict depth s m =
     (case s of [] \<Rightarrow> Fault
      | c # t \<Rightarrow>
          (if c = CHR ''e'' then Done (Some (dictionary_t m, t))
           else case bdecode_recursive depth s of
             Done (Some (string_t k, u)) \<Rightarrow>
               (if length u < length s then
                 (case bdecode_recursive depth u of
                    Done (Some (e, v)) \<Rightarrow>
                      (if v = [] then Done None
                       else if length v < length s then bdecode_dict depth v (qm_insert k e m) else Loop)
                  | r \<Rightarrow> r)
                else Loop)
           | Done (Some (e, u)) \<Rightarrow> Done (Some (dictionary_t m, u))
           | r \<Rightarrow> r))"
  by pat_completeness auto
termination
  by (relation "measure (\<lambda>x. case x of Inl (d, s) \<Rightarrow> 2 * length s
      | Inr (Inl (d, s, es)) \<Rightarrow> Suc (2 * length s) | Inr (Inr (d, s, m)) \<Rightarrow> Suc (2 * length s))") auto

declare bdecode_recursive.simps [simp del] bdecode_list.simps [simp del] bdecode_dict.simps [simp del]

definition bdecode :: "bytes \<Rightarrow> entry run" where
  "bdecode s = rbind (bdecode_recursive 0 s) (\<lambda>r. Done (case r of None \<Rightarrow> undefined_t | Some (e, t) \<Rightarrow> e))"

section \<open>Numbers\<close>

lemma digits_loop_text:
  "n < 10 ^ room \<Longrightarrow> digits_loop room (int n) buf = (if n = 0 then [] else nat_text 10 n) @ buf"
proof (induction room arbitrary: n buf)
  case (Suc room)
  show ?case
  proof (cases "n = 0")
    case False
    have d: "cdiv (int n) 10 = int (n div 10)" "cmod (int n) 10 = int (n mod 10)"
      by (simp_all add: cdiv_nonneg cmod_nonneg zdiv_int zmod_int)
    have "nat (48 + int (n mod 10)) = 48 + n mod 10" by (simp add: nat_add_distrib)
    then have c: "char_of (nat (48 + int (n mod 10))) = digit_char (n mod 10)"
      by (simp add: digit_char_def)
    have "n div 10 < 10 ^ room" using Suc.prems by (simp add: less_mult_imp_div_less mult.commute)
    from Suc.IH [OF this] have "digits_loop (Suc room) (int n) buf =
        (if n div 10 = 0 then [] else nat_text 10 (n div 10)) @ digit_char (n mod 10) # buf"
      using False by (simp only: digits_loop.simps d c) simp
    also have "\<dots> = nat_text 10 n @ buf"
      by (cases "n < 10") (simp_all add: nat_text_def digits.simps [of 10 n])
    finally show ?thesis using False by simp
  qed simp
qed simp

lemma integer_to_str_text:
  assumes "- (2 ^ 63) < v" "v < 2 ^ 63"
  shows "integer_to_str v = int_text 10 v"
proof -
  have d: "digits_loop room (int n) (if int n = 0 then ''0'' else []) = nat_text 10 n"
    if "n < 10 ^ room" for room n
    using digits_loop_text [OF that] by (cases "n = 0") (simp_all add: nat_text_def digits.simps digit_char_def char_of_def bit_0)
  show ?thesis
  proof (cases "v < 0")
    case True
    then have "i64 (- v) = int (nat (- v))" using assms by (simp add: i64_id in_i64_def)
    moreover have "nat (- v) < 10 ^ 19" using assms by simp
    ultimately show ?thesis using d [of "nat (- v)" 19] True by (simp add: integer_to_str_def Let_def int_text_def)
  next
    case False
    then have "nat v < 10 ^ 20" using assms by simp
    then show ?thesis using d [of "nat v" 20] False by (simp add: integer_to_str_def Let_def int_text_def)
  qed
qed

lemma text_digits: "c \<in> set (nat_text 10 n) \<Longrightarrow> is_digit c"
  using nat_text_chars [of 10 c n] by (auto simp: is_digit_def digit_in_char)

lemma is_digit_not: "is_digit c \<Longrightarrow> c \<noteq> CHR 0x00 \<and> c \<noteq> CHR '':'' \<and> c \<noteq> CHR ''e'' \<and> c \<noteq> CHR ''i'' \<and> c \<noteq> CHR ''l'' \<and>
    c \<noteq> CHR ''d'' \<and> c \<noteq> CHR ''-'' \<and> c \<noteq> CHR ''+'' \<and> \<not> is_space c"
  by (auto simp: is_digit_def digit_in_def char_digit_def is_space_def Let_def split: if_splits option.splits)

lemma digits_value_text: "digits_value (nat_text 10 n) = Some n"
proof -
  have "takeWhile (\<lambda>c. digit_in 10 c \<noteq> None) (nat_text 10 n) = nat_text 10 n"
    unfolding takeWhile_eq_all_conv using text_digits by (simp add: is_digit_def)
  then show ?thesis unfolding digits_value_def by (simp only: parse_nat_text [of 10])
qed

lemma strtoll_text:
  assumes "in_i64 v"
  shows "strtoll (int_text 10 v) = Some v"
proof -
  have z: "takeWhile (\<lambda>c. c \<noteq> CHR 0x00) (int_text 10 v) = int_text 10 v"
    unfolding takeWhile_eq_all_conv using text_digits is_digit_not by (auto simp: int_text_def)
  obtain c t where n: "nat_text 10 (nat v) = c # t" "is_digit c"
    using text_digits [of _ "nat v"] nat_text_nonempty [of 10 "nat v"] by (metis list.exhaust list.set_intros(1))
  show ?thesis
    using assms n is_digit_not [OF n(2)] digits_value_text [of "nat v"] digits_value_text [of "nat (- v)"]
    unfolding strtoll_def z int_text_tight by (cases "v < 0") (auto simp: int_text_def in_i64_def)
qed

lemma atoi_text: "n < 2 ^ 31 \<Longrightarrow> atoi (integer_to_str (int n)) = int n"
  by (simp add: atoi_def integer_to_str_text strtoll_text in_i64_def i32_id in_i32_def)

lemma read_until_append: "tok \<notin> set a \<Longrightarrow> read_until tok (a @ tok # b) = Some (a, b)"
  by (auto simp: read_until_def takeWhile_append)

section \<open>What is written is read back\<close>

text \<open>
  Entries the encoding is made for: nested at most \<open>n\<close> deep, with numbers that have a positive
  counterpart, and dictionaries in the order of their keys.
\<close>

fun encodable :: "nat \<Rightarrow> entry \<Rightarrow> bool" where
  "encodable 0 e = False"
| "encodable (Suc n) (int_t v) \<longleftrightarrow> - (2 ^ 63) < v \<and> v < 2 ^ 63"
| "encodable (Suc n) (string_t s) \<longleftrightarrow> length s < 2 ^ 31"
| "encodable (Suc n) (list_t es) \<longleftrightarrow> (\<forall>e \<in> set es. encodable n e)"
| "encodable (Suc n) (dictionary_t m) \<longleftrightarrow> qm_ok m \<and> (\<forall>(k, e) \<in> set m. length k < 2 ^ 31 \<and> encodable n e)"
| "encodable (Suc n) undefined_t = False"

lemma bencode_string_hd: "\<exists>c t. bencode_string s = c # t \<and> is_digit c"
proof -
  define b where "b = digits_loop 20 (int (length s)) (if int (length s) = 0 then ''0'' else [])"
  have p: "\<forall>c \<in> set buf. is_digit c \<Longrightarrow> 0 \<le> v \<Longrightarrow> \<forall>c \<in> set (digits_loop room v buf). is_digit c" for room v buf
  proof (induction room v buf rule: digits_loop.induct)
    case (2 room val buf)
    have c: "0 \<le> cmod val 10" "nat (cmod val 10) < 10" using 2(3) by (simp_all add: cmod_nonneg nat_less_iff)
    then have "char_of (nat (48 + cmod val 10)) = digit_char (nat (cmod val 10))"
      by (simp add: digit_char_def nat_add_distrib)
    then have "is_digit (char_of (nat (48 + cmod val 10)))" using c(2) by (simp add: is_digit_def digit_in_char)
    then show ?case using 2 by (simp add: cdiv_nonneg)
  qed simp
  have l: "length buf \<le> length (digits_loop room v buf)" for room v buf
    by (induction room v buf rule: digits_loop.induct) auto
  have ne: "b \<noteq> []"
  proof (cases "int (length s) = 0")
    case True
    then show ?thesis using l [of "''0''" 20 0] by (auto simp: b_def)
  next
    case False
    then have "b = digits_loop 19 (cdiv (int (length s)) 10) [char_of (nat (48 + cmod (int (length s)) 10))]"
      using digits_loop.simps(2) [of 19 "int (length s)" "[]"] by (simp add: b_def del: digits_loop.simps)
    with l [of "[char_of (nat (48 + cmod (int (length s)) 10))]" 19 "cdiv (int (length s)) 10"]
    show ?thesis by (metis length_greater_0_conv less_le_trans list.distinct(1))
  qed
  have "is_digit (CHR ''0'')" by (simp add: is_digit_def digit_in_def char_digit_def)
  then have "\<forall>c \<in> set b. is_digit c" unfolding b_def by (intro p) auto
  with ne obtain c t where "b = c # t" "is_digit c" by (cases b) auto
  then show ?thesis by (simp add: bencode_string_def integer_to_str_def b_def)
qed

lemma scalar_int:
  assumes "- (2 ^ 63) < v" "v < 2 ^ 63"
  shows "bdecode_scalar (CHR ''i'') (bencode (int_t v) @ t) = Some (int_t v, t)"
proof -
  have "CHR ''e'' \<notin> set (nat_text 10 n)" for n using text_digits [of "CHR ''e''" n] is_digit_not by blast
  then have "CHR ''e'' \<notin> set (int_text 10 v)" by (simp add: int_text_def)
  then show ?thesis
    using assms read_until_append [of "CHR ''e''" "int_text 10 v" t]
    by (simp add: bdecode_scalar_def integer_to_str_text strtoll_text in_i64_def)
qed

lemma scalar_string:
  assumes "length x < 2 ^ 31" "bencode_string x @ t = c # u"
  shows "bdecode_scalar c (bencode_string x @ t) = Some (string_t x, t)" "is_digit c"
proof -
  have c: "is_digit c" using bencode_string_hd [of x] assms(2) by auto
  have i: "integer_to_str (int (length x)) = nat_text 10 (length x)"
    using assms(1) by (simp add: integer_to_str_text int_text_def)
  have "CHR '':'' \<notin> set (nat_text 10 (length x))" using text_digits is_digit_not by blast
  then have "read_until (CHR '':'') (bencode_string x @ t) = Some (nat_text 10 (length x), x @ t)"
    using read_until_append [of "CHR '':''" "nat_text 10 (length x)" "x @ t"] by (simp add: bencode_string_def i)
  moreover have "atoi (nat_text 10 (length x)) = int (length x)" using atoi_text [OF assms(1)] i by simp
  moreover have "c \<noteq> CHR ''i''" using is_digit_not [OF c] by simp
  ultimately show "bdecode_scalar c (bencode_string x @ t) = Some (string_t x, t)"
    using c by (simp add: bdecode_scalar_def read_string_def)
  show "is_digit c" by fact
qed

lemma decode_string:
  assumes "length x < 2 ^ 31" "d < 100"
  shows "bdecode_recursive d (bencode_string x @ t) = Done (Some (string_t x, t))"
proof -
  obtain c u where c: "bencode_string x @ t = c # u" using bencode_string_hd [of x] by auto
  note s = scalar_string [OF assms(1) c]
  show ?thesis using s(1) is_digit_not [OF s(2)] assms(2) unfolding c
    by (simp add: bdecode_recursive.simps [of d "c # u"])
qed

lemma bencode_hd: "encodable n e \<Longrightarrow> \<exists>c t. bencode e = c # t \<and> c \<noteq> CHR ''e''"
  using bencode_string_hd is_digit_not by (induction n e rule: encodable.induct) (auto, metis)

lemma decode_list_items:
  assumes "\<And>e t. e \<in> set es \<Longrightarrow> bdecode_recursive d (bencode e @ t) = Done (Some (e, t))"
    and "\<And>e. e \<in> set es \<Longrightarrow> \<exists>c t. bencode e = c # t \<and> c \<noteq> CHR ''e''"
  shows "bdecode_list d (concat (map bencode es) @ ''e'' @ t) acc = Done (Some (list_t (acc @ es), t))"
  using assms
proof (induction es arbitrary: acc)
  case Nil
  show ?case by (simp add: bdecode_list.simps [of d "CHR ''e'' # t"])
next
  case (Cons e es)
  let ?u = "concat (map bencode es) @ ''e'' @ t"
  obtain c v where c: "bencode e = c # v" "c \<noteq> CHR ''e''" using Cons.prems(2) [of e] by auto
  have r: "bdecode_recursive d (bencode e @ ?u) = Done (Some (e, ?u))" using Cons.prems(1) [of e] by simp
  have "bdecode_list d (bencode e @ ?u) acc = bdecode_list d ?u (acc @ [e])"
    using r c by (subst bdecode_list.simps) simp
  then show ?case using Cons.IH [of "acc @ [e]"] Cons.prems by simp
qed

lemma decode_dict_items:
  assumes "\<And>k e t. (k, e) \<in> set m \<Longrightarrow> bdecode_recursive d (bencode e @ t) = Done (Some (e, t))"
    and "\<And>k e. (k, e) \<in> set m \<Longrightarrow> bencode e \<noteq> [] \<and> length k < 2 ^ 31" "qm_ok (acc @ m)" "d < 100"
  shows "bdecode_dict d (concat (map (\<lambda>(k, e). bencode_string k @ bencode e) m) @ ''e'' @ t) acc =
    Done (Some (dictionary_t (acc @ m), t))"
  using assms
proof (induction m arbitrary: acc)
  case Nil
  show ?case by (simp add: bdecode_dict.simps [of d "CHR ''e'' # t"])
next
  case (Cons ke m)
  obtain k e where ke: "ke = (k, e)" by (cases ke)
  let ?u = "concat (map (\<lambda>(k, e). bencode_string k @ bencode e) m) @ ''e'' @ t"
  obtain c v where c: "bencode_string k = c # v" "is_digit c" using bencode_string_hd by blast
  have "c \<noteq> CHR ''e''" using is_digit_not [OF c(2)] by simp
  moreover have "bdecode_recursive d (bencode_string k @ bencode e @ ?u) = Done (Some (string_t k, bencode e @ ?u))"
    using decode_string [of k d] Cons.prems(2) [of k e] Cons.prems(4) ke by simp
  moreover have "bdecode_recursive d (bencode e @ ?u) = Done (Some (e, ?u))" using Cons.prems(1) [of k e] ke by simp
  moreover have "length ?u < length (bencode e @ ?u)" using Cons.prems(2) [of k e] ke by simp
  ultimately have "bdecode_dict d (bencode_string k @ bencode e @ ?u) acc = bdecode_dict d ?u (qm_insert k e acc)"
    using c(1) by (subst bdecode_dict.simps) simp
  moreover have "\<forall>kv \<in> set acc. fst kv < k"
    using Cons.prems(3) by (auto simp: ke qm_ok_def sorted_wrt_append)
  then have "qm_insert k e acc = acc @ [ke]" by (simp add: qm_insert_last ke)
  moreover have "bdecode_dict d ?u (acc @ [ke]) = Done (Some (dictionary_t ((acc @ [ke]) @ m), t))"
  proof (rule Cons.IH)
    show "bdecode_recursive d (bencode e @ t) = Done (Some (e, t))" if "(k, e) \<in> set m" for k e t
      using Cons.prems(1) [of k e t] that by simp
    show "bencode e \<noteq> [] \<and> length k < 2 ^ 31" if "(k, e) \<in> set m" for k e
      using Cons.prems(2) [of k e] that by simp
  qed (use Cons.prems(3,4) in simp_all)
  ultimately show ?case by (simp add: ke)
qed

lemma decode_encoded:
  "encodable n e \<Longrightarrow> d + n \<le> 100 \<Longrightarrow> bdecode_recursive d (bencode e @ t) = Done (Some (e, t))"
proof (induction n e arbitrary: d t rule: encodable.induct)
  case (2 n v)
  then show ?case using scalar_int [of v t]
    by (simp add: bdecode_recursive.simps [of d "CHR ''i'' # _"])
next
  case (3 n s)
  then show ?case by (simp add: decode_string)
next
  case (4 n es)
  have "bdecode_list (Suc d) (concat (map bencode es) @ ''e'' @ t) [] = Done (Some (list_t ([] @ es), t))"
    by (rule decode_list_items) (use 4 bencode_hd in auto)
  then show ?case using 4(3) by (simp add: bdecode_recursive.simps [of d "CHR ''l'' # _"])
next
  case (5 n m)
  show ?case
  proof (cases "m = []")
    case True
    then show ?thesis using 5(3)
      by (simp add: bdecode_recursive.simps [of d "CHR ''d'' # _"] bdecode_dict.simps [of _ "CHR ''e'' # t"])
  next
    case False
    then obtain k e where "(k, e) \<in> set m" by (cases m) auto
    then have "0 < n" using 5(2) by (cases n) auto
    have "bdecode_dict (Suc d) (concat (map (\<lambda>(k, e). bencode_string k @ bencode e) m) @ ''e'' @ t) [] =
        Done (Some (dictionary_t ([] @ m), t))"
      by (rule decode_dict_items) (use 5 \<open>0 < n\<close> bencode_hd in fastforce)+
    then show ?thesis using 5(3) by (simp add: bdecode_recursive.simps [of d "CHR ''d'' # _"])
  qed
qed simp_all

text \<open>
  C28. Bencoding is read back: an entry nested at most 100 deep, with ordered dictionaries and
  every number but the smallest, is decoded from its encoding, whatever follows it.
\<close>

theorem bdecode_bencode:
  assumes "encodable 100 e"
  shows "bdecode (bencode e @ t) = Done e"
  using decode_encoded [OF assms, of 0 t] by (simp add: bdecode_def)

definition sample_entry :: entry where
  "sample_entry = dictionary_t [(''interval'', int_t 1800), (''peers'', list_t [string_t ''x'', int_t (- 7)])]"

theorem bdecode_bencode_witness: "bdecode (bencode sample_entry @ ''tail'') = Done sample_entry"
proof -
  have "encodable (Suc (Suc (Suc n))) sample_entry" for n by (auto simp: sample_entry_def qm_ok_def)
  from this [of 97] have "encodable 100 sample_entry" by (simp del: encodable.simps)
  then show ?thesis by (rule bdecode_bencode)
qed

end
