(* ===== verification/Tracker.thy ===== *)
theory Tracker
  imports Bencode Http_Request Http_Reply
begin

text \<open>
  The tracker: \<open>tracker/trackerrequestmapper.cpp\<close> and \<open>tracker/AnnounceRequest.cpp\<close>. Its state is
  the table of the torrents and their peers. Addresses are IPv4, strings are byte strings.
\<close>

section \<open>Peers and requests\<close>

record PeerInfo =
  pi_peer_id :: bytes
  pi_ip :: "32 word"
  pi_port :: int

record AnnounceRequest =
  ar_info_hash :: bytes
  ar_peer_id :: bytes
  ar_ip :: "32 word"
  ar_port :: int
  ar_event :: bytes
  ar_numwant :: int
  ar_no_peer_id :: bool
  ar_compact :: bool

type_synonym peer_list = "(bytes, PeerInfo) qmap"
type_synonym torrents = "(bytes, peer_list) qmap"

definition getID :: "PeerInfo \<Rightarrow> bytes" where
  "getID p = ip_text (pi_ip p) @ '':'' @ int_text 10 (pi_port p)"

definition toEntry :: "bool \<Rightarrow> bool \<Rightarrow> PeerInfo \<Rightarrow> entry" where
  "toEntry no_peer_id compact p =
     (let m = (if \<not> no_peer_id then qm_insert ''id'' (string_t (pi_peer_id p)) [] else []);
          m = (if \<not> compact then qm_insert ''ip'' (string_t (ip_text (pi_ip p))) m
               else qm_insert ''ip'' (int_t (uint (pi_ip p))) m);
          m = qm_insert ''port'' (int_t (pi_port p)) m
      in dictionary_t m)"

definition getPeerInfo :: "AnnounceRequest \<Rightarrow> PeerInfo" where
  "getPeerInfo a = \<lparr>pi_peer_id = ar_peer_id a, pi_ip = ar_ip a, pi_port = ar_port a\<rparr>"

section \<open>The handler\<close>

definition failtureText :: "(int \<times> bytes) list" where
  "failtureText =
     [(100, ''Invalid request type: client request was not a HTTP GET.''),
      (101, ''Missing info_hash.''),
      (102, ''Missing peer_id.''),
      (103, ''Missing port.''),
      (150, ''Invalid infohash: infohash is not 20 bytes long.''),
      (151, ''Invalid peerid: peerid is not 20 bytes long.''),
      (152, ''Invalid numwant. Client requested more peers than allowed by tracker.''),
      (200, ''info_hash not found in the database.''),
      (500, ''Client sent an eventless request before the specified time.''),
      (900, ''Generic error.'')]"

definition error_entry :: "int \<Rightarrow> entry" where
  "error_entry code =
     (let m = qm_insert ''failure code'' (int_t code) [] in
      dictionary_t (case qm_get failtureText code of
          Some t \<Rightarrow> qm_insert ''failure reason'' (string_t t) m | None \<Rightarrow> m))"

definition ReplyError :: "int \<Rightarrow> HttpResponse \<Rightarrow> HttpResponse" where
  "ReplyError code r = write_part (setStatus 200 ''OK'' r) (bencode (error_entry code)) False"

text \<open>The peers of a reply: in the order of their ids, until the wanted number is reached.\<close>

fun peer_entries :: "bool \<Rightarrow> bool \<Rightarrow> int \<Rightarrow> int \<Rightarrow> PeerInfo list \<Rightarrow> entry list" where
  "peer_entries no_peer_id compact numwant count [] = []"
| "peer_entries no_peer_id compact numwant count (p # ps) =
     toEntry no_peer_id compact p #
       (if count + 1 = numwant then [] else peer_entries no_peer_id compact numwant (count + 1) ps)"

definition reply_entry :: "AnnounceRequest \<Rightarrow> torrents \<Rightarrow> entry" where
  "reply_entry a ts =
     (let peers = map snd (qm_value [] ts (ar_info_hash a)) in
      dictionary_t (qm_insert ''peers'' (list_t (peer_entries (ar_no_peer_id a) (ar_compact a) (ar_numwant a) 0 peers))
        (qm_insert ''interval'' (int_t 1800) [])))"

definition ReplyWithPeerList :: "HttpResponse \<Rightarrow> AnnounceRequest \<Rightarrow> torrents \<Rightarrow> HttpResponse" where
  "ReplyWithPeerList r a ts = write_part (setStatus 200 ''OK'' r) (bencode (reply_entry a ts)) False"

text \<open>
  Reading the parameters. The hash is converted through a zero-terminated string, so its bytes
  end at the first zero byte. The result is an error code or the request.
\<close>

definition c_string :: "bytes \<Rightarrow> bytes" where
  "c_string s = takeWhile (\<lambda>c. c \<noteq> CHR 0x00) s"

definition announce_options :: "HttpRequest \<Rightarrow> bytes \<Rightarrow> bytes \<Rightarrow> int \<Rightarrow> AnnounceRequest" where
  "announce_options q info_hash peer_id port =
     (let tmp = or_zero (bytes_toInt 10 (getParameter q ''numwant'')) in
      \<lparr>ar_info_hash = info_hash, ar_peer_id = peer_id, ar_ip = rq_source q, ar_port = port,
        ar_event = getParameter q ''event'', ar_numwant = (if 0 < tmp then tmp else 50),
        ar_no_peer_id = getParameter q ''no_peer_id'' \<noteq> [], ar_compact = getParameter q ''compact'' \<noteq> []\<rparr>)"

definition announce_request :: "HttpRequest \<Rightarrow> int + AnnounceRequest" where
  "announce_request q =
     (let info_hash = to_hex (c_string (getParameter q ''info_hash''));
          peer_id = getParameter q ''peer_id'';
          port = getParameter q ''port''
      in if info_hash = [] then Inl 101
         else if length info_hash \<noteq> 40 then Inl 150
         else if peer_id = [] then Inl 102
         else if length peer_id \<noteq> 20 then Inl 151
         else if port = [] then Inl 103
         else case string_toInt port of
             None \<Rightarrow> Inl 103
           | Some n \<Rightarrow> if n < 1 \<or> 65535 < n then Inl 103 else Inr (announce_options q info_hash peer_id n))"

definition ProcessAnnounceRequest :: "HttpRequest \<Rightarrow> HttpResponse \<Rightarrow> torrents \<Rightarrow> torrents \<times> HttpResponse" where
  "ProcessAnnounceRequest q r ts =
     (case announce_request q of
        Inl code \<Rightarrow> (ts, ReplyError code r)
      | Inr a \<Rightarrow>
          (let info = getPeerInfo a;
               peers = qm_value [] ts (ar_info_hash a)
           in if qm_contains ts (ar_info_hash a) \<and> ar_event a = ''stopped''
              then (qm_insert (ar_info_hash a) (qm_remove (getID info) peers) ts, r)
              else (let ts = qm_insert (ar_info_hash a) (qm_insert (getID info) info peers) ts
                    in (ts, ReplyWithPeerList r a ts))))"

definition tracker_service :: "HttpRequest \<Rightarrow> HttpResponse \<Rightarrow> torrents \<Rightarrow> torrents \<times> HttpResponse" where
  "tracker_service q r ts =
     (if rq_method q \<noteq> ''GET''
      then (ts, write_part (setStatus 100 ''Method Not Allowed'' r) ''<body><h1>100 Method Not Allowed</h1></body>'' False)
      else if starts_with (lower_case (getPath q)) ''/announce'' then ProcessAnnounceRequest q r ts
      else (ts, write_part (setStatus 400 ''Bad Request'' r) ''<body><h1>400 Bad Request </h1></body>'' False))"

section \<open>The table\<close>

definition valid_peer :: "bytes \<Rightarrow> PeerInfo \<Rightarrow> bool" where
  "valid_peer k p \<longleftrightarrow> k = getID p \<and> length (pi_peer_id p) = 20 \<and> 1 \<le> pi_port p \<and> pi_port p \<le> 65535"

definition valid_table :: "torrents \<Rightarrow> bool" where
  "valid_table ts \<longleftrightarrow> qm_ok ts \<and>
     (\<forall>(h, ps) \<in> set ts. length h = 40 \<and> qm_ok ps \<and> (\<forall>(k, p) \<in> set ps. valid_peer k p))"

inductive tracker_run :: "torrents \<Rightarrow> bool" where
  start: "tracker_run []"
| request: "tracker_run ts \<Longrightarrow> tracker_run (fst (tracker_service q r ts))"

lemma valid_peers:
  assumes "valid_table ts"
  shows "qm_ok (qm_value [] ts h)" "\<forall>(k, p) \<in> set (qm_value [] ts h). valid_peer k p"
proof -
  have "qm_value [] ts h = [] \<or> (h, qm_value [] ts h) \<in> set ts"
    by (auto simp: qm_value_def split: option.splits dest: map_of_SomeD)
  then show "qm_ok (qm_value [] ts h)" "\<forall>(k, p) \<in> set (qm_value [] ts h). valid_peer k p"
    using assms by (fastforce simp: valid_table_def)+
qed

lemma valid_insert:
  assumes "valid_table ts" "length h = 40" "qm_ok ps" "\<forall>(k, p) \<in> set ps. valid_peer k p"
  shows "valid_table (qm_insert h ps ts)"
  using assms qm_insert_set [of h ps ts] by (fastforce simp: valid_table_def qm_ok_insert)

lemma announce_valid:
  assumes "announce_request q = Inr a"
  shows "length (ar_info_hash a) = 40" "valid_peer (getID (getPeerInfo a)) (getPeerInfo a)" "0 < ar_numwant a"
  using assms
  by (auto simp: announce_request_def announce_options_def Let_def valid_peer_def getPeerInfo_def split: if_splits option.splits)

lemma process_valid:
  assumes "valid_table ts"
  shows "valid_table (fst (ProcessAnnounceRequest q r ts))"
proof (cases "announce_request q")
  case (Inr a)
  note a = announce_valid [OF Inr]
  let ?ps = "qm_value [] ts (ar_info_hash a)"
  note p = valid_peers [OF assms, of "ar_info_hash a"]
  have "valid_table (qm_insert (ar_info_hash a) (qm_remove (getID (getPeerInfo a)) ?ps) ts)"
    by (rule valid_insert [OF assms a(1)]) (use p in \<open>auto simp: qm_ok_remove qm_remove_def qm_ok_filter\<close>)
  moreover have "valid_table (qm_insert (ar_info_hash a) (qm_insert (getID (getPeerInfo a)) (getPeerInfo a) ?ps) ts)"
    by (rule valid_insert [OF assms a(1)])
      (use p a(2) qm_insert_set [of "getID (getPeerInfo a)" "getPeerInfo a" ?ps] in \<open>auto simp: qm_ok_insert\<close>)
  ultimately show ?thesis by (simp add: ProcessAnnounceRequest_def Inr Let_def)
qed (use assms in \<open>simp add: ProcessAnnounceRequest_def\<close>)

lemma run_valid: "tracker_run ts \<Longrightarrow> valid_table ts"
proof (induction rule: tracker_run.induct)
  case (request ts q r)
  then show ?case using process_valid by (simp add: tracker_service_def)
qed (simp add: valid_table_def)


definition sample_announce :: HttpRequest where
  "sample_announce = new_request 100 100\<lparr>rq_method := ''GET'', rq_path := ''/announce'', rq_source := 16909060,
     rq_parameters := [(''info_hash'', replicate 20 (CHR ''a'')), (''peer_id'', replicate 20 (CHR ''b'')), (''port'', ''6881'')]\<rparr>"

lemma sample_announce_request:
  "announce_request sample_announce =
    Inr (announce_options sample_announce (to_hex (replicate 20 (CHR ''a''))) (replicate 20 (CHR ''b'')) 6881)"
proof -
  have p: "string_toInt ''6881'' = Some 6881"
    by (simp add: string_toInt_def trimmed_def ltrim_def is_space_def parse_signed_def parse_unsigned_def starts_with_def
        parse_nat_def digit_in_def char_digit_def of_digits_def int_in_def Let_def)
  have g: "getParameter sample_announce ''info_hash'' = replicate 20 (CHR ''a'')"
    "getParameter sample_announce ''peer_id'' = replicate 20 (CHR ''b'')" "getParameter sample_announce ''port'' = ''6881''"
    by (simp_all add: getParameter_def sample_announce_def qm_value_def)
  have c: "c_string (replicate 20 (CHR ''a'')) = replicate 20 (CHR ''a'')"
    by (simp add: c_string_def)
  have n: "replicate 20 (CHR ''a'') \<noteq> []" "to_hex (replicate 20 (CHR ''a'')) \<noteq> []"
    using length_to_hex [of "replicate 20 (CHR ''a'')"] by fastforce+
  show ?thesis using n by (simp add: announce_request_def Let_def g c p)
qed

lemma sample_service:
  "tracker_service sample_announce r ts = ProcessAnnounceRequest sample_announce r ts"
  by (simp add: tracker_service_def sample_announce_def getPath_def urlDecode_def urlDecode_loop.simps indexOf_at_def
      lower_case_def starts_with_def Let_def)


section \<open>The replies\<close>

lemma peer_entries_take:
  "c < n \<Longrightarrow> peer_entries np co n c ps = map (toEntry np co) (take (nat (n - c)) ps)"
proof (induction ps arbitrary: c)
  case (Cons p ps)
  show ?case
  proof (cases "c + 1 = n")
    case True
    then have "nat (n - c) = 1" by simp
    then show ?thesis using True by simp
  next
    case False
    then have "nat (n - c) = Suc (nat (n - (c + 1)))" using Cons.prems by simp
    then show ?thesis using Cons.IH [of "c + 1"] Cons.prems False by simp
  qed
qed simp

lemma ip_text_length: "length (ip_text ip) < 2 ^ 31"
proof -
  have l: "length (int_text 10 (int (m mod 256))) \<le> 3" for m
  proof -
    have "length (digits 10 n) \<le> 3" if "n < 1000" for n
      using that by (simp add: digits.simps [of 10 n] digits.simps [of 10 "n div 10"] digits.simps [of 10 "n div 10 div 10"]
          less_mult_imp_div_less)
    moreover have "m mod 256 < 1000" using mod_less_divisor [of 256 m] by linarith
    ultimately show ?thesis by (simp add: int_text_def nat_text_def del: of_nat_mod)
  qed
  show ?thesis
    unfolding ip_text_def
    using l [of "unat ip div 256 ^ 3"] l [of "unat ip div 256 ^ 2"] l [of "unat ip div 256 ^ 1"] l [of "unat ip div 256 ^ 0"]
    by simp
qed

lemma toEntry_encodable:
  assumes "valid_peer k p"
  shows "encodable (Suc (Suc n)) (toEntry np co p)"
proof -
  have u: "uint (pi_ip p) < 2 ^ 32" "- (2 ^ 63) < uint (pi_ip p)"
    using uint_lt2p [of "pi_ip p"] less_le_trans [OF _ uint_ge_0 [of "pi_ip p"], of "- (2 ^ 63)"] by simp_all
  show ?thesis
    using assms ip_text_length [of "pi_ip p"] u
    by (auto simp: toEntry_def Let_def valid_peer_def qm_ok_def)
qed

lemma reply_encodable:
  assumes "valid_table ts" "0 < ar_numwant a"
  shows "encodable 100 (reply_entry a ts)"
proof -
  note p = valid_peers(2) [OF assms(1), of "ar_info_hash a"]
  have "\<forall>e \<in> set (peer_entries (ar_no_peer_id a) (ar_compact a) (ar_numwant a) 0 (map snd (qm_value [] ts (ar_info_hash a)))).
      encodable (Suc (Suc n)) e" for n
    unfolding peer_entries_take [OF assms(2)] using p toEntry_encodable by (fastforce dest: in_set_takeD)
  then have "encodable (Suc (Suc (Suc (Suc n)))) (reply_entry a ts)" for n
    by (auto simp: reply_entry_def Let_def qm_ok_def)
  from this [of 96] show ?thesis by (simp del: encodable.simps)
qed

lemma bencoded_reply:
  assumes "reply_of s Fresh r" "encodable 100 e"
  shows "answered s (bencode e) (finalize (write_part (setStatus c t r) (bencode e) False))" "bdecode (bencode e) = Done e"
  using finalize_Open [OF reply_first(1) [OF fresh_status [OF assms(1)]]] decode_encoded [OF assms(2), of 0 "[]"]
  by (simp_all add: bdecode_def)



lemma error_encodable: "code \<in> {101, 102, 103, 150, 151} \<Longrightarrow> encodable 100 (error_entry code)"
proof -
  assume "code \<in> {101, 102, 103, 150, 151}"
  then have "encodable (Suc (Suc n)) (error_entry code)" for n
    by (auto simp: error_entry_def failtureText_def qm_ok_def)
  from this [of 98] show ?thesis by (simp del: encodable.simps)
qed

lemma announce_code: "announce_request q = Inl code \<Longrightarrow> code \<in> {101, 102, 103, 150, 151}"
  by (auto simp: announce_request_def Let_def split: if_splits option.splits)

text \<open>Every request gets a reply, also the stop of a peer, whose reply is empty.\<close>

interpretation tracker: request_service "\<lambda>q r. snd (tracker_service q r ts)" "\<lambda>q. True"
proof (unfold_locales, goal_cases)
  case (1 q s r)
  have o: "\<exists>a. reply_of s a (write_part (setStatus c t r) d False)" for c t d
    using reply_first(1) [OF fresh_status [OF 1(2)]] by blast
  have "\<exists>a. reply_of s a (snd (ProcessAnnounceRequest q r ts))"
  proof (cases "announce_request q")
    case (Inl code)
    then show ?thesis using o by (simp add: ProcessAnnounceRequest_def ReplyError_def)
  next
    case (Inr a)
    then show ?thesis using o 1(2)
      by (auto simp: ProcessAnnounceRequest_def ReplyWithPeerList_def Let_def simp del: reply_of.simps)
  qed
  then show ?case using o by (simp add: tracker_service_def)
qed

text \<open>
  A hash with a zero byte is refused: of a torrent whose 20 bytes of hash contain a zero
  byte, every announce leaves the table as it is and is answered with the failure that the hash
  is missing or not 20 bytes long.
\<close>

theorem nul_hash_refused:
  assumes "length (getParameter q ''info_hash'') = 20" "CHR 0x00 \<in> set (getParameter q ''info_hash'')" "reply_of s Fresh r"
  shows "fst (ProcessAnnounceRequest q r ts) = ts \<and>
    (\<exists>b code. answered s b (finalize (snd (ProcessAnnounceRequest q r ts))) \<and>
      bdecode b = Done (error_entry code) \<and> code \<in> {101, 150})"
proof -
  let ?h = "getParameter q ''info_hash''"
  have "length (c_string ?h) < 20"
    using length_takeWhile_less [OF assms(2), of "\<lambda>c. c \<noteq> CHR 0x00"] assms(1) by (simp add: c_string_def)
  then have "length (to_hex (c_string ?h)) \<noteq> 40" by simp
  then obtain code where c: "announce_request q = Inl code" "code \<in> {101, 150}"
    by (cases "to_hex (c_string ?h) = []") (auto simp: announce_request_def Let_def)
  have "encodable 100 (error_entry code)" by (rule error_encodable [OF announce_code [OF c(1)]])
  note b = bencoded_reply(1) [OF assms(3) this, of 200 "''OK''"] bencoded_reply(2) [OF assms(3) this]
  show ?thesis unfolding ProcessAnnounceRequest_def c(1) ReplyError_def using b c(2) by auto
qed

definition nul_announce :: HttpRequest where
  "nul_announce = sample_announce\<lparr>rq_parameters := [(''info_hash'', CHR 0x00 # replicate 19 (CHR ''a''))]\<rparr>"

theorem nul_hash_refused_witness:
  "fst (ProcessAnnounceRequest nul_announce (new_response good_socket) []) = []"
proof -
  have f: "reply_of [] Fresh (new_response good_socket)"
    using fresh_unframed by (simp add: new_response_def sent_def good_socket_def)
  show ?thesis
    using nul_hash_refused [OF _ _ f, of nul_announce "[]"] by (simp add: nul_announce_def getParameter_def qm_value_def)
qed

end
