(* ===== verification/Torrent_Storage.thy ===== *)
theory Torrent_Storage
  imports Qt_Bytes Qt_Maps "HOL-Library.Multiset"
begin

text \<open>
  The collections behind the lists of the program: \<open>TorrentStorrage.cpp\<close>, the torrents by their
  hash with the list the user sees, and \<open>SearchItemsStorrage.cpp\<close>, the results of a search. A
  pointer is a number; what a torrent is doing at a moment is an argument.
\<close>

section \<open>Torrents\<close>

datatype FilterType = GROUP_FILTER_TYPE | SEARCH | RSS_FEED | TORRENT | NO_FILTER_TYPE

datatype TorrentFilterType = ACTIVE | NOT_ACTIVE | SEEDING | DOWNLOADING | COMPLETED | NO_FILTER

text \<open>What the storage asks a torrent.\<close>

record torrent_view =
  tv_infoHash :: bytes
  tv_group :: bytes
  tv_active :: bool
  tv_downloading :: bool
  tv_seeding :: bool
  tv_progress :: int
  tv_uploadSpeed :: bytes
  tv_downloadSpeed :: bytes

text \<open>
  An iterator is the node it points to, the key and the pointer stored under it; a null pointer is
  \<open>None\<close>.
\<close>

type_synonym torrent_iterator = "bytes \<times> nat option"

record torrent_storage =
  ts_map :: "(bytes, nat option) qmap"
  ts_torrents :: "torrent_iterator list"
  ts_filtered :: "torrent_iterator list"
  ts_filterType :: FilterType
  ts_torrentFilter :: TorrentFilterType
  ts_groupFilter :: bytes

text \<open>The constructor leaves the kind of the filter as it finds it in memory.\<close>

definition new_storage :: "FilterType \<Rightarrow> torrent_storage" where
  "new_storage garbage = \<lparr>ts_map = [], ts_torrents = [], ts_filtered = [], ts_filterType = garbage,
     ts_torrentFilter = NO_FILTER, ts_groupFilter = []\<rparr>"

definition hasTorrent :: "bytes \<Rightarrow> torrent_storage \<Rightarrow> bool" where
  "hasTorrent h s = qm_contains (ts_map s) h"

definition getTorrent :: "bytes \<Rightarrow> torrent_storage \<Rightarrow> nat option" where
  "getTorrent h s = (case qm_get (ts_map s) h of None \<Rightarrow> None | Some p \<Rightarrow> p)"

text \<open>The test of \<open>append\<close>: a filter it does not name lets every torrent through.\<close>

definition append_passes :: "TorrentFilterType \<Rightarrow> torrent_view \<Rightarrow> bool" where
  "append_passes f v =
     (case f of ACTIVE \<Rightarrow> tv_active v | DOWNLOADING \<Rightarrow> tv_downloading v | SEEDING \<Rightarrow> tv_seeding v
      | COMPLETED \<Rightarrow> tv_progress v = 100 | _ \<Rightarrow> True)"

definition append_torrent :: "(nat \<Rightarrow> torrent_view) \<Rightarrow> nat \<Rightarrow> torrent_storage \<Rightarrow> torrent_storage" where
  "append_torrent view t s =
     (let infoHash = tv_infoHash (view t) in
      if hasTorrent infoHash s then s
      else (let it = (infoHash, Some t);
                s = s\<lparr>ts_map := qm_insert infoHash (Some t) (ts_map s), ts_torrents := ts_torrents s @ [it]\<rparr>
            in if append_passes (ts_torrentFilter s) (view t)
               then s\<lparr>ts_filtered := ts_filtered s @ [it]\<rparr> else s))"

text \<open>Removal from the list by the first position, from the shown list by the last.\<close>

definition remove_hash :: "bytes \<Rightarrow> torrent_storage \<Rightarrow> torrent_storage" where
  "remove_hash h s =
     (case qm_get (ts_map s) h of None \<Rightarrow> s
      | Some p \<Rightarrow>
          (let it = (h, p);
               shown = ts_filtered s;
               s = (if it \<in> set (ts_torrents s)
                    then s\<lparr>ts_torrents := remove1 it (ts_torrents s), ts_map := qm_remove h (ts_map s)\<rparr> else s)
           in if it \<in> set shown then s\<lparr>ts_filtered := rev (remove1 it (rev shown))\<rparr> else s))"

definition remove_torrent :: "(nat \<Rightarrow> torrent_view) \<Rightarrow> nat \<Rightarrow> torrent_storage \<Rightarrow> torrent_storage" where
  "remove_torrent view t s = remove_hash (tv_infoHash (view t)) s"

text \<open>Reading the shown list: the bound tested is the size of the map.\<close>

definition torrent_at :: "torrent_storage \<Rightarrow> int \<Rightarrow> nat option run" where
  "torrent_at s index =
     (if index < int (length (ts_map s))
      then (if 0 \<le> index \<and> index < int (length (ts_filtered s)) then Done (snd (ts_filtered s ! nat index)) else Fault)
      else Done None)"

definition torrent_by_index :: "torrent_storage \<Rightarrow> int \<Rightarrow> nat option run" where
  "torrent_by_index s index =
     (if 0 \<le> index \<and> index < int (length (ts_torrents s)) then Done (snd (ts_torrents s ! nat index)) else Fault)"

text \<open>The operator on a hash stores a null pointer for a hash it does not find.\<close>

definition torrent_by_hash :: "bytes \<Rightarrow> torrent_storage \<Rightarrow> torrent_storage \<times> nat option" where
  "torrent_by_hash h s =
     (case qm_get (ts_map s) h of Some p \<Rightarrow> (s, p)
      | None \<Rightarrow> (s\<lparr>ts_map := qm_insert h None (ts_map s)\<rparr>, None))"

definition GetTorrentByInfoHash :: "bytes \<Rightarrow> torrent_storage \<Rightarrow> torrent_storage \<times> nat option" where
  "GetTorrentByInfoHash h s = (if hasTorrent h s then torrent_by_hash h s else (s, None))"

definition clear_storage :: "torrent_storage \<Rightarrow> torrent_storage" where
  "clear_storage s = s\<lparr>ts_map := [], ts_torrents := [], ts_filtered := []\<rparr>"

definition storage_count :: "torrent_storage \<Rightarrow> nat" where
  "storage_count s = length (ts_filtered s)"

text \<open>The shown list made anew. A null pointer, which the lists never hold, counts as not chosen.\<close>

definition chosen :: "(nat \<Rightarrow> torrent_view) \<Rightarrow> (torrent_view \<Rightarrow> bool) \<Rightarrow> torrent_storage \<Rightarrow> torrent_iterator list" where
  "chosen view P s = filter (\<lambda>it. case snd it of Some t \<Rightarrow> P (view t) | None \<Rightarrow> False) (ts_torrents s)"

definition filterByGroup :: "(nat \<Rightarrow> torrent_view) \<Rightarrow> torrent_storage \<Rightarrow> torrent_iterator list" where
  "filterByGroup view s =
     (if ts_groupFilter s = [] then ts_torrents s
      else chosen view (\<lambda>v. lower_case (tv_group v) = lower_case (ts_groupFilter s)) s)"

definition filterData :: "(nat \<Rightarrow> torrent_view) \<Rightarrow> torrent_storage \<Rightarrow> torrent_storage" where
  "filterData view s =
     s\<lparr>ts_filtered :=
       (case ts_filterType s of
          GROUP_FILTER_TYPE \<Rightarrow> filterByGroup view s
        | TORRENT \<Rightarrow>
            (case ts_torrentFilter s of
               ACTIVE \<Rightarrow> chosen view tv_active s
             | NOT_ACTIVE \<Rightarrow> chosen view (\<lambda>v. tv_uploadSpeed v = [] \<and> tv_downloadSpeed v = []) s
             | DOWNLOADING \<Rightarrow> chosen view tv_downloading s
             | SEEDING \<Rightarrow> chosen view tv_seeding s
             | COMPLETED \<Rightarrow> chosen view (\<lambda>v. tv_progress v = 100) s
             | NO_FILTER \<Rightarrow> ts_torrents s)
        | _ \<Rightarrow> ts_torrents s)\<rparr>"

definition setTorrentFilter :: "(nat \<Rightarrow> torrent_view) \<Rightarrow> TorrentFilterType \<Rightarrow> torrent_storage \<Rightarrow> torrent_storage" where
  "setTorrentFilter view f s = filterData view (s\<lparr>ts_filterType := TORRENT, ts_torrentFilter := f, ts_groupFilter := []\<rparr>)"

definition setGroupFilter :: "(nat \<Rightarrow> torrent_view) \<Rightarrow> bytes \<Rightarrow> torrent_storage \<Rightarrow> torrent_storage" where
  "setGroupFilter view g s = filterData view (s\<lparr>ts_filterType := GROUP_FILTER_TYPE, ts_groupFilter := g\<rparr>)"

section \<open>Search results\<close>

record search_store =
  ss_items :: "nat list"
  ss_filtered :: "nat list"
  ss_engine :: bytes

definition new_search_store :: search_store where
  "new_search_store = \<lparr>ss_items = [], ss_filtered = [], ss_engine = []\<rparr>"

definition search_filterData :: "(nat \<Rightarrow> bytes) \<Rightarrow> search_store \<Rightarrow> search_store" where
  "search_filterData engine s =
     s\<lparr>ss_filtered := (if ss_engine s = [] then ss_items s
       else filter (\<lambda>i. lower_case (engine i) = lower_case (ss_engine s)) (ss_items s))\<rparr>"

definition search_setFilter :: "(nat \<Rightarrow> bytes) \<Rightarrow> bytes \<Rightarrow> search_store \<Rightarrow> search_store" where
  "search_setFilter engine e s = search_filterData engine (s\<lparr>ss_engine := e\<rparr>)"

text \<open>The comparison's result, which is zero for equal names, is used as a truth value.\<close>

definition search_append :: "(nat \<Rightarrow> bytes) \<Rightarrow> nat \<Rightarrow> search_store \<Rightarrow> search_store" where
  "search_append engine i s =
     (if i \<in> set (ss_items s) then s
      else (let s = s\<lparr>ss_items := ss_items s @ [i]\<rparr> in
            if ss_engine s = [] \<or> lower_case (engine i) \<noteq> lower_case (ss_engine s)
            then s\<lparr>ss_filtered := ss_filtered s @ [i]\<rparr> else s))"

definition search_append_all :: "(nat \<Rightarrow> bytes) \<Rightarrow> nat list \<Rightarrow> search_store \<Rightarrow> search_store" where
  "search_append_all engine items s = fold (search_append engine) items s"

definition search_remove :: "nat \<Rightarrow> search_store \<Rightarrow> search_store" where
  "search_remove i s =
     (if i \<notin> set (ss_items s) then s
      else s\<lparr>ss_filtered := remove1 i (ss_filtered s), ss_items := remove1 i (ss_items s)\<rparr>)"

definition search_contains :: "nat \<Rightarrow> search_store \<Rightarrow> bool" where
  "search_contains i s \<longleftrightarrow> i \<in> set (ss_items s) \<and> i \<in> set (ss_filtered s)"

definition search_at :: "search_store \<Rightarrow> int \<Rightarrow> nat run" where
  "search_at s index =
     (if 0 \<le> index \<and> index < int (length (ss_filtered s)) then Done (ss_filtered s ! nat index) else Fault)"

definition search_clear :: "search_store \<Rightarrow> search_store" where
  "search_clear s = s\<lparr>ss_items := [], ss_filtered := []\<rparr>"

section \<open>The lists stay together\<close>

definition storage_ok :: "torrent_storage \<Rightarrow> bool" where
  "storage_ok s \<longleftrightarrow> qm_ok (ts_map s) \<and> distinct (ts_torrents s) \<and> set (ts_torrents s) = set (ts_map s) \<and>
     (\<forall>it \<in> set (ts_torrents s). snd it \<noteq> None) \<and> set (ts_filtered s) \<subseteq> set (ts_torrents s) \<and> distinct (ts_filtered s)"

text \<open>
  Runs of a storage: every operation of the program's other parts, the timer that makes the shown
  list anew, a sorting that permutes the list, at any state of the torrents.
\<close>

inductive storage_run :: "torrent_storage \<Rightarrow> bool" where
  start: "storage_run (new_storage garbage)"
| append: "storage_run s \<Longrightarrow> storage_run (append_torrent view t s)"
| remove: "storage_run s \<Longrightarrow> storage_run (remove_hash h s)"
| remove_torrent: "storage_run s \<Longrightarrow> storage_run (remove_torrent view t s)"
| lookup: "storage_run s \<Longrightarrow> storage_run (fst (GetTorrentByInfoHash h s))"
| timer: "storage_run s \<Longrightarrow> storage_run (filterData view s)"
| filter: "storage_run s \<Longrightarrow> storage_run (setTorrentFilter view f s)"
| group: "storage_run s \<Longrightarrow> storage_run (setGroupFilter view g s)"
| sort: "storage_run s \<Longrightarrow> mset p = mset (ts_torrents s) \<Longrightarrow> storage_run (s\<lparr>ts_torrents := p\<rparr>)"
| clear: "storage_run s \<Longrightarrow> storage_run (clear_storage s)"

lemma storage_ok_cong:
  "ts_map s' = ts_map s \<Longrightarrow> ts_torrents s' = ts_torrents s \<Longrightarrow> ts_filtered s' = ts_filtered s \<Longrightarrow>
    storage_ok s' = storage_ok s"
  by (simp add: storage_ok_def)

lemma chosen_ok: "storage_ok s \<Longrightarrow> set (chosen view P s) \<subseteq> set (ts_torrents s) \<and> distinct (chosen view P s)"
  by (auto simp: chosen_def storage_ok_def)

lemma filterData_list:
  "ts_filtered (filterData view s) = ts_torrents s \<or> (\<exists>P. ts_filtered (filterData view s) = chosen view P s)"
  by (cases "ts_filterType s"; cases "ts_torrentFilter s") (auto simp: filterData_def filterByGroup_def)

lemma filterData_rest:
  "ts_map (filterData view s) = ts_map s" "ts_torrents (filterData view s) = ts_torrents s"
  by (simp_all add: filterData_def)

lemma filterData_ok:
  assumes "storage_ok s"
  shows "storage_ok (filterData view s)"
proof -
  have "set (ts_filtered (filterData view s)) \<subseteq> set (ts_torrents s) \<and> distinct (ts_filtered (filterData view s))"
    using filterData_list [of view s]
  proof (elim disjE exE)
    fix P
    assume "ts_filtered (filterData view s) = chosen view P s"
    then show ?thesis using chosen_ok [OF assms, of view P] by simp
  qed (use assms in \<open>simp add: storage_ok_def\<close>)
  then show ?thesis using assms unfolding storage_ok_def filterData_rest by blast
qed

lemma append_ok:
  assumes "storage_ok s"
  shows "storage_ok (append_torrent view t s)"
proof (cases "hasTorrent (tv_infoHash (view t)) s")
  case False
  let ?h = "tv_infoHash (view t)"
  have n: "?h \<notin> fst ` set (ts_map s)" using False by (simp add: hasTorrent_def qm_contains_def map_of_eq_None_iff)
  have "(?h, Some t) \<notin> set (ts_torrents s)" using n assms by (force simp: storage_ok_def)
  then show ?thesis
    using assms False qm_insert_new [OF n, of "Some t"]
    by (auto simp: append_torrent_def Let_def storage_ok_def qm_ok_insert)
qed (use assms in \<open>simp add: append_torrent_def\<close>)

lemma remove_ok:
  assumes "storage_ok s"
  shows "storage_ok (remove_hash h s)"
proof (cases "qm_get (ts_map s) h")
  case (Some p)
  have m: "(h, p) \<in> set (ts_map s)" using Some by (rule map_of_SomeD)
  have d: "distinct (map fst (ts_map s))" using assms by (simp add: storage_ok_def qm_ok_distinct)
  have "set (qm_remove h (ts_map s)) = set (ts_map s) - {(h, p)}"
  proof -
    have "kv \<in> set (qm_remove h (ts_map s)) \<longleftrightarrow> kv \<in> set (ts_map s) - {(h, p)}" for kv
      using eq_key_imp_eq_value [OF d, of h "snd kv" p] m
      by (cases kv) (simp add: qm_remove_set, blast)
    then show ?thesis by blast
  qed
  moreover have "(h, p) \<in> set (ts_torrents s)" using m assms by (simp add: storage_ok_def)
  ultimately have r: "remove_hash h s = s\<lparr>ts_torrents := remove1 (h, p) (ts_torrents s), ts_map := qm_remove h (ts_map s),
      ts_filtered := rev (remove1 (h, p) (rev (ts_filtered s)))\<rparr>"
      and q: "set (qm_remove h (ts_map s)) = set (ts_map s) - {(h, p)}"
    by (simp_all add: remove_hash_def Some Let_def remove1_idem)
  have "set (remove1 (h, p) xs) = set xs - {(h, p)}" if "distinct xs" for xs :: "torrent_iterator list"
    using that by (rule set_remove1_eq)
  then show ?thesis
    unfolding r storage_ok_def using assms q by (simp add: storage_ok_def qm_ok_remove) blast
qed (use assms in \<open>simp add: remove_hash_def\<close>)

lemma run_ok: "storage_run s \<Longrightarrow> storage_ok s"
proof (induction rule: storage_run.induct)
  case (start garbage)
  then show ?case by (simp add: storage_ok_def new_storage_def)
next
  case (lookup s h)
  then show ?case
    by (auto simp: GetTorrentByInfoHash_def hasTorrent_def qm_contains_def torrent_by_hash_def)
next
  case (filter s view f)
  then have "storage_ok (s\<lparr>ts_filterType := TORRENT, ts_torrentFilter := f, ts_groupFilter := []\<rparr>)"
    using storage_ok_cong [of "s\<lparr>ts_filterType := TORRENT, ts_torrentFilter := f, ts_groupFilter := []\<rparr>" s] by simp
  then show ?case unfolding setTorrentFilter_def by (rule filterData_ok)
next
  case (group s view g)
  then have "storage_ok (s\<lparr>ts_filterType := GROUP_FILTER_TYPE, ts_groupFilter := g\<rparr>)"
    using storage_ok_cong [of "s\<lparr>ts_filterType := GROUP_FILTER_TYPE, ts_groupFilter := g\<rparr>" s] by simp
  then show ?case unfolding setGroupFilter_def by (rule filterData_ok)
next
  case (sort s p)
  have "set p = set (ts_torrents s)" using sort.hyps(2) by (rule mset_eq_setD)
  moreover have "distinct p" using mset_eq_imp_distinct_iff [OF sort.hyps(2)] sort.IH by (simp add: storage_ok_def)
  ultimately show ?case using sort.IH unfolding storage_ok_def by auto
next
  case (clear s)
  show ?case by (simp add: storage_ok_def clear_storage_def)
qed (simp_all add: append_ok remove_ok remove_torrent_def filterData_ok)

text \<open>
  C32. The shown torrents are the storage's torrents: in every run no torrent is listed twice, the
  list and the map hold the same torrents, and the shown list holds only these; reading the
  shown list at a row past its end, but below the number of torrents, is out of bounds.
\<close>

theorem storage_lists:
  assumes "storage_run s"
  shows "distinct (map fst (ts_torrents s)) \<and> set (ts_torrents s) = set (ts_map s) \<and>
    set (ts_filtered s) \<subseteq> set (ts_torrents s) \<and> storage_count s \<le> length (ts_map s) \<and>
    (\<forall>i. torrent_at s (int i) =
      (if i < storage_count s then Done (snd (ts_filtered s ! i)) else if i < length (ts_map s) then Fault else Done None))"
proof -
  have ok: "storage_ok s" by (rule run_ok [OF assms])
  then have d: "distinct (map fst (ts_map s))" "set (ts_torrents s) = set (ts_map s)" "distinct (ts_torrents s)"
    by (simp_all add: storage_ok_def qm_ok_distinct)
  have "inj_on fst (set (ts_torrents s))" using d(1,2) by (simp add: distinct_map)
  then have df: "distinct (map fst (ts_torrents s))" using d(3) by (simp add: distinct_map)
  have sub: "set (ts_filtered s) \<subseteq> set (ts_map s)" "distinct (ts_filtered s)" using ok d(2) by (auto simp: storage_ok_def)
  then have "length (ts_filtered s) \<le> card (set (ts_map s))" by (metis card_mono distinct_card List.finite_set)
  also have "\<dots> \<le> length (ts_map s)" by (rule card_length)
  finally have len: "storage_count s \<le> length (ts_map s)" by (simp add: storage_count_def)
  then show ?thesis using df d(2) sub(1) by (simp add: torrent_at_def storage_count_def)
qed

definition idle_view :: "nat \<Rightarrow> torrent_view" where
  "idle_view t = \<lparr>tv_infoHash = [char_of (65 + t)], tv_group = [], tv_active = False, tv_downloading = False,
     tv_seeding = False, tv_progress = 0, tv_uploadSpeed = [], tv_downloadSpeed = []\<rparr>"

theorem storage_lists_witness:
  "torrent_at (setTorrentFilter idle_view ACTIVE (append_torrent idle_view 0 (new_storage TORRENT))) 0 = Fault"
proof -
  let ?s = "setTorrentFilter idle_view ACTIVE (append_torrent idle_view 0 (new_storage TORRENT))"
  have "storage_run ?s" by (intro storage_run.filter storage_run.append storage_run.start)
  from storage_lists [OF this] have "torrent_at ?s (int 0) =
      (if 0 < storage_count ?s then Done (snd (ts_filtered ?s ! 0)) else if 0 < length (ts_map ?s) then Fault else Done None)"
    by blast
  moreover have "storage_count ?s = 0" "length (ts_map ?s) = 1"
    by (simp_all add: storage_count_def setTorrentFilter_def filterData_def append_torrent_def new_storage_def
        hasTorrent_def qm_contains_def chosen_def idle_view_def Let_def append_passes_def)
  ultimately show ?thesis by simp
qed

section \<open>Appending and filtering\<close>



text \<open>
  New search results pass the wrong way: with an engine chosen, the results added to an empty
  list are shown exactly when they come from another engine, in order; filtering anew shows
  exactly the others.
\<close>

lemma search_append_all_new:
  "distinct items \<Longrightarrow> set items \<inter> set (ss_items s) = {} \<Longrightarrow> ss_engine s \<noteq> [] \<Longrightarrow>
    search_append_all engine items s =
      s\<lparr>ss_items := ss_items s @ items,
        ss_filtered := ss_filtered s @ filter (\<lambda>i. lower_case (engine i) \<noteq> lower_case (ss_engine s)) items\<rparr>"
proof (induction items arbitrary: s)
  case (Cons i items)
  let ?s = "search_append engine i s"
  have n: "i \<notin> set (ss_items s)" using Cons.prems(2) by simp
  have s: "?s = s\<lparr>ss_items := ss_items s @ [i],
      ss_filtered := ss_filtered s @ (if lower_case (engine i) \<noteq> lower_case (ss_engine s) then [i] else [])\<rparr>"
    using n Cons.prems(3) by (simp add: search_append_def Let_def)
  have "search_append_all engine items ?s =
      ?s\<lparr>ss_items := ss_items ?s @ items,
        ss_filtered := ss_filtered ?s @ filter (\<lambda>i. lower_case (engine i) \<noteq> lower_case (ss_engine ?s)) items\<rparr>"
    by (rule Cons.IH) (use Cons.prems in \<open>auto simp: s\<close>)
  then show ?case by (simp add: search_append_all_def s)
qed (simp add: search_append_all_def)

theorem search_append_inverted:
  assumes "distinct items" "e \<noteq> []"
  shows "let s = search_append_all engine items (search_setFilter engine e new_search_store) in
    ss_filtered s = filter (\<lambda>i. lower_case (engine i) \<noteq> lower_case e) items \<and>
    ss_filtered (search_filterData engine s) = filter (\<lambda>i. lower_case (engine i) = lower_case e) items"
  using search_append_all_new [OF assms(1), of "search_setFilter engine e new_search_store" engine] assms(2)
  by (simp add: Let_def search_setFilter_def search_filterData_def new_search_store_def)

theorem search_append_inverted_witness:
  "ss_filtered (search_append_all (\<lambda>i. if i = 1 then ''Rutor'' else ''KickAss'') [1, 2]
     (search_setFilter (\<lambda>i. if i = 1 then ''Rutor'' else ''KickAss'') ''rutor'' new_search_store)) = [2]"
proof -
  have "lower_case ''Rutor'' = ''rutor''" "lower_case ''KickAss'' = ''kickass''" "lower_case ''rutor'' = ''rutor''"
    by (simp_all add: lower_case_def Let_def char_of_def bit_simps)
  then show ?thesis
    using search_append_inverted [of "[1, 2]" "''rutor''" "\<lambda>i. if i = 1 then ''Rutor'' else ''KickAss''"] by (simp add: Let_def)
qed

end
