(* ===== verification/Scheduler.thy ===== *)
theory Scheduler
  imports Qt_Bytes
begin

text \<open>
  The task scheduler: \<open>Scheduller.cpp\<close>, \<open>SchedulerTask.cpp\<close> and the queue's file in
  \<open>QApplicationSettings.cpp\<close>. Times are milliseconds; the text of a date is an argument, and the
  file is the list of its elements' attributes.
\<close>

section \<open>Tasks\<close>

datatype TaskType = PAUSE_ALL | START_ALL | LIMIT_UPLOAD | LIMIT_DOWNLOAD | UNKNOWN

record SchedulerTask =
  tk_name :: bytes
  tk_type :: TaskType
  tk_limit :: int
  tk_begin :: int

text \<open>Only the two kinds that limit a rate set the limit; otherwise it is what the memory holds.\<close>

definition new_task :: "int \<Rightarrow> bytes \<Rightarrow> TaskType \<Rightarrow> int \<Rightarrow> int \<Rightarrow> SchedulerTask" where
  "new_task garbage name type limit begin =
     \<lparr>tk_name = name, tk_type = type,
      tk_limit = (if type = LIMIT_DOWNLOAD \<or> type = LIMIT_UPLOAD then limit else garbage), tk_begin = begin\<rparr>"

text \<open>What a task asks of the torrent manager.\<close>

datatype command = StartAllTorrents | PauseAllTorrents | UploadLimit int | DownloadLimit int

definition pefromTask :: "SchedulerTask \<Rightarrow> command list" where
  "pefromTask t =
     (case tk_type t of
        START_ALL \<Rightarrow> [StartAllTorrents]
      | PAUSE_ALL \<Rightarrow> [PauseAllTorrents]
      | LIMIT_UPLOAD \<Rightarrow> [UploadLimit (tk_limit t)]
      | LIMIT_DOWNLOAD \<Rightarrow> [DownloadLimit (tk_limit t)]
      | UNKNOWN \<Rightarrow> [])"

section \<open>The queue's file\<close>

definition SchedulerTypeToString :: "TaskType \<Rightarrow> bytes" where
  "SchedulerTypeToString t =
     (case t of START_ALL \<Rightarrow> ''START_ALL'' | PAUSE_ALL \<Rightarrow> ''PAUSE_ALL'' | LIMIT_UPLOAD \<Rightarrow> ''LIMIT_UL''
      | LIMIT_DOWNLOAD \<Rightarrow> ''LIMIT_DL'' | UNKNOWN \<Rightarrow> [])"

definition type_of_string :: "bytes \<Rightarrow> TaskType" where
  "type_of_string val =
     (if val = ''PAUSE_ALL'' then PAUSE_ALL
      else if val = ''START_ALL'' then START_ALL
      else if val = ''LIMIT_DL'' then LIMIT_DOWNLOAD
      else if val = ''LIMIT_UL'' then LIMIT_UPLOAD
      else UNKNOWN)"

text \<open>The attributes of a \<open>task\<close> element, in the order they are written.\<close>

record task_row =
  tr_type :: bytes
  tr_name :: bytes
  tr_limit :: bytes
  tr_begin :: bytes

definition task_row_of :: "(int \<Rightarrow> bytes) \<Rightarrow> SchedulerTask \<Rightarrow> task_row" where
  "task_row_of date_text t =
     \<lparr>tr_type = SchedulerTypeToString (tk_type t), tr_name = tk_name t, tr_limit = int_text 10 (tk_limit t),
      tr_begin = date_text (tk_begin t)\<rparr>"

text \<open>Saving sorts the queue itself by the time of its tasks; tasks of the same time keep their order.\<close>

definition SaveSchedullerQueue :: "(int \<Rightarrow> bytes) \<Rightarrow> SchedulerTask list \<Rightarrow> SchedulerTask list \<times> task_row list" where
  "SaveSchedullerQueue date_text tasks =
     (let tasks = sort_key tk_begin tasks in (tasks, map (task_row_of date_text) tasks))"

definition task_of_row :: "(bytes \<Rightarrow> int) \<Rightarrow> int \<Rightarrow> task_row \<Rightarrow> SchedulerTask" where
  "task_of_row date_parse garbage r =
     new_task garbage (tr_name r) (type_of_string (tr_type r)) (or_zero (string_toInt (tr_limit r))) (date_parse (tr_begin r))"

definition GetSchedullerQueue :: "(bytes \<Rightarrow> int) \<Rightarrow> int \<Rightarrow> task_row list \<Rightarrow> SchedulerTask list" where
  "GetSchedullerQueue date_parse garbage rows = map (task_of_row date_parse garbage) rows"

section \<open>The scheduler\<close>

text \<open>
  The state: the queue, the interval of the running timer, the queue's file, and the commands given
  so far.
\<close>

record Scheduller =
  sc_tasks :: "SchedulerTask list"
  sc_timer :: "int option"
  sc_file :: "task_row list"
  sc_done :: "command list"

text \<open>The seconds of a time as an unsigned number, and a timer, which a negative interval does not start.\<close>

definition toTime_t :: "int \<Rightarrow> int" where
  "toTime_t t = u32 (t div 1000)"

definition startTimer :: "int \<Rightarrow> int option" where
  "startTimer interval = (if interval < 0 then None else Some interval)"

definition timer_interval :: "int \<Rightarrow> int \<Rightarrow> int" where
  "timer_interval start now = i32 (u32 (u32 (toTime_t start - toTime_t now) * 1000))"

text \<open>
  Dropping the tasks whose time is past. The iterator is used after its element was erased, which
  the container does not define.
\<close>

fun check_loop :: "int \<Rightarrow> SchedulerTask list \<Rightarrow> SchedulerTask list run" where
  "check_loop now [] = Done []"
| "check_loop now (t # ts) =
     (if tk_begin t < now then Fault else rbind (check_loop now ts) (\<lambda>r. Done (t # r)))"

definition checkTasks :: "(int \<Rightarrow> bytes) \<Rightarrow> int \<Rightarrow> Scheduller \<Rightarrow> Scheduller run" where
  "checkTasks date_text now s =
     rbind (check_loop now (sc_tasks s)) (\<lambda>ts.
       case SaveSchedullerQueue date_text ts of (ts, rows) \<Rightarrow> Done (s\<lparr>sc_tasks := ts, sc_file := rows\<rparr>))"

definition new_scheduller :: "(int \<Rightarrow> bytes) \<Rightarrow> (bytes \<Rightarrow> int) \<Rightarrow> int \<Rightarrow> int \<Rightarrow> task_row list \<Rightarrow> Scheduller run" where
  "new_scheduller date_text date_parse garbage now rows =
     rbind (checkTasks date_text now
         \<lparr>sc_tasks = GetSchedullerQueue date_parse garbage rows, sc_timer = None, sc_file = rows, sc_done = []\<rparr>)
       (\<lambda>s. Done (case sc_tasks s of [] \<Rightarrow> s
                  | t # _ \<Rightarrow> s\<lparr>sc_timer := startTimer (timer_interval (tk_begin t) now)\<rparr>))"

definition UpdateTasks :: "(int \<Rightarrow> bytes) \<Rightarrow> (bytes \<Rightarrow> int) \<Rightarrow> int \<Rightarrow> int \<Rightarrow> Scheduller \<Rightarrow> Scheduller run" where
  "UpdateTasks date_text date_parse garbage now s =
     rbind (checkTasks date_text now (s\<lparr>sc_tasks := GetSchedullerQueue date_parse garbage (sc_file s)\<rparr>))
       (\<lambda>s. case sc_tasks s of [] \<Rightarrow> Fault
             | t # _ \<Rightarrow> Done (s\<lparr>sc_timer := startTimer (timer_interval (tk_begin t) now)\<rparr>))"

text \<open>The event of the running timer: the next interval is computed from the task just performed.\<close>

definition timer_event :: "(int \<Rightarrow> bytes) \<Rightarrow> int \<Rightarrow> Scheduller \<Rightarrow> Scheduller run" where
  "timer_event date_text now s =
     (case sc_tasks s of [] \<Rightarrow> Fault
      | first # rest \<Rightarrow>
          (let s = s\<lparr>sc_done := sc_done s @ pefromTask first, sc_tasks := rest, sc_timer := None\<rparr>;
               s = (if rest \<noteq> [] then s\<lparr>sc_timer := startTimer (timer_interval (tk_begin first) now)\<rparr> else s)
           in case SaveSchedullerQueue date_text rest of (ts, rows) \<Rightarrow> Done (s\<lparr>sc_tasks := ts, sc_file := rows\<rparr>)))"

section \<open>When tasks are performed\<close>

lemma toTime_t_id: "0 \<le> t \<Longrightarrow> t < 2 ^ 32 * 1000 \<Longrightarrow> toTime_t t = t div 1000"
  by (simp add: toTime_t_def u32_id)

lemma timer_interval_exact:
  assumes "0 \<le> start" "start < 2 ^ 32 * 1000" "0 \<le> now" "now < 2 ^ 32 * 1000"
    and "in_i32 ((start div 1000 - now div 1000) * 1000)"
  shows "timer_interval start now = (start div 1000 - now div 1000) * 1000"
  using assms by (simp only: timer_interval_def i32_u32 i32_u32_mult toTime_t_id i32_id)

lemma task_row_read:
  assumes "date_parse (date_text (tk_begin t)) = tk_begin t" "in_i32 (tk_limit t)" "tk_type t \<in> {LIMIT_UPLOAD, LIMIT_DOWNLOAD}"
  shows "task_of_row date_parse garbage (task_row_of date_text t) = t"
proof -
  have l: "string_toInt (int_text 10 (tk_limit t)) = Some (tk_limit t)"
    using assms(2) by (simp add: string_toInt_def trimmed_id trimmed_int_text parse_signed_text int_in_def in_i32_def)
  have y: "type_of_string (SchedulerTypeToString (tk_type t)) = tk_type t"
    by (cases "tk_type t") (simp_all add: SchedulerTypeToString_def type_of_string_def)
  show ?thesis
    unfolding task_of_row_def task_row_of_def new_task_def task_row.simps l y or_zero_def option.case
    by (rule SchedulerTask.equality) (use assms(1,3) in auto)
qed


definition sample_task :: "bytes \<Rightarrow> int \<Rightarrow> SchedulerTask" where
  "sample_task name begin = \<lparr>tk_name = name, tk_type = LIMIT_UPLOAD, tk_limit = 4096, tk_begin = begin\<rparr>"

text \<open>A text for times, for the witnesses: the number itself.\<close>

definition plain_parse :: "bytes \<Rightarrow> int" where
  "plain_parse s = or_zero (parse_signed 10 s)"


text \<open>
  The time of every later task is lost: when the timer's event performs a task, the next task
  is performed by an event that follows at once if the clock still shows the first task's second,
  and by no event at all if it shows a later one, whatever the next task's time is.
\<close>

theorem next_task_time_lost:
  assumes "sc_tasks s = t # u # rest" "sorted (map tk_begin (t # u # rest))"
    and "0 \<le> tk_begin t" "tk_begin t \<le> now" "now < 2 ^ 32 * 1000" "now - tk_begin t < 2 ^ 31 - 1000"
  shows "\<exists>s'. timer_event date_text now s = Done s' \<and> sc_tasks s' = u # rest \<and>
    sc_timer s' = (if tk_begin t div 1000 = now div 1000 then Some 0 else None) \<and>
    (\<exists>s''. timer_event date_text now s' = Done s'' \<and> sc_done s'' = sc_done s @ pefromTask t @ pefromTask u)"
proof -
  let ?n = "(tk_begin t div 1000 - now div 1000) * 1000"
  have le: "tk_begin t div 1000 \<le> now div 1000" using assms(4) by (rule zdiv_mono1) simp
  have "- (2 ^ 31) \<le> ?n" using assms(6) by simp
  then have i: "timer_interval (tk_begin t) now = ?n"
    using assms(3-5) le by (intro timer_interval_exact) (simp_all add: in_i32_def)
  have st: "startTimer ?n = (if tk_begin t div 1000 = now div 1000 then Some 0 else None)"
    using le by (simp add: startTimer_def)
  have srt: "sort_key tk_begin (u # rest) = u # rest" using assms(2) by (intro sort_key_id_if_sorted) simp
  have "timer_event date_text now s = Done (s\<lparr>sc_done := sc_done s @ pefromTask t, sc_timer := startTimer ?n,
      sc_tasks := u # rest, sc_file := map (task_row_of date_text) (u # rest)\<rparr>)"
    unfolding timer_event_def assms(1) list.case Let_def SaveSchedullerQueue_def srt i by simp
  then show ?thesis unfolding st by (simp add: timer_event_def Let_def SaveSchedullerQueue_def)
qed

theorem next_task_time_lost_witness:
  "\<exists>s'. timer_event (int_text 10) 60500
      \<lparr>sc_tasks = [sample_task ''night'' 60000, sample_task ''day'' 90000000], sc_timer = Some 0, sc_file = [], sc_done = []\<rparr> = Done s' \<and>
    sc_timer s' = Some 0"
  using next_task_time_lost [of "\<lparr>sc_tasks = [sample_task ''night'' 60000, sample_task ''day'' 90000000], sc_timer = Some 0,
      sc_file = [], sc_done = []\<rparr>" "sample_task ''night'' 60000" "sample_task ''day'' 90000000" "[]" 60500 "int_text 10"]
  by (auto simp: sample_task_def)

end
