(* ===== verification/Ip_Filter.thy ===== *)
theory Ip_Filter
  imports Http_Server
begin

text \<open>
  The address filter's text: \<open>RconWebService::parseIpFilter\<close> in \<open>webControll/RconWebService.cpp\<close>,
  whose ranges the connection handlers test. The conversion of a text to an address is an argument.
\<close>

section \<open>Parsing\<close>

record ip_filter =
  if_allowedIP :: "ip_range list"
  if_notAllowedIP :: "ip_range list"
  if_listening :: bool

text \<open>The range of an entry: the same text twice, with the stars replaced, in order.\<close>

definition entry_range :: "(bytes \<Rightarrow> 32 word) \<Rightarrow> bytes \<Rightarrow> ip_range" where
  "entry_range address part =
     (let start = address (trimmed (replace_char (CHR ''*'') ''1'' part));
          stop = address (trimmed (replace_char (CHR ''*'') ''255'' part))
      in if stop < start then (stop, start) else (start, stop))"

text \<open>The ranges an entry adds: one for a star without a dash, one for a dash without a star.\<close>

definition entry_ranges :: "(bytes \<Rightarrow> 32 word) \<Rightarrow> bytes \<Rightarrow> ip_range list" where
  "entry_ranges address part =
     (if CHR ''*'' \<in> set part \<and> CHR ''-'' \<notin> set part then [entry_range address part] else [])
     @ (if CHR ''-'' \<in> set part \<and> CHR ''*'' \<notin> set part then [entry_range address part] else [])"

text \<open>A line without a second word is read out of bounds.\<close>

definition filter_line :: "(bytes \<Rightarrow> 32 word) \<Rightarrow> bytes \<Rightarrow> ip_filter \<Rightarrow> ip_filter run" where
  "filter_line address line f =
     (if starts_with (trimmed line) ''#'' then Done f
      else (let parts = split_on (CHR '' '') (trimmed line) in
            if hd parts = ''allow'' \<or> hd parts = ''deny'' then
              (if length parts < 2 then Fault
               else if hd parts = ''allow''
               then Done (f\<lparr>if_allowedIP := if_allowedIP f @ entry_ranges address (parts ! 1)\<rparr>)
               else (let f = (if parts ! 1 = ''all'' then f\<lparr>if_listening := False\<rparr> else f)
                     in Done (f\<lparr>if_notAllowedIP := if_notAllowedIP f @ entry_ranges address (parts ! 1)\<rparr>)))
            else Done f))"

fun filter_lines :: "(bytes \<Rightarrow> 32 word) \<Rightarrow> bytes list \<Rightarrow> ip_filter \<Rightarrow> ip_filter run" where
  "filter_lines address [] f = Done f"
| "filter_lines address (line # lines) f = rbind (filter_line address line f) (filter_lines address lines)"

definition parseIpFilter :: "(bytes \<Rightarrow> 32 word) \<Rightarrow> bytes \<Rightarrow> ip_filter \<Rightarrow> ip_filter run" where
  "parseIpFilter address ipFilterStr f = filter_lines address (split_on (CHR 0x0A) ipFilterStr) f"

section \<open>What a filter lets through\<close>

definition no_filter :: ip_filter where
  "no_filter = \<lparr>if_allowedIP = [], if_notAllowedIP = [], if_listening = True\<rparr>"

text \<open>The address of four bytes.\<close>

definition ip_of :: "nat \<Rightarrow> nat \<Rightarrow> nat \<Rightarrow> nat \<Rightarrow> 32 word" where
  "ip_of a b c d = word_of_nat (((a * 256 + b) * 256 + c) * 256 + d)"

definition dotted :: "nat \<Rightarrow> nat \<Rightarrow> nat \<Rightarrow> bytes" where
  "dotted a b c = int_text 10 (int a) @ ''.'' @ int_text 10 (int b) @ ''.'' @ int_text 10 (int c) @ ''.''"

lemma ip_text_of:
  assumes "a < 256" "b < 256" "c < 256" "d < 256"
  shows "ip_text (ip_of a b c d) = dotted a b c @ int_text 10 (int d)"
proof -
  let ?n = "((a * 256 + b) * 256 + c) * 256 + d"
  have "?n < 2 ^ 32" using assms by simp
  then have u: "unat (ip_of a b c d) = ?n" by (simp only: ip_of_def unat_of_nat) simp
  have q: "(m * 256 + r) div 256 = m" "(m * 256 + r) mod 256 = r" if "r < 256" for m r :: nat
    using that by simp_all
  define m where "m = a * 256 + b"
  define l where "l = m * 256 + c"
  have n: "?n = l * 256 + d" by (simp add: l_def m_def)
  have d1: "?n div 256 ^ 1 = l" unfolding n using q(1) [OF assms(4)] by simp
  have d2: "?n div 256 ^ 2 = m"
    using d1 q(1) [OF assms(3), of m] by (simp only: power2_eq_square power_one_right div_mult2_eq l_def)
  have d3: "?n div 256 ^ 3 = a"
    using d2 q(1) [OF assms(2), of a] by (simp only: power3_eq_cube power2_eq_square div_mult2_eq m_def)
  have e0: "?n div 256 ^ 0 mod 256 = d" unfolding n using q(2) [OF assms(4), of l] by simp
  have e1: "?n div 256 ^ 1 mod 256 = c" unfolding d1 l_def by (rule q(2) [OF assms(3)])
  have e2: "?n div 256 ^ 2 mod 256 = b" unfolding d2 m_def by (rule q(2) [OF assms(2)])
  have e3: "?n div 256 ^ 3 mod 256 = a" unfolding d3 using assms(1) by (rule mod_less)
  show ?thesis unfolding ip_text_def u list.map e0 e1 e2 e3 by (simp only: join_with.simps dotted_def append_assoc)
qed

lemma dotted_chars: "x \<in> set (dotted a b c) \<Longrightarrow> x = CHR ''.'' \<or> (\<exists>d<10. x = digit_char d)"
  using nat_text_chars [of 10 x] by (auto simp: dotted_def int_text_def)

lemma digit_char_ascii: "d < 10 \<Longrightarrow> (of_char (digit_char d) :: nat) = 48 + d"
  by (simp add: of_char_digit_char)

lemma dotted_plain:
  assumes "x \<in> set (dotted a b c)"
  shows "x \<noteq> CHR ''*'' \<and> x \<noteq> CHR ''-'' \<and> x \<noteq> CHR '' '' \<and> x \<noteq> CHR 0x0A \<and> \<not> is_space x"
proof -
  have "(of_char x :: nat) \<in> insert 46 {48..57}"
    using dotted_chars [OF assms] digit_char_ascii by fastforce
  then have "(of_char x :: nat) \<notin> {42, 45, 32, 10}" "\<not> is_space x" by (auto simp: is_space_def)
  then show ?thesis by auto
qed

text \<open>A line of one entry, read whole.\<close>

lemma trimmed_plain: "\<forall>x \<in> set s. \<not> is_space x \<Longrightarrow> trimmed s = s"
  by (rule trimmed_id) (auto simp: tight_def)

lemma allow_line:
  assumes "\<forall>x \<in> set part. \<not> is_space x" "part \<noteq> []"
  shows "parseIpFilter address (''allow '' @ part) no_filter =
    Done (no_filter\<lparr>if_allowedIP := entry_ranges address part\<rparr>)"
proof -
  let ?line = "''allow '' @ part"
  have "is_space (CHR '' '')" "is_space (CHR 0x0A)" by (simp_all add: is_space_def)
  then have s: "CHR '' '' \<notin> set part" "CHR 0x0A \<notin> set part" using assms(1) by blast+
  have l: "split_on (CHR 0x0A) ?line = [?line]"
    by (rule split_on_none) (use s in simp)
  have "\<not> is_space (last part)" using assms by simp
  then have "tight ?line" using assms(2) by (simp add: tight_def is_space_def)
  then have t: "trimmed ?line = ?line" by (rule trimmed_id)
  have "split_on (CHR '' '') (''allow'' @ CHR '' '' # part) = ''allow'' # split_on (CHR '' '') part"
    by (rule split_on_append) simp
  then have w: "split_on (CHR '' '') ?line = [''allow'', part]" using split_on_none [OF s(1)] by simp
  have "filter_line address ?line no_filter = Done (no_filter\<lparr>if_allowedIP := entry_ranges address part\<rparr>)"
    unfolding filter_line_def t Let_def w by (simp add: starts_with_def no_filter_def)
  then show ?thesis unfolding parseIpFilter_def l filter_lines.simps by simp
qed

text \<open>
  C35. A wildcard lets a network through: with the only line \<open>allow a.b.c.*\<close>, and a conversion that
  reads the text of every address, exactly the clients from \<open>a.b.c.1\<close> to \<open>a.b.c.255\<close> are not blocked;
  the network's first address is.
\<close>

theorem wildcard_allows:
  assumes "a < 256" "b < 256" "c < 256" "\<forall>ip. address (ip_text ip) = ip"
  shows "\<exists>f. parseIpFilter address (''allow '' @ dotted a b c @ ''*'') no_filter = Done f \<and>
    (\<forall>ip. block_client (if_allowedIP f) (if_notAllowedIP f) ip \<longleftrightarrow> \<not> (ip_of a b c 1 \<le> ip \<and> ip \<le> ip_of a b c 255))"
proof -
  let ?p = "dotted a b c @ ''*''"
  have sp: "\<forall>x \<in> set ?p. \<not> is_space x" using dotted_plain by (auto simp: is_space_def)
  have ch: "CHR ''*'' \<in> set ?p" "CHR ''-'' \<notin> set ?p" "CHR ''*'' \<notin> set (dotted a b c)" using dotted_plain by auto
  have r: "trimmed (replace_char (CHR ''*'') d ?p) = dotted a b c @ d" if "\<forall>x \<in> set d. \<not> is_space x" for d
  proof -
    have "replace_char (CHR ''*'') d ?p = dotted a b c @ d"
      using replace_char_absent [OF ch(3)] by simp
    moreover have "\<forall>x \<in> set (dotted a b c @ d). \<not> is_space x" using that dotted_plain by auto
    ultimately show ?thesis by (simp only: trimmed_plain)
  qed
  have n: "''1'' = int_text 10 (int 1)" "''255'' = int_text 10 (int 255)"
    by (simp_all add: int_text_def nat_text_def digits.simps digit_char_def char_of_def bit_simps)
  have e: "address (dotted a b c @ ''1'') = ip_of a b c 1" "address (dotted a b c @ ''255'') = ip_of a b c 255"
    unfolding n using ip_text_of [OF assms(1-3), of 1] ip_text_of [OF assms(1-3), of 255] assms(4)
    by (metis one_less_numeral_iff semiring_norm(76), metis numeral_less_iff semiring_norm(76,78,80,81))
  have le: "ip_of a b c 1 \<le> ip_of a b c 255"
  proof -
    have u: "unat (ip_of a b c d) = ((a * 256 + b) * 256 + c) * 256 + d" if "d < 256" for d
      using assms(1-3) that by (simp only: ip_of_def unat_of_nat) simp
    show ?thesis by (simp add: word_le_nat_alt u)
  qed
  have "entry_range address ?p = (ip_of a b c 1, ip_of a b c 255)"
  proof -
    have "trimmed (replace_char (CHR ''*'') ''1'' ?p) = dotted a b c @ ''1''"
      "trimmed (replace_char (CHR ''*'') ''255'' ?p) = dotted a b c @ ''255''"
      by (rule r, simp add: is_space_def)+
    then show ?thesis unfolding entry_range_def Let_def by (simp only: e leD [OF le] if_False)
  qed
  then have "entry_ranges address ?p = [(ip_of a b c 1, ip_of a b c 255)]" using ch(1,2) by (simp add: entry_ranges_def)
  then show ?thesis
    using allow_line [OF sp, of address] by (auto simp: no_filter_def block_client_def in_range_def list_ex_iff)
qed

text \<open>A conversion of dotted addresses, for the witness.\<close>

definition plain_address :: "bytes \<Rightarrow> 32 word" where
  "plain_address s =
     (case map (parse_nat 10) (split_on (CHR ''.'') s) of
        [Some a, Some b, Some c, Some d] \<Rightarrow> ip_of a b c d
      | _ \<Rightarrow> 0)"

lemma plain_address_text: "plain_address (ip_text ip) = ip"
proof -
  let ?b = "\<lambda>k. (unat ip div 256 ^ k) mod 256"
  have dot: "CHR ''.'' \<notin> set (nat_text 10 m)" for m
  proof
    assume "CHR ''.'' \<in> set (nat_text 10 m)"
    then obtain d where "d < 10" "CHR ''.'' = digit_char d" using nat_text_chars [of 10 "CHR ''.''" m] by auto
    then have "(of_char (CHR ''.'') :: nat) = 48 + d" using digit_char_ascii by metis
    then show False by simp
  qed
  have "split_on (CHR ''.'') (ip_text ip) = map (\<lambda>k. int_text 10 (int (?b k))) [3, 2, 1, 0]"
    unfolding ip_text_def by (rule split_join) (auto simp: int_text_def dot simp del: of_nat_mod)
  then have "map (parse_nat 10) (split_on (CHR ''.'') (ip_text ip)) = [Some (?b 3), Some (?b 2), Some (?b 1), Some (?b 0)]"
    by (simp add: int_text_def parse_nat_text del: of_nat_mod)
  then have p: "plain_address (ip_text ip) = ip_of (?b 3) (?b 2) (?b 1) (?b 0)" unfolding plain_address_def by simp
  have n: "m div 256 * 256 + m mod 256 = m" for m :: nat by simp
  have "unat ip < 2 ^ 32" using unsigned_less [of ip] by simp
  then have b3: "?b 3 = unat ip div 256 ^ 3" by (simp add: less_mult_imp_div_less)
  have q: "unat ip div 256 ^ 3 = unat ip div 256 ^ 2 div 256" "unat ip div 256 ^ 2 = unat ip div 256 ^ 1 div 256"
    "unat ip div 256 ^ 1 = unat ip div 256 ^ 0 div 256"
    by (simp_all add: div_mult2_eq [symmetric])
  have whole: "((?b 3 * 256 + ?b 2) * 256 + ?b 1) * 256 + ?b 0 = unat ip"
  proof -
    have "unat ip div 256 ^ 3 * 256 + ?b 2 = unat ip div 256 ^ 2" unfolding q(1) by (rule n)
    moreover have "unat ip div 256 ^ 2 * 256 + ?b 1 = unat ip div 256 ^ 1" unfolding q(2) by (rule n)
    moreover have "unat ip div 256 ^ 1 * 256 + ?b 0 = unat ip" using n [of "unat ip"] by simp
    ultimately show ?thesis by (simp only: b3)
  qed
  show ?thesis unfolding p ip_of_def whole by simp
qed

theorem wildcard_allows_witness:
  "\<exists>f. parseIpFilter plain_address (''allow '' @ dotted 10 0 0 @ ''*'') no_filter = Done f \<and>
    block_client (if_allowedIP f) (if_notAllowedIP f) (ip_of 10 0 0 0)"
proof -
  have "\<forall>ip. plain_address (ip_text ip) = ip" by (simp add: plain_address_text)
  from wildcard_allows [OF _ _ _ this, of 10 0 0] obtain f where
    f: "parseIpFilter plain_address (''allow '' @ dotted 10 0 0 @ ''*'') no_filter = Done f"
    "\<forall>ip. block_client (if_allowedIP f) (if_notAllowedIP f) ip \<longleftrightarrow> \<not> (ip_of 10 0 0 1 \<le> ip \<and> ip \<le> ip_of 10 0 0 255)"
    by auto
  have "\<not> ip_of 10 0 0 1 \<le> ip_of 10 0 0 0" by (simp add: ip_of_def word_le_nat_alt unat_of_nat)
  then show ?thesis using f by blast
qed

text \<open>
  A range with a dash blocks everyone: with the only line \<open>allow x-y\<close>, and a conversion that
  gives the null address for a text with a dash, every client is blocked but the null address.
\<close>

theorem dash_range_blocks:
  assumes "\<forall>z \<in> set part. \<not> is_space z" "CHR ''-'' \<in> set part" "CHR ''*'' \<notin> set part"
    and "\<forall>s. CHR ''-'' \<in> set s \<longrightarrow> address s = 0"
  shows "\<exists>f. parseIpFilter address (''allow '' @ part) no_filter = Done f \<and>
    (\<forall>ip. block_client (if_allowedIP f) (if_notAllowedIP f) ip \<longleftrightarrow> ip \<noteq> 0)"
proof -
  have "part \<noteq> []" using assms(2) by auto
  have "replace_char (CHR ''*'') d part = part" for d using replace_char_absent [OF assms(3)] .
  moreover have "trimmed part = part" by (rule trimmed_plain [OF assms(1)])
  ultimately have "entry_range address part = (0, 0)" using assms(2,4) by (simp add: entry_range_def)
  then have "entry_ranges address part = [(0, 0)]" using assms(2,3) by (simp add: entry_ranges_def)
  then show ?thesis
    using allow_line [OF assms(1) \<open>part \<noteq> []\<close>, of address]
    by (auto simp: no_filter_def block_client_def in_range_def list_ex_iff)
qed

theorem dash_range_blocks_witness:
  "\<exists>f. parseIpFilter (\<lambda>s. if CHR ''-'' \<in> set s then 0 else 16909060) ''allow 10.0.0.1-10.0.0.9'' no_filter = Done f \<and>
    block_client (if_allowedIP f) (if_notAllowedIP f) 167772165"
  using dash_range_blocks [of "''10.0.0.1-10.0.0.9''" "\<lambda>s. if CHR ''-'' \<in> set s then 0 else 16909060"]
  by (auto simp: is_space_def)

end
