(* ===== verification/Item_Tree.thy ===== *)
theory Item_Tree
  imports Qt_Bytes Qt_Maps "HOL-Library.Sublist" "HOL-Library.Multiset"
begin

text \<open>
  The trees behind the two views of a torrent's files. An item has a name, the data of its class
  and its list of children; its parent pointer is its position. A pointer to an item of a tree is
  the list of the rows that lead to it from the root. The theory holds what
  \<open>FileTreeModel.cpp\<close> and \<open>FileViewModel.cpp\<close> have in common: the loops of
  their \<open>addPath\<close>, which find or append one child for each part of a path, and the walk
  over the leaves.
\<close>

section \<open>Items and pointers\<close>

datatype 'a item = Item (item_name: string) (item_data: 'a) (child_items: "'a item list")

type_synonym 'a tree_pointer = "nat list"

fun item_at :: "'a item \<Rightarrow> nat list \<Rightarrow> 'a item option" where
  "item_at t [] = Some t"
| "item_at t (i # p) =
     (if i < length (child_items t) then item_at (child_items t ! i) p else None)"

text \<open>Names on the way from the root, the root's own left out.\<close>

fun names_at :: "'a item \<Rightarrow> nat list \<Rightarrow> string list" where
  "names_at t [] = []"
| "names_at t (i # p) = item_name (child_items t ! i) # names_at (child_items t ! i) p"

fun update_at :: "nat list \<Rightarrow> ('a item \<Rightarrow> 'a item) \<Rightarrow> 'a item \<Rightarrow> 'a item" where
  "update_at [] f t = f t"
| "update_at (i # p) f (Item n d ts) =
     (if i < length ts then Item n d (ts[i := update_at p f (ts ! i)]) else Item n d ts)"

section \<open>Adding a path\<close>

text \<open>The inner loop looks for the first child of a name.\<close>

fun find_child :: "string \<Rightarrow> nat \<Rightarrow> 'a item list \<Rightarrow> nat option" where
  "find_child name j [] = None"
| "find_child name j (t # ts) =
     (if item_name t = name then Some j else find_child name (Suc j) ts)"

text \<open>
  What the data of a new item is depends on the item it is appended to, on its name and on whether
  it is the last part of the path: the argument \<open>mk\<close>. The first loop builds a chain below
  an empty root, the second goes down the tree.
\<close>

fun chain_loop :: "('a \<Rightarrow> string \<Rightarrow> bool \<Rightarrow> 'a) \<Rightarrow> string list \<Rightarrow> 'a item \<Rightarrow> 'a item" where
  "chain_loop mk [] t = t"
| "chain_loop mk (p # ps) (Item n d ts) =
     (let ts' = ts @ [Item p (mk d p (ps = [])) []]
      in Item n d (ts'[0 := chain_loop mk ps (ts' ! 0)]))"

fun add_loop :: "('a \<Rightarrow> string \<Rightarrow> bool \<Rightarrow> 'a) \<Rightarrow> string list \<Rightarrow> 'a item \<Rightarrow> 'a item" where
  "add_loop mk [] t = t"
| "add_loop mk (p # ps) (Item n d ts) =
     (case find_child p 0 ts of
        Some j \<Rightarrow> Item n d (ts[j := add_loop mk ps (ts ! j)])
      | None \<Rightarrow>
          (let ts' = ts @ [Item p (mk d p (ps = [])) []]; j = length ts' - 1
           in Item n d (ts'[j := add_loop mk ps (ts' ! j)])))"

definition add_parts :: "('a \<Rightarrow> string \<Rightarrow> bool \<Rightarrow> 'a) \<Rightarrow> string list \<Rightarrow> 'a item \<Rightarrow> 'a item" where
  "add_parts mk parts t = (if child_items t = [] then chain_loop mk parts t else add_loop mk parts t)"

definition toNativeSeparators :: "char \<Rightarrow> string \<Rightarrow> string" where
  "toNativeSeparators sep s = map (\<lambda>c. if c = CHR ''/'' then sep else c) s"

definition path_parts :: "char \<Rightarrow> string \<Rightarrow> string list" where
  "path_parts sep path = split_on sep (toNativeSeparators sep path)"

section \<open>The parts of a path\<close>

lemma join_inject:
  assumes "join_with [c] xs = join_with [c] ys" "xs \<noteq> []" "ys \<noteq> []"
    "\<forall>x \<in> set xs. c \<notin> set x" "\<forall>y \<in> set ys. c \<notin> set y"
  shows "xs = ys"
proof -
  have "xs = split_on c (join_with [c] xs)" by (rule split_join [OF assms(2,4), symmetric])
  also have "\<dots> = ys" unfolding assms(1) by (rule split_join [OF assms(3,5)])
  finally show ?thesis .
qed

lemma join_parts: "join_with [sep] (path_parts sep path) = toNativeSeparators sep path"
  by (simp add: path_parts_def join_split)

lemma path_parts_nonempty [simp]: "path_parts sep path \<noteq> []"
  by (simp add: path_parts_def)

lemma path_parts_free: "x \<in> set (path_parts sep path) \<Longrightarrow> sep \<notin> set x"
  unfolding path_parts_def by (rule split_on_parts)

lemma set_join: "\<Union> (set ` set xs) \<subseteq> set (join_with [c] xs)" "set (join_with [c] xs) \<subseteq> insert c (\<Union> (set ` set xs))"
  by (induction "[c]" xs rule: join_with.induct) auto

lemma path_parts_slash: "x \<in> set (path_parts sep path) \<Longrightarrow> CHR ''/'' \<notin> set x"
proof
  assume x: "x \<in> set (path_parts sep path)" "CHR ''/'' \<in> set x"
  then have "CHR ''/'' \<in> set (toNativeSeparators sep path)"
    using set_join(1) [of "path_parts sep path" sep] unfolding join_parts by blast
  then have "sep = CHR ''/''" by (auto simp: toNativeSeparators_def split: if_splits)
  with x path_parts_free show False by blast
qed

section \<open>Leaves\<close>

text \<open>The leaves below an item, each with the names that lead to it.\<close>

fun leaves :: "'a item \<Rightarrow> (string list \<times> 'a) list" where
  "leaves (Item n d ts) =
     (if ts = [] then [([], d)]
      else concat (map (\<lambda>t. map (apfst (Cons (item_name t))) (leaves t)) ts))"

abbreviation leaf_paths :: "'a item \<Rightarrow> string list set" where
  "leaf_paths t \<equiv> fst ` set (leaves t)"

text \<open>No path is the beginning of another one.\<close>

definition independent :: "string list list \<Rightarrow> bool" where
  "independent pss \<longleftrightarrow> sorted_wrt (\<lambda>p q. \<not> prefix p q \<and> \<not> prefix q p) pss"

definition fits :: "'a item \<Rightarrow> string list \<Rightarrow> bool" where
  "fits t ps \<longleftrightarrow> child_items t = [] \<or> (\<forall>q \<in> leaf_paths t. \<not> prefix q ps \<and> \<not> prefix ps q)"

section \<open>The loops\<close>

lemma find_child_Some:
  "find_child name j ts = Some k \<Longrightarrow> j \<le> k \<and> k - j < length ts \<and> item_name (ts ! (k - j)) = name"
proof (induction ts arbitrary: j)
  case (Cons t ts)
  show ?case
  proof (cases "item_name t = name")
    case False
    with Cons have "Suc j \<le> k \<and> k - Suc j < length ts \<and> item_name (ts ! (k - Suc j)) = name" by auto
    moreover then have "k - j = Suc (k - Suc j)" by arith
    ultimately show ?thesis by simp
  qed (use Cons in auto)
qed simp

lemma find_child_None: "find_child name j ts = None \<longleftrightarrow> name \<notin> item_name ` set ts"
  by (induction ts arbitrary: j) auto

lemma chain_is_add: "child_items t = [] \<Longrightarrow> chain_loop mk ps t = add_loop mk ps t"
proof (induction ps arbitrary: t)
  case (Cons p ps)
  then obtain n d where "t = Item n d []" by (cases t) auto
  with Cons.IH show ?case by (simp add: Let_def)
qed simp

lemma add_parts_loop: "add_parts mk ps t = add_loop mk ps t"
  by (simp add: add_parts_def chain_is_add)

text \<open>One step of the loop: the child the path goes through is replaced, or a new one appended.\<close>

lemma add_loop_cases:
  assumes "t = Item n d ts"
  obtains (old) xs u ys where "ts = xs @ u # ys" "item_name u = p"
    "add_loop mk (p # ps) t = Item n d (xs @ add_loop mk ps u # ys)"
  | (new) "p \<notin> item_name ` set ts"
    "add_loop mk (p # ps) t = Item n d (ts @ [add_loop mk ps (Item p (mk d p (ps = [])) [])])"
proof (cases "find_child p 0 ts")
  case None
  show ?thesis
  proof (rule new)
    show "p \<notin> item_name ` set ts" by (rule find_child_None [THEN iffD1, OF None])
    show "add_loop mk (p # ps) t = Item n d (ts @ [add_loop mk ps (Item p (mk d p (ps = [])) [])])"
      by (simp add: assms None list_update_append)
  qed
next
  case (Some j)
  then have j: "j < length ts" "item_name (ts ! j) = p" using find_child_Some by force+
  show ?thesis
  proof (rule old)
    show "ts = take j ts @ ts ! j # drop (Suc j) ts" using j by (simp add: id_take_nth_drop)
    show "add_loop mk (p # ps) t = Item n d (take j ts @ add_loop mk ps (ts ! j) # drop (Suc j) ts)"
      using assms Some j by (simp add: upd_conv_take_nth_drop)
  qed (rule j(2))
qed

lemma add_loop_name [simp]: "item_name (add_loop mk ps t) = item_name t"
  by (cases ps; cases t) (auto split: option.splits simp: Let_def)

lemma add_loop_data [simp]: "item_data (add_loop mk ps t) = item_data t"
  by (cases ps; cases t) (auto split: option.splits simp: Let_def)

lemma add_loop_nonempty: "ps \<noteq> [] \<Longrightarrow> child_items (add_loop mk ps t) \<noteq> []"
  by (cases ps; cases t) (auto split: option.splits simp: Let_def dest!: find_child_Some)

lemma leaves_nonempty [simp]: "leaves t \<noteq> []"
  by (induction t) auto

lemma leaf_exists: "\<exists>q. q \<in> leaf_paths t"
  by (simp add: ex_in_conv)

lemma leaf_paths_children:
  assumes "ts \<noteq> []"
  shows "leaf_paths (Item n d ts) = (\<Union>t \<in> set ts. Cons (item_name t) ` leaf_paths t)"
proof -
  have set: "set (leaves (Item n d ts)) = (\<Union>t \<in> set ts. apfst (Cons (item_name t)) ` set (leaves t))"
    using assms by simp
  have one: "fst ` apfst (Cons m) ` L = Cons m ` fst ` L" for m and L :: "(string list \<times> 'a) set"
    by (simp only: image_image fst_apfst)
  show ?thesis unfolding set image_UN one ..
qed

lemma fits_child:
  assumes "fits (Item n d ts) (p # ps)" "u \<in> set ts" "item_name u = p"
  shows "ps \<noteq> [] \<and> child_items u \<noteq> [] \<and> fits u ps"
proof -
  have apart: "\<not> prefix q ps \<and> \<not> prefix ps q" if "q \<in> leaf_paths u" for q
  proof -
    have ne: "ts \<noteq> []" using assms(2) by auto
    have "p # q \<in> (\<Union>t \<in> set ts. Cons (item_name t) ` leaf_paths t)"
      using that assms(2) by (intro UN_I [of u]) (simp_all only: assms(3) imageI)
    then have mem: "p # q \<in> leaf_paths (Item n d ts)" by (simp only: leaf_paths_children [OF ne])
    have "\<forall>q \<in> leaf_paths (Item n d ts). \<not> prefix q (p # ps) \<and> \<not> prefix (p # ps) q"
      using assms(1) ne by (simp only: fits_def item.sel) simp
    from bspec [OF this mem] show ?thesis by simp
  qed
  have "child_items u \<noteq> []"
  proof
    assume "child_items u = []"
    then have "[] \<in> leaf_paths u" by (cases u) auto
    from apart [OF this] show False by simp
  qed
  moreover have "ps \<noteq> []"
  proof -
    obtain q where "q \<in> leaf_paths u" by (rule exE [OF leaf_exists])
    from apart [OF this] have "\<not> prefix ps q" ..
    then show ?thesis by (cases ps) simp_all
  qed
  ultimately show ?thesis using apart by (simp add: fits_def)
qed

text \<open>A path that fits becomes one new leaf with the data of a last part.\<close>

lemma leaves_add_loop:
  assumes "\<And>d p. mk d p True = x" "ps \<noteq> []" "fits t ps"
  shows "mset (leaves (add_loop mk ps t)) =
    (if child_items t = [] then {#} else mset (leaves t)) + {#(ps, x)#}"
  using assms(2,3)
proof (induction ps arbitrary: t)
  case (Cons p ps)
  obtain n d ts where t: "t = Item n d ts" by (cases t)
  from t show ?case
  proof (cases rule: add_loop_cases [where p = p and ps = ps and mk = mk])
    case (old xs u ys)
    have u: "ps \<noteq> []" "child_items u \<noteq> []" "fits u ps"
      using fits_child [OF Cons.prems(2) [unfolded t], of u] old by auto
    have "mset (leaves (add_loop mk ps u)) = mset (leaves u) + {#(ps, x)#}"
      using Cons.IH [OF u(1,3)] u(2) by simp
    then have "image_mset (apfst (Cons p)) (mset (leaves (add_loop mk ps u))) =
        image_mset (apfst (Cons p)) (mset (leaves u)) + {#(p # ps, x)#}" by simp
    then show ?thesis using old t by simp
  next
    case new
    have "leaves (add_loop mk ps (Item p (mk d p (ps = [])) [])) = [(ps, x)]"
    proof (cases "ps = []")
      case False
      have "mset (leaves (add_loop mk ps (Item p (mk d p (ps = [])) []))) = {#(ps, x)#}"
        using Cons.IH [OF False] by (simp add: fits_def)
      then show ?thesis by (simp add: mset_single_iff)
    qed (simp add: assms(1))
    then show ?thesis using new t by auto
  qed
qed simp

lemma independent_Cons:
  "independent (p # pss) \<longleftrightarrow> (\<forall>q \<in> set pss. \<not> prefix p q \<and> \<not> prefix q p) \<and> independent pss"
  by (simp add: independent_def)

text \<open>
  What a list of paths leaves: every path once, when no path begins another one. \<open>entries\<close>
  pairs the parts of each path with the data of its last item.
\<close>

definition add_entries ::
  "('b \<Rightarrow> 'a \<Rightarrow> string \<Rightarrow> bool \<Rightarrow> 'a) \<Rightarrow> ('b \<Rightarrow> string list) \<Rightarrow> 'b list \<Rightarrow> 'a item \<Rightarrow> 'a item" where
  "add_entries mk parts es t = fold (\<lambda>e. add_parts (mk e) (parts e)) es t"

lemma add_entries_simps [simp]:
  "add_entries mk parts [] t = t"
  "add_entries mk parts (e # es) t = add_entries mk parts es (add_loop (mk e) (parts e) t)"
  by (simp_all add: add_entries_def add_parts_loop)

definition all_fit :: "'a item \<Rightarrow> string list list \<Rightarrow> bool" where
  "all_fit t pss \<longleftrightarrow> independent pss \<and> [] \<notin> set pss \<and> (\<forall>ps \<in> set pss. fits t ps)"

lemma all_fit_step:
  assumes "\<And>d p. mk d p True = x" "all_fit t (ps # pss)"
  shows "fits t ps" "ps \<noteq> []" "all_fit (add_loop mk ps t) pss"
proof -
  show ps: "fits t ps" "ps \<noteq> []" using assms(2) by (auto simp: all_fit_def)
  have new: "leaf_paths (add_loop mk ps t) \<subseteq> insert ps (if child_items t = [] then {} else leaf_paths t)"
    using arg_cong [OF leaves_add_loop [where mk = mk, OF assms(1) ps(2,1)], of set_mset]
    by auto
  have "fits (add_loop mk ps t) qs" if "qs \<in> set pss" for qs
  proof -
    have "fits t qs" "\<not> prefix ps qs" "\<not> prefix qs ps"
      using that assms(2) by (auto simp: all_fit_def independent_Cons)
    have "\<not> prefix q qs \<and> \<not> prefix qs q" if "q \<in> leaf_paths (add_loop mk ps t)" for q
    proof (cases "q = ps")
      case False
      with new that have "child_items t \<noteq> []" "q \<in> leaf_paths t" by (auto split: if_splits)
      with \<open>fits t qs\<close> show ?thesis unfolding fits_def by blast
    qed (use \<open>\<not> prefix ps qs\<close> \<open>\<not> prefix qs ps\<close> in simp)
    then show ?thesis unfolding fits_def by blast
  qed
  then show "all_fit (add_loop mk ps t) pss"
    using assms(2) by (simp add: all_fit_def independent_Cons)
qed

lemma leaves_add_entries:
  assumes "\<And>e d p. mk e d p True = x e" "all_fit t (map parts es)"
  shows "mset (leaves (add_entries mk parts es t)) =
    (if child_items t = [] \<and> es \<noteq> [] then {#} else mset (leaves t)) +
    image_mset (\<lambda>e. (parts e, x e)) (mset es)"
  using assms(2)
proof (induction es arbitrary: t)
  case (Cons e es)
  note step = all_fit_step [where mk = "mk e", OF assms(1) Cons.prems [simplified]]
  show ?case
    using Cons.IH [OF step(3)] leaves_add_loop [where mk = "mk e", OF assms(1) step(2,1)]
      add_loop_nonempty [OF step(2), of "mk e" t]
    by simp
qed simp

section \<open>Well-formed trees\<close>

text \<open>
  Brothers have different names, and a property \<open>R\<close> holds of the name, the data and the
  lack of children of every item below the root.
\<close>

fun tree_ok :: "(string \<Rightarrow> 'a \<Rightarrow> bool \<Rightarrow> bool) \<Rightarrow> 'a item \<Rightarrow> bool" where
  "tree_ok R (Item n d ts) \<longleftrightarrow>
     distinct (map item_name ts) \<and>
     list_all (\<lambda>t. R (item_name t) (item_data t) (child_items t = []) \<and> tree_ok R t) ts"

lemma tree_ok_add_loop:
  assumes "\<And>d p b. p \<in> set ps \<Longrightarrow> R p (mk d p b) b" "fits t ps" "tree_ok R t"
  shows "tree_ok R (add_loop mk ps t)"
  using assms
proof (induction ps arbitrary: t)
  case (Cons p ps)
  obtain n d ts where t: "t = Item n d ts" by (cases t)
  have leaf: "child_items (add_loop mk ps u) = [] \<longleftrightarrow> ps = [] \<and> child_items u = []" for u
    using add_loop_nonempty [of ps mk u] by (cases "ps = []") auto
  from t show ?case
  proof (cases rule: add_loop_cases [where p = p and ps = ps and mk = mk])
    case (old xs u ys)
    have u: "ps \<noteq> []" "child_items u \<noteq> []" "fits u ps"
      using fits_child [OF Cons.prems(2) [unfolded t], of u] old by auto
    have "tree_ok R (add_loop mk ps u)"
      using Cons.IH [of u] Cons.prems(1,3) u old t by simp
    then show ?thesis using old t u Cons.prems(3) by (simp add: leaf)
  next
    case new
    have "tree_ok R (add_loop mk ps (Item p (mk d p (ps = [])) []))"
      using Cons.IH Cons.prems(1) by (simp add: fits_def)
    then show ?thesis using new t Cons.prems(1,3) by (auto simp: leaf)
  qed
qed simp

lemma tree_ok_add_entries:
  assumes "\<And>e d p. mk e d p True = x e" "all_fit t (map parts es)" "tree_ok R t"
    "\<And>e d p b. e \<in> set es \<Longrightarrow> p \<in> set (parts e) \<Longrightarrow> R p (mk e d p b) b"
  shows "tree_ok R (add_entries mk parts es t)"
  using assms(2-)
proof (induction es arbitrary: t)
  case (Cons e es)
  note step = all_fit_step [where mk = "mk e", OF assms(1) Cons.prems(1) [simplified]]
  have "tree_ok R (add_loop (mk e) (parts e) t)"
    using Cons.prems by (intro tree_ok_add_loop step(1)) auto
  then show ?case using Cons.IH [OF step(3)] Cons.prems(3) by simp
qed simp

section \<open>Pointers and updates\<close>

text \<open>The items below the root, a parent before its children, with their names and data.\<close>

fun items :: "'a item \<Rightarrow> (string list \<times> 'a) list" where
  "items (Item n d ts) =
     concat (map (\<lambda>t. map (apfst (Cons (item_name t))) (([], item_data t) # items t)) ts)"

lemma items_pointer:
  "item_at t p = Some u \<Longrightarrow> p \<noteq> [] \<Longrightarrow> (names_at t p, item_data u) \<in> set (items t)"
proof (induction t p rule: item_at.induct)
  case (2 t i p)
  obtain n d ts where t: "t = Item n d ts" by (cases t)
  have i: "i < length ts" "item_at (ts ! i) p = Some u" using 2(2) t by (auto split: if_splits)
  show ?case
  proof (cases "p = []")
    case True
    then show ?thesis using i t by (auto intro!: bexI [of _ "ts ! i"])
  next
    case False
    then have "(names_at (ts ! i) p, item_data u) \<in> set (items (ts ! i))" using 2(1) i t by simp
    then show ?thesis using i(1) t
      by (auto intro!: bexI [of _ "ts ! i"] image_eqI [of _ _ "(names_at (ts ! i) p, item_data u)"])
  qed
qed simp

lemma leaves_pointer:
  "(ns, d) \<in> set (leaves t) \<Longrightarrow>
   \<exists>p u. item_at t p = Some u \<and> child_items u = [] \<and> item_data u = d \<and> names_at t p = ns"
proof (induction t arbitrary: ns)
  case (Item n e ts)
  show ?case
  proof (cases "ts = []")
    case True
    with Item.prems show ?thesis by (intro exI [of _ "[]"]) simp
  next
    case False
    with Item.prems obtain t ms where t: "t \<in> set ts" "(ms, d) \<in> set (leaves t)" "ns = item_name t # ms"
      by (auto simp: image_iff)
    obtain p u where p: "item_at t p = Some u" "child_items u = []" "item_data u = d" "names_at t p = ms"
      using Item.IH [OF t(1,2)] by blast
    obtain i where "i < length ts" "ts ! i = t" using t(1) by (auto simp: in_set_conv_nth)
    with p t(3) show ?thesis by (intro exI [of _ "i # p"] exI [of _ u]) simp
  qed
qed

lemma tree_ok_child: "tree_ok R (Item n d ts) \<Longrightarrow> i < length ts \<Longrightarrow> tree_ok R (ts ! i)"
  by (simp add: list_all_length)

lemma tree_ok_below: "tree_ok R t \<Longrightarrow> item_at t p = Some u \<Longrightarrow> tree_ok R u"
proof (induction t p rule: item_at.induct)
  case (2 t i p)
  then show ?case using tree_ok_child by (cases t) (auto split: if_splits)
qed simp

lemma tree_ok_data:
  "tree_ok R t \<Longrightarrow> item_at t p = Some u \<Longrightarrow> p \<noteq> [] \<Longrightarrow> R (item_name u) (item_data u) (child_items u = [])"
proof (induction t p rule: item_at.induct)
  case (2 t i p)
  obtain n d ts where t: "t = Item n d ts" by (cases t)
  show ?case
  proof (cases "p = []")
    case True
    with 2 t show ?thesis by (auto simp: list_all_length split: if_splits)
  next
    case False
    with 2 t tree_ok_child show ?thesis by (auto split: if_splits)
  qed
qed simp

text \<open>In a tree where brothers differ, the names tell where an item is.\<close>

lemma names_at_inject:
  assumes "tree_ok R t" "item_at t p \<noteq> None" "item_at t q \<noteq> None" "names_at t p = names_at t q"
  shows "p = q"
  using assms
proof (induction t p arbitrary: q rule: item_at.induct)
  case (1 t)
  then show ?case by (cases q) simp_all
next
  case (2 t i p)
  obtain n d ts where t: "t = Item n d ts" by (cases t)
  obtain j q' where q: "q = j # q'" using 2(5) by (cases q) simp_all
  have ij: "i < length ts" "j < length ts" using 2(3,4) t q by (auto split: if_splits)
  have "map item_name ts ! i = map item_name ts ! j" using 2(5) t q ij by simp
  moreover have "distinct (map item_name ts)" using 2(2) t by simp
  ultimately have "i = j" using ij by (simp only: nth_eq_iff_index_eq length_map)
  then show ?case using 2(1) [of q'] 2(2-5) t q ij tree_ok_child [of R n d ts j] by simp
qed

lemma item_at_update_apart:
  "\<not> prefix p q \<Longrightarrow>
   map_option item_data (item_at (update_at p f t) q) = map_option item_data (item_at t q)"
proof (induction p f t arbitrary: q rule: update_at.induct)
  case (2 i p f n d ts)
  then show ?case by (cases q) (auto simp: nth_list_update)
qed simp

lemma item_at_update_below:
  "item_at t p = Some u \<Longrightarrow> item_at (update_at p f t) (p @ r) = item_at (f u) r"
  by (induction p f t rule: update_at.induct) (auto split: if_splits)

lemma item_at_append: "item_at t (p @ r) = Option.bind (item_at t p) (\<lambda>u. item_at u r)"
  by (induction t p rule: item_at.induct) auto

lemma update_at_append: "update_at (p @ r) f t = update_at p (update_at r f) t"
  by (induction p f t arbitrary: r rule: update_at.induct) auto

lemma update_at_invalid: "item_at t p = None \<Longrightarrow> update_at p f t = t"
  by (induction p f t rule: update_at.induct) (auto split: if_splits)

text \<open>What the names and the positions are, without the data.\<close>

definition shape :: "'a item \<Rightarrow> unit item" where
  "shape = map_item (\<lambda>_. ())"

lemma shape_Item: "shape (Item n d ts) = Item n () (map shape ts)"
  by (simp add: shape_def)

lemma shape_update_at: "(\<And>u. shape (f u) = shape u) \<Longrightarrow> shape (update_at p f t) = shape t"
proof (induction p f t rule: update_at.induct)
  case (2 i p f n d ts)
  have "(map shape ts)[i := shape (ts ! i)] = map shape ts" if "i < length ts"
    using that by (simp add: list_update_same_conv)
  then show ?case using 2 by (simp add: shape_Item map_update)
qed simp

lemma shape_item_at: "item_at (shape t) p = map_option shape (item_at t p)"
proof (induction t p rule: item_at.induct)
  case (2 t i p)
  then show ?case by (cases t) (auto simp: shape_Item)
qed simp

lemma shape_names_at: "item_at t p \<noteq> None \<Longrightarrow> names_at (shape t) p = names_at t p"
proof (induction t p rule: item_at.induct)
  case (2 t i p)
  obtain n d ts where t: "t = Item n d ts" by (cases t)
  have "item_name (shape u) = item_name u" for u :: "'a item" by (cases u) (simp add: shape_Item)
  then show ?case using 2 t by (auto simp: shape_Item split: if_splits)
qed simp

lemma shape_tree_ok: "tree_ok (\<lambda>n d b. Q n) (shape t) = tree_ok (\<lambda>n d b. Q n) t"
proof (induction t)
  case (Item n d ts)
  have "item_name (shape u) = item_name u" for u :: "'a item" by (cases u) (simp add: shape_Item)
  then show ?case using Item by (simp add: shape_Item list.pred_map comp_def list_all_iff)
qed

lemma tree_ok_mono:
  assumes "\<And>n d b. R n d b \<Longrightarrow> R' n d b"
  shows "tree_ok R t \<Longrightarrow> tree_ok R' t"
  by (induction t) (auto simp: list_all_iff assms)

text \<open>Same shape, same names and same places.\<close>

lemma same_shape:
  assumes "shape t = shape t'"
  shows "item_at t p \<noteq> None \<longleftrightarrow> item_at t' p \<noteq> None"
    "item_at t p \<noteq> None \<Longrightarrow> names_at t p = names_at t' p"
    "tree_ok (\<lambda>n d b. Q n) t \<Longrightarrow> tree_ok (\<lambda>n d b. Q n) t'"
proof -
  show at: "item_at t p \<noteq> None \<longleftrightarrow> item_at t' p \<noteq> None"
    using shape_item_at [of t p] shape_item_at [of t' p] assms
    by (cases "item_at t p"; cases "item_at t' p") auto
  show "item_at t p \<noteq> None \<Longrightarrow> names_at t p = names_at t' p"
    using shape_names_at [of t p] shape_names_at [of t' p] assms at by simp
  show "tree_ok (\<lambda>n d b. Q n) t \<Longrightarrow> tree_ok (\<lambda>n d b. Q n) t'"
    using shape_tree_ok [of Q t] shape_tree_ok [of Q t'] assms by simp
qed

text \<open>Every item has names of its own.\<close>

lemma items_Cons:
  "items (Item n d (t # ts)) =
   map (apfst (Cons (item_name t))) (([], item_data t) # items t) @ items (Item n d ts)"
  by simp

lemma items_first: "ns \<in> fst ` set (items (Item n d ts)) \<Longrightarrow> ns \<noteq> [] \<and> hd ns \<in> item_name ` set ts"
  by auto

lemma items_distinct: "tree_ok R t \<Longrightarrow> distinct (map fst (items t))"
proof (induction t)
  case (Item n d ts)
  then show ?case
  proof (induction ts)
    case (Cons t ts)
    have one: "map fst (map (apfst (Cons (item_name t))) (([], item_data t) # items t)) =
        map (Cons (item_name t)) ([] # map fst (items t))" by simp
    have t: "distinct (map fst (items t))" "[] \<notin> fst ` set (items t)"
      using Cons.prems by (auto, cases t, auto)
    moreover have "distinct (map (Cons x) K)" if "distinct K" for x :: string and K
      using that by (simp add: distinct_map)
    ultimately have "distinct (map (Cons (item_name t)) ([] # map fst (items t)))"
      by (simp only: distinct.simps set_map simp_thms)
    moreover have "distinct (map fst (items (Item n d ts)))" using Cons by simp
    moreover have "item_name t \<notin> item_name ` set ts" using Cons.prems by simp
    then have "set (map (Cons (item_name t)) ([] # map fst (items t))) \<inter> set (map fst (items (Item n d ts))) = {}"
      using items_first [of _ n d ts] by fastforce
    ultimately show ?case unfolding items_Cons map_append one distinct_append by blast
  qed simp
qed

text \<open>The leaves below an item are the leaves of the tree whose names go through it.\<close>

lemma leaves_below:
  "tree_ok R t \<Longrightarrow> item_at t p = Some u \<Longrightarrow>
   filter_mset (\<lambda>x. prefix (names_at t p) (fst x)) (mset (leaves t)) =
   image_mset (apfst (append (names_at t p))) (mset (leaves u))"
proof (induction t p rule: item_at.induct)
  case (1 t)
  have id: "apfst (\<lambda>a :: string list. a) = (\<lambda>x :: string list \<times> 'a. x)" by (auto simp: fun_eq_iff)
  show ?case using 1 by (simp add: id)
next
  case (2 t i p)
  obtain n d ts where t: "t = Item n d ts" by (cases t)
  have i: "i < length ts" "item_at (ts ! i) p = Some u" using 2(3) t by (auto split: if_splits)
  let ?xs = "take i ts" and ?v = "ts ! i" and ?ys = "drop (Suc i) ts"
  let ?below = "\<lambda>v. image_mset (apfst (Cons (item_name v))) (mset (leaves v))"
  let ?go = "\<lambda>x. prefix (item_name ?v # names_at ?v p) (fst x)"
  have ts: "ts = ?xs @ ?v # ?ys" using i(1) by (simp add: id_take_nth_drop)
  have other: "filter_mset ?go (\<Sum>v \<leftarrow> vs. ?below v) = {#}" if "item_name ?v \<notin> item_name ` set vs" for vs
    using that by (induction vs) (auto simp: filter_mset_image_mset)
  have app: "append (a # as) = (\<lambda>x. a # as @ x)" for a :: string and as by (simp add: fun_eq_iff)
  have "distinct (map item_name (?xs @ ?v # ?ys))" using 2(2) t ts by simp
  then have apart: "item_name ?v \<notin> item_name ` set ?xs" "item_name ?v \<notin> item_name ` set ?ys"
    unfolding map_append list.map distinct_append distinct.simps set_map by auto
  have "mset (leaves t) = (\<Sum>v \<leftarrow> ts. ?below v)"
    using i(1) unfolding t by (auto simp: mset_concat comp_def)
  also have "\<dots> = (\<Sum>v \<leftarrow> ?xs. ?below v) + (?below ?v + (\<Sum>v \<leftarrow> ?ys. ?below v))"
    by (subst ts) simp
  finally have "filter_mset ?go (mset (leaves t)) = filter_mset ?go (?below ?v)"
    using other [OF apart(1)] other [OF apart(2)] by simp
  also have "\<dots> = image_mset (apfst (Cons (item_name ?v)))
      (filter_mset (\<lambda>x. prefix (names_at ?v p) (fst x)) (mset (leaves ?v)))"
    by (simp add: filter_mset_image_mset)
  also have "\<dots> = image_mset (apfst (append (item_name ?v # names_at ?v p))) (mset (leaves u))"
    using 2(1) i 2(2) t tree_ok_child [of R n d ts i]
    by (simp add: image_mset.compositionality comp_def apfst_compose [unfolded comp_def] app)
  finally show ?case unfolding names_at.simps by (simp only: t item.sel)
qed

end
