(* ===== verification/File_Tree.thy ===== *)
theory File_Tree
  imports Item_Tree
begin

text \<open>
  The dialog that opens a torrent: the tree of its files (\<open>TreeItem.cpp\<close>,
  \<open>FileTreeModel.cpp\<close>), where the user unchecks what is not wanted, and the file
  priorities that \<open>OpenTorrentDialog.cpp\<close> hands to \<open>TorrentManager.cpp\<close> for a
  torrent file and for a magnet link. The separator of the platform is an argument.
\<close>

section \<open>Items\<close>

datatype CheckState = Unchecked | PartiallyChecked | Checked

record tree_data =
  td_size :: string
  td_checked :: CheckState

type_synonym FileTreeItem = "tree_data item"

text \<open>The constructor: every item starts checked, only the last part of a path shows a size.\<close>

definition new_item_data :: "string \<Rightarrow> tree_data \<Rightarrow> string \<Rightarrow> bool \<Rightarrow> tree_data" where
  "new_item_data sz d p is_last = \<lparr>td_size = (if is_last then sz else ''''), td_checked = Checked\<rparr>"

fun setChecked :: "CheckState \<Rightarrow> FileTreeItem \<Rightarrow> FileTreeItem" where
  "setChecked c (Item n d ts) =
     Item n (d\<lparr>td_checked := c\<rparr>) (if c \<noteq> PartiallyChecked then map (setChecked c) ts else ts)"

text \<open>
  The path of an item, from the names of its parents, the nearest first and the root last: the loop
  stops at the parent that has no parent.
\<close>

fun getItemPath :: "char \<Rightarrow> string \<Rightarrow> string list \<Rightarrow> string" where
  "getItemPath sep res (n # m # ms) = getItemPath sep (n @ sep # res) (m # ms)"
| "getItemPath sep res ms = res"

section \<open>The model\<close>

definition new_model :: "string \<Rightarrow> string \<Rightarrow> FileTreeItem" where
  "new_model title sz_title = Item title \<lparr>td_size = sz_title, td_checked = Checked\<rparr> []"

definition addPath :: "char \<Rightarrow> string \<Rightarrow> string \<Rightarrow> FileTreeItem \<Rightarrow> FileTreeItem" where
  "addPath sep path sz root = add_parts (new_item_data sz) (path_parts sep path) root"

text \<open>The leaves, each with its parents.\<close>

fun unic_ends :: "string list \<Rightarrow> FileTreeItem \<Rightarrow> (string list \<times> string) list" where
  "unic_ends ups (Item n d ts) =
     (if ts = [] then [(ups, n)] else concat (map (unic_ends (n # ups)) ts))"

definition getUnicPathes :: "char \<Rightarrow> FileTreeItem \<Rightarrow> string list" where
  "getUnicPathes sep root = map (\<lambda>(ups, n). getItemPath sep n ups) (unic_ends [] root)"

definition checked_priority :: "tree_data \<Rightarrow> int" where
  "checked_priority d = (if td_checked d = Checked then 1 else 0)"

fun priorities_loop ::
  "char \<Rightarrow> string list \<Rightarrow> FileTreeItem \<Rightarrow> (string, int) qmap \<Rightarrow> (string, int) qmap" where
  "priorities_loop sep ups (Item n d ts) m =
     fold (\<lambda>t m. priorities_loop sep (n # ups) t
        (qm_insert (getItemPath sep (item_name t) (n # ups)) (checked_priority (item_data t)) m)) ts m"

definition getFilePiorites :: "char \<Rightarrow> FileTreeItem \<Rightarrow> (string, int) qmap" where
  "getFilePiorites sep root = priorities_loop sep [] root []"

text \<open>
  What a click does: the state of the item, then that of its parents. A folder whose children
  agree takes their state; with all of them checked its own parent is checked too; otherwise every
  folder above is partially checked.
\<close>

fun mark_partial :: "nat list \<Rightarrow> FileTreeItem \<Rightarrow> FileTreeItem" where
  "mark_partial [] root = root"
| "mark_partial (i # p) root =
     mark_partial (butlast (i # p)) (update_at (i # p) (setChecked PartiallyChecked) root)"

definition child_states :: "nat list \<Rightarrow> FileTreeItem \<Rightarrow> CheckState list" where
  "child_states p root =
     (case item_at root p of None \<Rightarrow> [] | Some t \<Rightarrow> map (\<lambda>c. td_checked (item_data c)) (child_items t))"

definition check_item :: "nat list \<Rightarrow> CheckState \<Rightarrow> FileTreeItem \<Rightarrow> FileTreeItem" where
  "check_item p state root =
     (let root = update_at p (setChecked state) root;
          parent = butlast p;
          states = child_states parent root
      in if list_all (\<lambda>s. s = Unchecked) states then update_at parent (setChecked Unchecked) root
         else if list_all (\<lambda>s. s = Checked) states then
           (let root = update_at parent (setChecked Checked) root
            in if parent \<noteq> [] then update_at (butlast parent) (setChecked Checked) root else root)
         else mark_partial parent root)"

text \<open>The index is the pointer; the index of nothing is the root. The role decides the rest.\<close>

definition setData :: "nat list \<Rightarrow> CheckState \<Rightarrow> bool \<Rightarrow> FileTreeItem \<Rightarrow> bool \<times> FileTreeItem" where
  "setData p state check_role root =
     (if p = [] then (False, root)
      else if check_role then (True, check_item p state root)
      else (False, root))"

section \<open>The dialog and the manager\<close>

text \<open>A line of the dialog is a path with its size behind a bar.\<close>

definition dialog_line :: "(string \<times> string) \<Rightarrow> string" where
  "dialog_line f = fst f @ ''|'' @ snd f"

definition add_line :: "char \<Rightarrow> string \<Rightarrow> FileTreeItem \<Rightarrow> FileTreeItem" where
  "add_line sep line root =
     (let parts = split_on (CHR ''|'') line in addPath sep (parts ! 0) (parts ! 1) root)"

definition dialog_tree :: "char \<Rightarrow> FileTreeItem \<Rightarrow> (string \<times> string) list \<Rightarrow> FileTreeItem" where
  "dialog_tree sep root files = fold (add_line sep) (sort (map dialog_line files)) root"

text \<open>
  The priorities of a torrent file: one for each of its paths. A priority missing from the map is
  normal. Without a map the vector is not set.
\<close>

definition torrent_priorities ::
  "char \<Rightarrow> (string, int) qmap \<Rightarrow> string list \<Rightarrow> int list option" where
  "torrent_priorities sep prios paths =
     (if prios = [] then None
      else Some (map (\<lambda>path. let p = toNativeSeparators sep path
                             in if qm_contains prios p then qm_value 0 prios p else 1) paths))"

text \<open>
  The priorities of a magnet link: the brackets on a map that is not constant insert a zero for a
  key they do not find.
\<close>

fun magnet_loop :: "char \<Rightarrow> string list \<Rightarrow> (string, int) qmap \<Rightarrow> int list" where
  "magnet_loop sep [] prios = []"
| "magnet_loop sep (path # paths) prios =
     (if qm_contains prios (toNativeSeparators sep path) then
        (let prios = (if qm_contains prios path then prios else qm_insert path 0 prios)
         in qm_value 0 prios path # magnet_loop sep paths prios)
      else 7 # magnet_loop sep paths prios)"

definition magnet_priorities ::
  "char \<Rightarrow> (string, int) qmap \<Rightarrow> string list \<Rightarrow> int list option" where
  "magnet_priorities sep prios paths =
     (if prios = [] then None else Some (magnet_loop sep paths prios))"

section \<open>Paths\<close>

lemma join_last: "join_with [c] (xs @ [x, y]) = join_with [c] (xs @ [x @ c # y])"
  by (induction xs rule: induct_list012) auto

lemma getPath_join: "getItemPath sep res (rev ns @ [r]) = join_with [sep] (ns @ [res])"
proof (induction ns arbitrary: res rule: rev_induct)
  case (snoc n ns)
  then show ?case by (cases "rev ns @ [r]") (auto simp: join_last)
qed simp

section \<open>Priorities\<close>

abbreviation sep_free :: "char \<Rightarrow> 'a item \<Rightarrow> bool" where
  "sep_free sep \<equiv> tree_ok (\<lambda>n d b. sep \<notin> set n)"

definition priority_entries :: "char \<Rightarrow> string list \<Rightarrow> FileTreeItem \<Rightarrow> (string \<times> int) list" where
  "priority_entries sep ns t = map (\<lambda>(ms, d). (join_with [sep] (ns @ ms), checked_priority d)) (items t)"

lemma priority_entries_child:
  "priority_entries sep ns (Item n d (t # ts)) =
   (join_with [sep] (ns @ [item_name t]), checked_priority (item_data t)) #
   priority_entries sep (ns @ [item_name t]) t @ priority_entries sep ns (Item n d ts)"
  by (simp add: priority_entries_def comp_def case_prod_beta)

lemma priorities_loop_entries:
  "item_name t # ups = rev ns @ [r] \<Longrightarrow>
   priorities_loop sep ups t m = fold (\<lambda>(k, v). qm_insert k v) (priority_entries sep ns t) m"
proof (induction t arbitrary: ups ns m)
  case (Item n d ts)
  have up: "n # ups = rev ns @ [r]" using Item.prems by simp
  have one: "priorities_loop sep (n # ups) t m =
      fold (\<lambda>(k, v). qm_insert k v) (priority_entries sep (ns @ [item_name t]) t) m"
    if "t \<in> set ts" for t m
    using Item.IH [OF that, of "n # ups" "ns @ [item_name t]"] up by simp
  then have "priorities_loop sep ups (Item n d us) m =
      fold (\<lambda>(k, v). qm_insert k v) (priority_entries sep ns (Item n d us)) m"
    if "set us \<subseteq> set ts" for us
    using that
  proof (induction us arbitrary: m)
    case (Cons u us)
    then show ?case by (simp add: priority_entries_child getPath_join up)
  qed (simp add: priority_entries_def)
  then show ?case by simp
qed

lemma items_names:
  "tree_ok (\<lambda>n d b. Q n) t \<Longrightarrow> ns \<in> fst ` set (items t) \<Longrightarrow> ns \<noteq> [] \<and> list_all Q ns"
proof (induction t arbitrary: ns)
  case (Item n d ts)
  from Item.prems(2) obtain y where y: "y \<in> set (items (Item n d ts))" "ns = fst y" by (rule imageE)
  from y(1) obtain t where t: "t \<in> set ts"
    "y \<in> set (map (apfst (Cons (item_name t))) (([], item_data t) # items t))"
    unfolding items.simps set_concat UN_iff by (elim bexE) (auto simp only: set_map)
  then obtain x where x: "x \<in> set (([], item_data t) # items t)" "ns = item_name t # fst x"
    unfolding set_map y(2) by (elim imageE) simp
  have "Q (item_name t)" "tree_ok (\<lambda>n d b. Q n) t" using Item.prems(1) t(1) by (auto simp: list_all_iff)
  then have "list_all Q (fst x)"
    using x(1) Item.IH [OF t(1), of "fst x"] by (cases "x = ([], item_data t)") simp_all
  then show ?case using x(2) \<open>Q (item_name t)\<close> by simp
qed

lemma priorities_lookup: "qm_get (getFilePiorites sep root) = map_of (rev (priority_entries sep [] root))"
proof -
  have "getFilePiorites sep root = fold (\<lambda>(k, v). qm_insert k v) (priority_entries sep [] root) []"
    unfolding getFilePiorites_def by (rule priorities_loop_entries [of _ _ _ "item_name root"]) simp
  then show ?thesis by (simp add: qm.look_fold_ins)
qed

text \<open>The map has, for every item below the root, its priority under its path.\<close>

lemma priority_of_item:
  assumes ok: "sep_free sep root" and at: "item_at root p = Some u" "p \<noteq> []"
  shows "qm_get (getFilePiorites sep root) (join_with [sep] (names_at root p)) =
    Some (checked_priority (item_data u))"
proof -
  have names: "ns \<noteq> [] \<and> (\<forall>x \<in> set ns. sep \<notin> set x)" if "ns \<in> fst ` set (items root)" for ns
    using items_names [OF ok that] by (simp add: list_all_iff)
  have keys: "map fst (priority_entries sep [] root) = map (join_with [sep]) (map fst (items root))"
    by (simp add: priority_entries_def comp_def case_prod_beta)
  have inj: "inj_on (join_with [sep]) (set (map fst (items root)))"
    unfolding set_map by (rule inj_onI) (use names in \<open>metis join_inject\<close>)
  have distinct: "distinct (map fst (priority_entries sep [] root))"
    unfolding keys by (rule distinct_map [THEN iffD2, OF conjI [OF items_distinct [OF ok] inj]])
  have "(join_with [sep] (names_at root p), checked_priority (item_data u)) \<in>
      set (priority_entries sep [] root)"
    using items_pointer [OF at] unfolding priority_entries_def by force
  then have "map_of (rev (priority_entries sep [] root)) (join_with [sep] (names_at root p)) =
      Some (checked_priority (item_data u))"
    using distinct by (intro map_of_is_SomeI) (simp_all only: rev_map [symmetric] distinct_rev set_rev)
  then show ?thesis by (simp add: priorities_lookup)
qed

section \<open>Clicks\<close>

abbreviation state_at :: "FileTreeItem \<Rightarrow> nat list \<Rightarrow> CheckState option" where
  "state_at t p \<equiv> map_option (\<lambda>u. td_checked (item_data u)) (item_at t p)"

lemma shape_setChecked: "shape (setChecked c t) = shape t"
  by (induction t) (simp add: shape_Item)

lemma shape_mark_partial: "shape (mark_partial p t) = shape t"
  by (induction p t rule: mark_partial.induct) (simp_all add: shape_update_at shape_setChecked)

lemma shape_check_item: "shape (check_item p c t) = shape t"
  by (simp add: check_item_def Let_def shape_update_at shape_setChecked shape_mark_partial)

lemma state_setChecked: "c \<noteq> PartiallyChecked \<Longrightarrow> item_at t p \<noteq> None \<Longrightarrow> state_at (setChecked c t) p = Some c"
proof (induction t p rule: item_at.induct)
  case (1 t)
  then show ?case by (cases t) simp
next
  case (2 t i p)
  then show ?case by (cases t) (auto split: if_splits)
qed

lemma state_apart:
  assumes "\<not> prefix p q"
  shows "state_at (update_at p f t) q = state_at t q"
  using arg_cong [OF item_at_update_apart [OF assms, of f t], of "map_option td_checked"]
  by (simp add: option.map_comp comp_def)

lemma state_below:
  assumes "c \<noteq> PartiallyChecked" "item_at t (p @ r) \<noteq> None"
  shows "state_at (update_at p (setChecked c) t) (p @ r) = Some c"
proof -
  obtain u where u: "item_at t p = Some u" "item_at u r \<noteq> None"
    using assms(2) by (auto simp: item_at_append bind_eq_Some_conv)
  show ?thesis using state_setChecked [OF assms(1) u(2)] by (simp only: item_at_update_below [OF u(1)])
qed

lemma state_partial:
  assumes "q \<noteq> p"
  shows "state_at (update_at p (setChecked PartiallyChecked) t) q = state_at t q"
proof (cases "prefix p q")
  case True
  then obtain i r where q: "q = p @ i # r" using assms by (auto elim!: prefixE) (metis neq_Nil_conv)
  show ?thesis
  proof (cases "item_at t p")
    case (Some u)
    have "item_at (setChecked PartiallyChecked u) (i # r) = item_at u (i # r)" by (cases u) simp
    then show ?thesis unfolding q item_at_update_below [OF Some] by (simp add: item_at_append Some)
  qed (simp add: update_at_invalid)
qed (rule state_apart)

lemma state_mark_partial: "\<not> prefix q p \<Longrightarrow> state_at (mark_partial p t) q = state_at t q"
proof (induction p t rule: mark_partial.induct)
  case (2 i p t)
  have "\<not> prefix q (butlast (i # p))"
    using 2(2) prefixeq_butlast prefix_order.trans by blast
  moreover have "q \<noteq> i # p" using 2(2) by auto
  ultimately show ?case using 2(1) state_partial by simp
qed simp

lemma child_states_at:
  assumes "item_at t (p @ [i]) \<noteq> None"
  shows "child_states p t \<noteq> [] \<and> i < length (child_states p t) \<and>
    (\<forall>j < length (child_states p t). state_at t (p @ [j]) = Some (child_states p t ! j))"
proof -
  obtain u where "item_at t p = Some u" "i < length (child_items u)"
    using assms by (auto simp: item_at_append bind_eq_Some_conv split: if_splits)
  then show ?thesis by (auto simp: child_states_def item_at_append)
qed

section \<open>The tree of a torrent\<close>

lemma independent_iff:
  "independent pss \<longleftrightarrow>
   distinct pss \<and> (\<forall>p \<in> set pss. \<forall>q \<in> set pss. p \<noteq> q \<longrightarrow> \<not> prefix p q)"
proof (induction pss)
  case (Cons p pss)
  show ?case unfolding independent_Cons Cons.IH by auto
qed (simp add: independent_def)

lemma independent_mset: "mset pss = mset qss \<Longrightarrow> independent pss \<Longrightarrow> independent qss"
  unfolding independent_iff using mset_eq_imp_distinct_iff mset_eq_setD by metis

abbreviation line_entry :: "string \<Rightarrow> string \<times> string" where
  "line_entry line \<equiv> (split_on (CHR ''|'') line ! 0, split_on (CHR ''|'') line ! 1)"

lemma dialog_tree_entries:
  "dialog_tree sep root files =
   add_entries (\<lambda>f. new_item_data (snd f)) (\<lambda>f. path_parts sep (fst f))
     (map line_entry (sort (map dialog_line files))) root"
  by (simp add: dialog_tree_def add_entries_def fold_map comp_def add_line_def [abs_def] Let_def
      addPath_def [abs_def])

lemma dialog_line_path: "CHR ''|'' \<notin> set (fst f) \<Longrightarrow> split_on (CHR ''|'') (dialog_line f) ! 0 = fst f"
  by (simp add: dialog_line_def split_on_append)

text \<open>The files of a torrent as the dialog takes them.\<close>

definition proper_files :: "char \<Rightarrow> (string \<times> string) list \<Rightarrow> bool" where
  "proper_files sep files \<longleftrightarrow>
     independent (map (\<lambda>f. path_parts sep (fst f)) files) \<and>
     list_all (\<lambda>f. CHR ''|'' \<notin> set (fst f)) files"

lemma dialog_tree_facts:
  assumes files: "proper_files sep files" and root: "child_items root = []"
  defines "tree \<equiv> dialog_tree sep root files"
  shows "tree_ok (\<lambda>n d b. (sep \<notin> set n \<and> CHR ''/'' \<notin> set n) \<and> td_checked d = Checked) tree"
    and "files \<noteq> [] \<Longrightarrow> leaf_paths tree = (\<lambda>f. path_parts sep (fst f)) ` set files"
proof -
  let ?mk = "\<lambda>f. new_item_data (snd f)" and ?parts = "\<lambda>f. path_parts sep (fst f)"
  let ?es = "map line_entry (sort (map dialog_line files))"
    and ?x = "\<lambda>f. \<lparr>td_size = snd f, td_checked = Checked\<rparr>"
  have mk: "?mk e d p True = \<lparr>td_size = snd e, td_checked = Checked\<rparr>" for e d p
    by (simp add: new_item_data_def)
  have line: "split_on (CHR ''|'') (dialog_line f) ! 0 = fst f" if "f \<in> set files" for f
    using files that dialog_line_path by (simp add: proper_files_def list_all_iff)
  have paths: "image_mset ?parts (mset ?es) = image_mset ?parts (mset files)"
  proof -
    have "image_mset ?parts (mset ?es) = image_mset (\<lambda>f. ?parts (line_entry (dialog_line f))) (mset files)"
      by (simp add: image_mset.compositionality comp_def)
    also have "\<dots> = image_mset ?parts (mset files)"
      by (rule image_mset_cong) (simp add: line)
    finally show ?thesis .
  qed
  have "mset (map ?parts files) = mset (map ?parts ?es)" unfolding mset_map [of ?parts] paths ..
  then have "independent (map ?parts ?es)"
    using files by (intro independent_mset [OF _ conjunct1]) (simp_all add: proper_files_def)
  then have fit: "all_fit root (map ?parts ?es)"
    using root by (auto simp: all_fit_def fits_def path_parts_nonempty [symmetric])
  show "tree_ok (\<lambda>n d b. (sep \<notin> set n \<and> CHR ''/'' \<notin> set n) \<and> td_checked d = Checked) tree"
    unfolding tree_def dialog_tree_entries
  proof (rule tree_ok_add_entries [where mk = ?mk and parts = ?parts and x = ?x, OF mk fit])
    show "tree_ok (\<lambda>n d b. (sep \<notin> set n \<and> CHR ''/'' \<notin> set n) \<and> td_checked d = Checked) root" using root by (cases root) simp
    show "(sep \<notin> set p \<and> CHR ''/'' \<notin> set p) \<and> td_checked (?mk e d p b) = Checked"
      if "p \<in> set (?parts e)" for e d p b
      using path_parts_free [OF that] path_parts_slash [OF that] by (simp add: new_item_data_def)
  qed
  show "leaf_paths tree = ?parts ` set files" if "files \<noteq> []"
  proof -
    have "?es \<noteq> []" using that by (simp flip: length_greater_0_conv)
    then have leaf: "mset (leaves tree) =
        image_mset (\<lambda>e. (?parts e, \<lparr>td_size = snd e, td_checked = Checked\<rparr>)) (mset ?es)"
      unfolding tree_def dialog_tree_entries using leaves_add_entries [where mk = ?mk and parts = ?parts and x = ?x, OF mk fit] root
      by (simp only: simp_thms if_True add_0)
    have "image_mset fst (mset (leaves tree)) = image_mset ?parts (mset files)"
      unfolding leaf paths [symmetric] by (simp only: image_mset.compositionality comp_def fst_conv)
    from arg_cong [OF this, of set_mset] show ?thesis by simp
  qed
qed

section \<open>Unchecking a file\<close>

text \<open>Unchecking a leaf of a fully checked tree unchecks no other leaf.\<close>

lemma uncheck_leaf:
  assumes all: "tree_ok (\<lambda>n d b. td_checked d = Checked) t"
    and p: "item_at t p = Some u" "child_items u = []" "p \<noteq> []"
    and q: "item_at t q = Some v" "child_items v = []" "q \<noteq> []"
  shows "state_at (check_item p Unchecked t) q = Some (if q = p then Unchecked else Checked)"
proof -
  let ?t = "update_at p (setChecked Unchecked) t"
  obtain pp i where pi: "p = pp @ [i]" using p(3) by (metis append_butlast_last_id)
  have at: "item_at ?t s \<noteq> None \<longleftrightarrow> item_at t s \<noteq> None" for s
    by (intro same_shape(1) shape_update_at shape_setChecked)
  have leaf_end: "r = []" if "item_at t (s @ r) \<noteq> None" "item_at t s = Some w" "child_items w = []" for s r w
    using that by (cases r) (auto simp: item_at_append)
  have apart: "\<not> prefix p q" if "q \<noteq> p"
    using leaf_end [OF _ p(1,2)] q(1) that by (auto simp: prefix_def)
  have below: "\<not> prefix q pp"
  proof
    assume "prefix q pp"
    then obtain r where "p = q @ r @ [i]" by (auto simp: prefix_def pi)
    with leaf_end [OF _ q(1,2), of "r @ [i]"] p(1) show False by simp
  qed
  have state: "state_at ?t q = Some (if q = p then Unchecked else Checked)"
  proof (cases "q = p")
    case True
    then show ?thesis using state_below [of Unchecked t p "[]"] p(1) by simp
  next
    case False
    then show ?thesis
      unfolding state_apart [OF apart [OF False]] using q(1) tree_ok_data [OF all q(1,3)] by simp
  qed
  note states = child_states_at [of ?t pp i, unfolded at, folded pi]
  have item: "child_states pp ?t ! i = Unchecked"
    using states p(1) state_below [of Unchecked t p "[]"] by (auto simp: pi)
  have parts: "check_item p Unchecked t =
      (if list_all (\<lambda>s. s = Unchecked) (child_states pp ?t) then update_at pp (setChecked Unchecked) ?t
       else mark_partial pp ?t)"
    using item states p(1) by (auto simp: check_item_def Let_def pi list_all_length)
  show ?thesis
  proof (cases "prefix pp q \<and> list_all (\<lambda>s. s = Unchecked) (child_states pp ?t)")
    case True
    then obtain r where r: "q = pp @ r" by (auto simp: prefix_def)
    have "r \<noteq> []" using below r by auto
    then obtain j r' where j: "r = j # r'" by (cases r) auto
    have pj: "item_at t (pp @ [j]) \<noteq> None"
      using q(1) by (cases "item_at t pp") (auto simp: r j item_at_append split: if_splits)
    note js = child_states_at [of ?t pp j, unfolded at, OF pj]
    have "child_states pp ?t ! j = Unchecked" using True js by (simp add: list_all_length)
    then have "state_at ?t (pp @ [j]) = Some Unchecked" using js by auto
    moreover have "state_at ?t (pp @ [j]) = Some Checked" if "j \<noteq> i"
      using state_apart [of p "pp @ [j]"] that pj tree_ok_data [OF all, of "pp @ [j]"] by (auto simp: pi)
    ultimately have "j = i" by (cases "j = i") simp_all
    then have "q = p" using apart by (auto simp: r j pi)
    moreover have "state_at (update_at pp (setChecked Unchecked) ?t) q = Some Unchecked"
      unfolding r using state_below [of Unchecked ?t pp r] at [of q] q(1) r by simp
    ultimately show ?thesis using parts True by simp
  next
    case False
    then have "state_at (check_item p Unchecked t) q = state_at ?t q"
      unfolding parts using state_apart [of pp q] state_mark_partial [OF below] by auto
    then show ?thesis using state by simp
  qed
qed

lemma dialog_tree_file:
  assumes "proper_files sep files" "child_items root = []" "f \<in> set files"
  obtains q v where "item_at (dialog_tree sep root files) q = Some v" "child_items v = []" "q \<noteq> []"
    "names_at (dialog_tree sep root files) q = path_parts sep (fst f)"
proof -
  have "files \<noteq> []" using assms(3) by auto
  with assms(3) have "path_parts sep (fst f) \<in> leaf_paths (dialog_tree sep root files)"
    using dialog_tree_facts(2) [OF assms(1,2)] by simp
  then obtain x where "x \<in> set (leaves (dialog_tree sep root files))" "path_parts sep (fst f) = fst x"
    by (rule imageE)
  with leaves_pointer [of "fst x" "snd x" "dialog_tree sep root files"] obtain q v where q: "item_at (dialog_tree sep root files) q = Some v" "child_items v = []"
    "names_at (dialog_tree sep root files) q = path_parts sep (fst f)"
    by auto
  moreover have "q \<noteq> []" using q(3) path_parts_nonempty by (metis names_at.simps(1))
  ultimately show ?thesis using that by blast
qed

lemma priority_of_file:
  assumes "proper_files sep files" "child_items root = []"
    "shape t = shape (dialog_tree sep root files)"
    "names_at (dialog_tree sep root files) q = path_parts sep (fst f)"
    "item_at (dialog_tree sep root files) q \<noteq> None" "q \<noteq> []" "state_at t q = Some c"
  shows "qm_get (getFilePiorites sep t) (toNativeSeparators sep (fst f)) =
    Some (if c = Checked then 1 else 0)"
proof -
  have "sep_free sep (dialog_tree sep root files)"
    by (rule tree_ok_mono [OF _ dialog_tree_facts(1) [OF assms(1,2)]]) simp
  then have ok: "sep_free sep t" by (rule same_shape(3) [OF assms(3) [symmetric]])
  obtain u where u: "item_at t q = Some u" "td_checked (item_data u) = c" using assms(7) by auto
  have "names_at t q = path_parts sep (fst f)"
    using same_shape(2) [OF assms(3), of q] u(1) assms(4) by simp
  then show ?thesis
    using priority_of_item [OF ok u(1) assms(6)] u(2) by (simp add: join_parts checked_priority_def)
qed

text \<open>
  C21. What the user unchecks is what is skipped. For a torrent whose paths do not begin one another
  and hold no bar, unchecking one file in the fresh dialog makes the priorities given to the session
  zero at that file and one at every other file, whatever the separator of the platform.
\<close>

theorem unchecked_file_skipped:
  assumes files: "proper_files sep files" and root: "child_items root = []"
    and k: "k < length files"
    and p: "item_at (dialog_tree sep root files) p \<noteq> None"
      "names_at (dialog_tree sep root files) p = path_parts sep (fst (files ! k))"
  shows "torrent_priorities sep
      (getFilePiorites sep (snd (setData p Unchecked True (dialog_tree sep root files)))) (map fst files) =
    Some ((replicate (length files) 1)[k := 0])"
proof -
  let ?tree = "dialog_tree sep root files"
  let ?prios = "getFilePiorites sep (check_item p Unchecked ?tree)"
  note facts = dialog_tree_facts [OF files root]
  have sf: "tree_ok (\<lambda>n d b. sep \<notin> set n) ?tree" and all: "tree_ok (\<lambda>n d b. td_checked d = Checked) ?tree"
    by (rule tree_ok_mono [OF _ facts(1)], simp)+
  have p_ne: "p \<noteq> []" using p(2) path_parts_nonempty by (metis names_at.simps(1))
  have inj: "q = p" if "item_at ?tree q \<noteq> None" "names_at ?tree q = path_parts sep (fst (files ! k))" for q
    by (rule names_at_inject [OF sf that(1) p(1)]) (simp only: that(2) p(2))
  have parts: "path_parts sep (fst (files ! j)) = path_parts sep (fst (files ! k)) \<longleftrightarrow> j = k"
    if "j < length files" for j
    using files that k nth_eq_iff_index_eq [of "map (\<lambda>f. path_parts sep (fst f)) files" j k]
    by (simp add: proper_files_def independent_iff)
  obtain pk u where "item_at ?tree pk = Some u" "child_items u = []"
    "names_at ?tree pk = path_parts sep (fst (files ! k))"
    using dialog_tree_file [OF files root nth_mem [OF k]] by metis
  then have u: "item_at ?tree p = Some u" "child_items u = []" using inj [of pk] by auto
  have prio: "qm_get ?prios (toNativeSeparators sep (fst (files ! j))) = Some (if j = k then 0 else 1)"
    if j: "j < length files" for j
  proof -
    obtain q v where q: "item_at ?tree q = Some v" "child_items v = []" "q \<noteq> []"
      "names_at ?tree q = path_parts sep (fst (files ! j))"
      using dialog_tree_file [OF files root nth_mem [OF j]] by metis
    have "q = p \<longleftrightarrow> j = k" using inj [of q] parts [OF j] q(1,4) p(2) by auto
    then have "state_at (check_item p Unchecked ?tree) q = Some (if j = k then Unchecked else Checked)"
      using uncheck_leaf [OF all u p_ne q(1-3)] by simp
    from priority_of_file [OF files root shape_check_item q(4) _ q(3) this] q(1) show ?thesis by simp
  qed
  have "?prios \<noteq> []" using prio [OF k] by auto
  moreover have "(if qm_contains ?prios (toNativeSeparators sep (fst (files ! j)))
      then qm_value 0 ?prios (toNativeSeparators sep (fst (files ! j))) else 1) =
      (replicate (length files) 1)[k := 0] ! j" if "j < length files" for j
    using prio [OF that] that by (simp add: qm_contains_def qm_value_def nth_list_update)
  ultimately show ?thesis
    using p_ne by (auto simp: torrent_priorities_def setData_def Let_def intro!: nth_equalityI)
qed

definition sample_files :: "(string \<times> string) list" where
  "sample_files = [(''t/a/1'', ''5 B''), (''t/a/2'', ''7 B''), (''t/b'', ''9 B'')]"

definition sample_root :: FileTreeItem where
  "sample_root = new_model ''name'' ''size''"

lemma sample_proper: "proper_files (CHR 92) sample_files" "child_items sample_root = []"
  by code_simp+

theorem unchecked_file_skipped_witness:
  "torrent_priorities (CHR 92) (getFilePiorites (CHR 92)
     (snd (setData [0, 0, 1] Unchecked True (dialog_tree (CHR 92) sample_root sample_files))))
     (map fst sample_files) = Some [1, 0, 1]"
proof -
  have at: "item_at (dialog_tree (CHR 92) sample_root sample_files) [0, 0, 1] \<noteq> None"
    "names_at (dialog_tree (CHR 92) sample_root sample_files) [0, 0, 1] =
      path_parts (CHR 92) (fst (sample_files ! 1))" by code_simp+
  have k: "1 < length sample_files" by code_simp
  show ?thesis using unchecked_file_skipped [OF sample_proper k at] by (simp add: sample_files_def)
qed

section \<open>Two faults\<close>

lemma no_slash_key:
  assumes "tree_ok (\<lambda>n d b. CHR ''/'' \<notin> set n) t" "sep \<noteq> CHR ''/''" "CHR ''/'' \<in> set path"
  shows "qm_get (getFilePiorites sep t) path = None"
proof -
  have "CHR ''/'' \<notin> set (join_with [sep] ns)" if "ns \<in> fst ` set (items t)" for ns
  proof -
    have "list_all (\<lambda>n. CHR ''/'' \<notin> set n) ns"
      using items_names [OF assms(1) that] by simp
    then show ?thesis using set_join(2) [of sep ns] assms(2) by (auto simp: list_all_iff)
  qed
  then have "path \<notin> fst ` set (priority_entries sep [] t)"
    using assms(3) by (force simp: priority_entries_def)
  then show ?thesis by (simp add: priorities_lookup map_of_eq_None_iff)
qed

lemma magnet_loop_zero:
  assumes "\<And>path. path \<in> set paths \<Longrightarrow> qm_contains prios (toNativeSeparators sep path)"
    "\<And>path. path \<in> set paths \<Longrightarrow> qm_get prios path \<in> {None, Some 0}" "qm_ok prios"
  shows "magnet_loop sep paths prios = replicate (length paths) 0"
  using assms
proof (induction paths arbitrary: prios)
  case (Cons path paths)
  let ?prios = "if qm_contains prios path then prios else qm_insert path 0 prios"
  have get: "qm_get ?prios k = (if k = path then Some 0 else qm_get prios k)" for k
    using Cons.prems(2) [of path] by (auto simp: qm_contains_def qm_get_insert)
  have "magnet_loop sep paths ?prios = replicate (length paths) 0"
    using Cons.prems by (intro Cons.IH) (auto simp: qm_contains_def qm_get_insert qm_ok_insert split: if_splits)
  then show ?case using Cons.prems(1) get [of path] by (simp add: Let_def qm_value_def)
qed simp

text \<open>
  A magnet link downloads nothing where the separator is not the slash. The lookup that gives
  the priority uses the path as libtorrent spells it, the map and the test before it the native
  one: with every file left checked in the dialog, every file that is in a folder gets priority
  zero.
\<close>

theorem magnet_nothing_selected:
  assumes files: "proper_files sep files" "files \<noteq> []" and root: "child_items root = []"
    and sep: "sep \<noteq> CHR ''/''" and folders: "list_all (\<lambda>f. CHR ''/'' \<in> set (fst f)) files"
  shows "magnet_priorities sep (getFilePiorites sep (dialog_tree sep root files)) (map fst files) =
    Some (replicate (length files) 0)"
proof -
  let ?tree = "dialog_tree sep root files" let ?prios = "getFilePiorites sep ?tree"
  note facts = dialog_tree_facts [OF files(1) root]
  have all: "tree_ok (\<lambda>n d b. td_checked d = Checked) ?tree"
    and slash: "tree_ok (\<lambda>n d b. CHR ''/'' \<notin> set n) ?tree"
    by (rule tree_ok_mono [OF _ facts(1)], simp)+
  have native: "qm_get ?prios (toNativeSeparators sep (fst f)) = Some 1" if f: "f \<in> set files" for f
  proof -
    obtain q v where q: "item_at ?tree q = Some v" "q \<noteq> []" "names_at ?tree q = path_parts sep (fst f)"
      using dialog_tree_file [OF files(1) root f] by metis
    have "state_at ?tree q = Some Checked" using q(1) tree_ok_data [OF all q(1,2)] by simp
    from priority_of_file [OF files(1) root refl q(3) _ q(2) this] q(1) show ?thesis by simp
  qed
  have ne: "?prios \<noteq> []" using native [of "hd files"] files(2) by auto
  have plain: "qm_get ?prios (fst f) = None" if "f \<in> set files" for f
    using no_slash_key [OF slash sep] folders that by (simp add: list_all_iff)
  have "qm_ok ?prios"
    unfolding getFilePiorites_def
    by (subst priorities_loop_entries [of ?tree "[]" "[]" "item_name ?tree"]) (simp_all add: qm.ok_fold_ins)
  then have "magnet_loop sep (map fst files) ?prios = replicate (length (map fst files)) 0"
    using native plain by (intro magnet_loop_zero) (auto simp: qm_contains_def)
  then show ?thesis using ne by (simp add: magnet_priorities_def)
qed

theorem magnet_nothing_selected_witness:
  "magnet_priorities (CHR 92) (getFilePiorites (CHR 92) (dialog_tree (CHR 92) sample_root sample_files))
     (map fst sample_files) = Some [0, 0, 0]"
proof -
  have "sample_files \<noteq> []" "list_all (\<lambda>f. CHR ''/'' \<in> set (fst f)) sample_files" by code_simp+
  from magnet_nothing_selected [OF sample_proper(1) this(1) sample_proper(2) _ this(2)]
  show ?thesis by (simp add: sample_files_def numeral_3_eq_3)
qed

lemma child_states_update:
  assumes "item_at t (p @ [j]) \<noteq> None"
  shows "child_states p (update_at (p @ [j]) (setChecked c) t) = (child_states p t)[j := c]"
proof -
  obtain u where u: "item_at t p = Some u" "j < length (child_items u)"
    using assms by (auto simp: item_at_append bind_eq_Some_conv split: if_splits)
  obtain n d ts where t: "u = Item n d ts" by (cases u)
  have "item_at (update_at (p @ [j]) (setChecked c) t) p = Some (update_at [j] (setChecked c) u)"
    using item_at_update_below [OF u(1), of "update_at [j] (setChecked c)" "[]"] by (simp add: update_at_append)
  moreover have "td_checked (item_data (setChecked c v)) = c" for v by (cases v) simp
  ultimately show ?thesis using u by (simp add: child_states_def t map_update)
qed

text \<open>
  Checking the last unchecked file of a folder checks again everything under the folder that
  holds it: \<open>setChecked\<close> goes down, so what the user had unchecked elsewhere in there is
  downloaded after all.
\<close>

theorem completed_folder_checks_parent:
  assumes "item_at t (g @ [i, j]) \<noteq> None"
    and "list_all (\<lambda>s. s = Checked) ((child_states (g @ [i]) t)[j := Checked])"
    and "item_at t (g @ r) \<noteq> None"
  shows "state_at (snd (setData (g @ [i, j]) Checked True t)) (g @ r) = Some Checked"
proof -
  let ?t = "update_at (g @ [i, j]) (setChecked Checked) t"
  have at: "item_at (update_at p (setChecked c) s) q \<noteq> None \<longleftrightarrow> item_at s q \<noteq> None" for p q c s
    by (intro same_shape(1) shape_update_at shape_setChecked)
  have states: "child_states (g @ [i]) ?t = (child_states (g @ [i]) t)[j := Checked]"
    using child_states_update [of t "g @ [i]" j Checked] assms(1) by simp
  have "j < length (child_states (g @ [i]) t)"
    using child_states_at [of t "g @ [i]" j] assms(1) by simp
  then have mixed: "\<not> list_all (\<lambda>s. s = Unchecked) ((child_states (g @ [i]) t)[j := Checked])"
    by (auto simp: list_all_length intro!: exI [of _ j])
  have "check_item (g @ [i, j]) Checked t =
      update_at g (setChecked Checked) (update_at (g @ [i]) (setChecked Checked) ?t)"
    using assms(2) mixed by (simp add: check_item_def butlast_append states)
  moreover have "item_at (update_at (g @ [i]) (setChecked Checked) ?t) (g @ r) \<noteq> None"
    unfolding at by (rule assms(3))
  ultimately show ?thesis
    using state_below [of Checked _ g r] by (simp add: setData_def)
qed

theorem completed_folder_checks_parent_witness:
  "let tree = dialog_tree (CHR 92) sample_root sample_files;
       tree = snd (setData [0, 1] Unchecked True tree);
       tree = snd (setData [0, 0, 1] Unchecked True tree)
   in state_at tree [0, 1] = Some Unchecked \<and>
      state_at (snd (setData [0, 0, 1] Checked True tree)) [0, 1] = Some Checked"
proof -
  let ?tree = "snd (setData [0, 0, 1] Unchecked True (snd (setData [0, 1] Unchecked True
    (dialog_tree (CHR 92) sample_root sample_files))))"
  have "item_at ?tree ([0] @ [0, 1]) \<noteq> None"
    "list_all (\<lambda>s. s = Checked) ((child_states ([0] @ [0]) ?tree)[1 := Checked])"
    "item_at ?tree ([0] @ [1]) \<noteq> None" by code_simp+
  from completed_folder_checks_parent [OF this]
  have "state_at (snd (setData [0, 0, 1] Checked True ?tree)) [0, 1] = Some Checked" by simp
  moreover have "state_at ?tree [0, 1] = Some Unchecked" by code_simp
  ultimately show ?thesis by (simp only: Let_def simp_thms)
qed

end
