(* ===== verification/File_View.thy ===== *)
theory File_View
  imports Item_Tree
begin

text \<open>
  The files of a running torrent: \<open>FileViewTreeItem.cpp\<close> and \<open>FileViewModel.cpp\<close>,
  the tree that shows them with their sizes and sets their priorities, over the part of
  libtorrent's \<open>file_storage.cpp\<close> that finds a file by its offset.
\<close>

section \<open>Data\<close>

record file_entry =
  fe_path :: string
  fe_offset :: int
  fe_size :: int
  fe_pad :: bool

definition fake_entry :: "string \<Rightarrow> file_entry" where
  "fake_entry path = \<lparr>fe_path = path, fe_offset = 0, fe_size = 0, fe_pad = False\<rparr>"

datatype ItemType = NONE | FOLDER | FILE

record view_data =
  vd_type :: ItemType
  vd_entry :: file_entry

type_synonym FileViewTreeItem = "view_data item"

definition new_view_item :: FileViewTreeItem where
  "new_view_item = Item '''' \<lparr>vd_type = NONE, vd_entry = fake_entry ''''\<rparr> []"

text \<open>The first position whose offset is greater, and one back; the offsets are in order.\<close>

definition file_index_at_offset :: "file_entry list \<Rightarrow> int \<Rightarrow> nat" where
  "file_index_at_offset files offset = length (takeWhile (\<lambda>f. \<not> offset < fe_offset f) files) - 1"

section \<open>The tree\<close>

text \<open>The last part of a path is the file; a folder has a made-up entry with its own path.\<close>

definition new_view_data :: "char \<Rightarrow> file_entry \<Rightarrow> view_data \<Rightarrow> string \<Rightarrow> bool \<Rightarrow> view_data" where
  "new_view_data sep fe d part is_last =
     (if is_last then \<lparr>vd_type = FILE, vd_entry = fe\<rparr>
      else \<lparr>vd_type = FOLDER, vd_entry = fake_entry (fe_path (vd_entry d) @ sep # part)\<rparr>)"

definition AddPath :: "char \<Rightarrow> string \<Rightarrow> file_entry \<Rightarrow> FileViewTreeItem \<Rightarrow> FileViewTreeItem" where
  "AddPath sep path fe root = add_parts (new_view_data sep fe) (path_parts sep path) root"

definition BuildTree :: "char \<Rightarrow> file_entry list \<Rightarrow> FileViewTreeItem \<Rightarrow> FileViewTreeItem" where
  "BuildTree sep files root =
     fold (\<lambda>fe root. if \<not> fe_pad fe then AddPath sep (fe_path fe) fe root else root) files root"

fun CalculateFolderSize :: "FileViewTreeItem \<Rightarrow> int" where
  "CalculateFolderSize (Item n d ts) =
     fold (\<lambda>t result. i64 (result +
       (if vd_type (item_data t) = FILE then fe_size (vd_entry (item_data t)) else CalculateFolderSize t))) ts 0"

text \<open>The size and the priority that a row shows.\<close>

definition size_cell :: "FileViewTreeItem \<Rightarrow> int" where
  "size_cell t =
     (if vd_type (item_data t) = FILE then fe_size (vd_entry (item_data t)) else CalculateFolderSize t)"

definition storrage_index :: "file_entry list \<Rightarrow> FileViewTreeItem \<Rightarrow> nat" where
  "storrage_index files t =
     (if vd_type (item_data t) = FILE then file_index_at_offset files (fe_offset (vd_entry (item_data t))) else 0)"

definition priority_cell :: "file_entry list \<Rightarrow> bool \<Rightarrow> int list \<Rightarrow> FileViewTreeItem \<Rightarrow> int" where
  "priority_cell files seeding prios t =
     (if vd_type (item_data t) = FILE \<and> \<not> seeding then prios ! storrage_index files t else - 1)"

fun SetItemPriority :: "file_entry list \<Rightarrow> int \<Rightarrow> FileViewTreeItem \<Rightarrow> int list \<Rightarrow> int list" where
  "SetItemPriority files priority (Item n d ts) prios =
     (if vd_type d = FILE then prios[file_index_at_offset files (fe_offset (vd_entry d)) := priority]
      else fold (SetItemPriority files priority) ts prios)"

section \<open>The source of the view\<close>

text \<open>
  A handle is valid when there is a torrent behind it: its hash and its files. The hash of a handle
  without one is all zero.
\<close>

type_synonym view_handle = "(bytes \<times> file_entry list) option"

record file_view =
  fv_root :: FileViewTreeItem
  fv_source :: view_handle

definition new_file_view :: file_view where
  "new_file_view = \<lparr>fv_root = new_view_item, fv_source = None\<rparr>"

definition handle_hash :: "view_handle \<Rightarrow> bytes" where
  "handle_hash h = (case h of None \<Rightarrow> replicate 20 (CHR 0x00) | Some (hash, _) \<Rightarrow> hash)"

definition setDataSource :: "char \<Rightarrow> view_handle \<Rightarrow> file_view \<Rightarrow> bool \<times> file_view" where
  "setDataSource sep h v =
     (case h of
        Some (hash, files) \<Rightarrow>
          if handle_hash (fv_source v) \<noteq> hash
          then (True, \<lparr>fv_root = BuildTree sep files new_view_item, fv_source = h\<rparr>)
          else (False, v)
      | None \<Rightarrow> (True, new_file_view))"

section \<open>Leaves and their sizes\<close>

lemma i64_add: "i64 (i64 a + b) = i64 (a + b)" "i64 (a + i64 b) = i64 (a + b)"
proof -
  have i64: "i64 n = (n + 2 ^ 63) mod 2 ^ 64 - 2 ^ 63" for n
    by (simp add: i64_def signed_take_bit_eq_take_bit_shift take_bit_eq_mod)
  have "(i64 a + b + 2 ^ 63) mod 2 ^ 64 = (a + b + 2 ^ 63) mod 2 ^ 64" for a b
  proof -
    have "i64 a + b + 2 ^ 63 = (a + 2 ^ 63) mod 2 ^ 64 + b" by (simp only: i64)
    then show ?thesis by (simp only: mod_add_left_eq) (simp only: ac_simps)
  qed
  then have left: "i64 (i64 a + b) = i64 (a + b)" for a b by (simp only: i64)
  then show "i64 (i64 a + b) = i64 (a + b)" .
  show "i64 (a + i64 b) = i64 (a + b)" using left [of b a] by (simp only: add.commute)
qed

abbreviation file_or_folder :: "FileViewTreeItem \<Rightarrow> bool" where
  "file_or_folder \<equiv> tree_ok (\<lambda>n d leaf. vd_type d = (if leaf then FILE else FOLDER))"

abbreviation entry_size :: "string list \<times> view_data \<Rightarrow> int" where
  "entry_size x \<equiv> fe_size (vd_entry (snd x))"

lemma sum_concat: "(\<Sum>x \<leftarrow> concat xss. f x) = (\<Sum>xs \<leftarrow> xss. \<Sum>x \<leftarrow> xs. f x)"
  for f :: "'b \<Rightarrow> int"
  by (induction xss) simp_all

lemma folder_size_leaves:
  assumes "file_or_folder t" "child_items t \<noteq> []"
  shows "CalculateFolderSize t = i64 (\<Sum>x \<leftarrow> leaves t. entry_size x)"
  using assms
proof (induction t)
  case (Item n d ts)
  have step: "i64 (r + (if vd_type (item_data t) = FILE then fe_size (vd_entry (item_data t))
      else CalculateFolderSize t)) = i64 (r + (\<Sum>x \<leftarrow> leaves t. entry_size x))" if t: "t \<in> set ts" for t r
  proof -
    have ok: "file_or_folder t" "vd_type (item_data t) = (if child_items t = [] then FILE else FOLDER)"
      using Item.prems(1) t by (auto simp: list_all_iff)
    show ?thesis
    proof (cases "child_items t = []")
      case True
      then show ?thesis using ok by (cases t) simp
    next
      case False
      then show ?thesis using ok Item.IH [OF t] by (simp add: i64_add)
    qed
  qed
  have "fold (\<lambda>t result. i64 (result + (if vd_type (item_data t) = FILE then fe_size (vd_entry (item_data t))
      else CalculateFolderSize t))) us (i64 r) =
    i64 (r + (\<Sum>t \<leftarrow> us. \<Sum>x \<leftarrow> leaves t. entry_size x))" if "set us \<subseteq> set ts" for us r
    using that
  proof (induction us arbitrary: r)
    case (Cons u us)
    have "i64 (i64 r + (if vd_type (item_data u) = FILE then fe_size (vd_entry (item_data u))
        else CalculateFolderSize u)) = i64 (r + (\<Sum>x \<leftarrow> leaves u. entry_size x))"
      using step [of u "i64 r"] Cons.prems by (simp add: i64_add)
    with Cons show ?case by (simp add: add.assoc)
  qed simp
  from this [of ts 0] show ?case
    using Item.prems(2) by (simp add: sum_concat comp_def i64_def)
qed

lemma fold_concat: "fold f (concat xss) a = fold (fold f) xss a"
  by (induction xss arbitrary: a) simp_all

abbreviation entry_index :: "file_entry list \<Rightarrow> string list \<times> view_data \<Rightarrow> nat" where
  "entry_index files x \<equiv> file_index_at_offset files (fe_offset (vd_entry (snd x)))"

lemma priority_leaves:
  assumes "file_or_folder t" "vd_type (item_data t) = FILE \<longleftrightarrow> child_items t = []"
  shows "SetItemPriority files priority t prios =
    fold (\<lambda>x prios. prios[entry_index files x := priority]) (leaves t) prios"
  using assms
proof (induction t arbitrary: prios)
  case (Item n d ts)
  show ?case
  proof (cases "ts = []")
    case False
    have one: "SetItemPriority files priority t prios =
        fold (\<lambda>x prios. prios[entry_index files x := priority]) (leaves t) prios" if "t \<in> set ts" for t prios
      using Item.IH [OF that] Item.prems(1) that by (auto simp: list_all_iff)
    have "fold (SetItemPriority files priority) us prios =
        fold (\<lambda>t. fold (\<lambda>x prios. prios[entry_index files x := priority]) (leaves t)) us prios"
      if "set us \<subseteq> set ts" for us
      using that one by (induction us arbitrary: prios) auto
    then show ?thesis using False Item.prems(2) by (simp add: fold_concat fold_map comp_def)
  qed (use Item.prems(2) in simp)
qed

lemma fold_update_nth:
  "k < length ps \<Longrightarrow> fold (\<lambda>x ps. ps[f x := c]) xs ps ! k = (if k \<in> f ` set xs then c else ps ! k)"
  by (induction xs arbitrary: ps) (auto simp: nth_list_update)

lemma fold_update_length: "length (fold (\<lambda>x ps. ps[f x := c]) xs ps) = length ps"
  by (induction xs arbitrary: ps) simp_all

text \<open>When no file is empty the offsets grow, and the lookup by offset finds the file itself.\<close>

lemma file_index_self:
  assumes "sorted_wrt (<) (map fe_offset files)" "k < length files"
  shows "file_index_at_offset files (fe_offset (files ! k)) = k"
proof -
  let ?P = "\<lambda>f. \<not> fe_offset (files ! k) < fe_offset f"
  have less: "fe_offset (files ! i) < fe_offset (files ! j)" if "i < j" "j < length files" for i j
    using assms(1) that by (simp add: sorted_wrt_iff_nth_less)
  have up: "?P (files ! i)" if "i \<le> k" for i
    using less [of i k] that assms(2) by (cases "i = k") auto
  have "takeWhile ?P files = take (Suc k) files"
  proof (cases "Suc k < length files")
    case True
    then show ?thesis using up less by (intro takeWhile_eq_take_P_nth) auto
  next
    case False
    then have "\<forall>f \<in> set files. ?P f" using up assms(2) by (auto simp: in_set_conv_nth less_Suc_eq_le)
    then show ?thesis using False by (simp add: takeWhile_eq_all_conv)
  qed
  then show ?thesis using assms(2) by (simp add: file_index_at_offset_def)
qed

lemma below_index:
  assumes "sorted_wrt (<) (map fe_offset files)" "k < length files" "B \<subseteq> set files"
  shows "k \<in> (\<lambda>fe. file_index_at_offset files (fe_offset fe)) ` B \<longleftrightarrow> files ! k \<in> B"
proof
  assume "k \<in> (\<lambda>fe. file_index_at_offset files (fe_offset fe)) ` B"
  then obtain fe where fe: "fe \<in> B" "k = file_index_at_offset files (fe_offset fe)" by blast
  then obtain j where "j < length files" "files ! j = fe"
    using assms(3) by (meson in_set_conv_nth subsetD)
  then show "files ! k \<in> B" using fe file_index_self [OF assms(1)] by metis
next
  assume "files ! k \<in> B"
  then show "k \<in> (\<lambda>fe. file_index_at_offset files (fe_offset fe)) ` B"
    using file_index_self [OF assms(1,2)] by (metis imageI)
qed

section \<open>The tree of a torrent\<close>

abbreviation shown_files :: "file_entry list \<Rightarrow> file_entry list" where
  "shown_files files \<equiv> filter (\<lambda>fe. \<not> fe_pad fe) files"

text \<open>What libtorrent promises of the files it hands out: no path inside another, no empty file.\<close>

definition proper_storage :: "char \<Rightarrow> file_entry list \<Rightarrow> bool" where
  "proper_storage sep files \<longleftrightarrow>
     independent (map (\<lambda>fe. path_parts sep (fe_path fe)) (shown_files files)) \<and>
     sorted_wrt (<) (map fe_offset files) \<and> list_all (\<lambda>fe. in_i64 (fe_size fe)) files"

lemma BuildTree_entries:
  "BuildTree sep files root =
   add_entries (new_view_data sep) (\<lambda>fe. path_parts sep (fe_path fe)) (shown_files files) root"
  by (induction files arbitrary: root)
    (simp_all add: BuildTree_def add_entries_def AddPath_def)

lemma BuildTree_facts:
  assumes "proper_storage sep files"
  defines "tree \<equiv> BuildTree sep files new_view_item"
  shows "file_or_folder tree"
    and "shown_files files \<noteq> [] \<Longrightarrow> mset (leaves tree) =
      image_mset (\<lambda>fe. (path_parts sep (fe_path fe), \<lparr>vd_type = FILE, vd_entry = fe\<rparr>)) (mset (shown_files files))"
proof -
  let ?parts = "\<lambda>fe. path_parts sep (fe_path fe)" and ?x = "\<lambda>fe. \<lparr>vd_type = FILE, vd_entry = fe\<rparr>"
  have mk: "new_view_data sep e d p True = ?x e" for e d p by (simp add: new_view_data_def)
  have fit: "all_fit new_view_item (map ?parts (shown_files files))"
    using assms(1) by (auto simp: all_fit_def fits_def proper_storage_def new_view_item_def path_parts_nonempty [symmetric])
  show "file_or_folder tree"
    unfolding tree_def BuildTree_entries
    by (rule tree_ok_add_entries [where mk = "new_view_data sep" and parts = ?parts and x = ?x, OF mk fit])
      (simp_all add: new_view_item_def new_view_data_def)
  show "mset (leaves tree) = image_mset (\<lambda>fe. (?parts fe, ?x fe)) (mset (shown_files files))"
    if "shown_files files \<noteq> []"
    unfolding tree_def BuildTree_entries
    using leaves_add_entries [where mk = "new_view_data sep" and parts = ?parts and x = ?x, OF mk fit] that
    by (simp add: new_view_item_def)
qed

text \<open>The files whose path goes through an item.\<close>

definition files_below :: "char \<Rightarrow> string list \<Rightarrow> file_entry list \<Rightarrow> file_entry list" where
  "files_below sep names files =
     filter (\<lambda>fe. \<not> fe_pad fe \<and> prefix names (path_parts sep (fe_path fe))) files"

lemma leaves_of_item:
  assumes "proper_storage sep files" "p \<noteq> []"
    and p: "item_at (BuildTree sep files new_view_item) p = Some t"
  shows "image_mset snd (mset (leaves t)) =
    image_mset (\<lambda>fe. \<lparr>vd_type = FILE, vd_entry = fe\<rparr>)
      (mset (files_below sep (names_at (BuildTree sep files new_view_item) p) files))"
proof -
  let ?tree = "BuildTree sep files new_view_item" let ?names = "names_at ?tree p"
  have "shown_files files \<noteq> []"
  proof
    assume "shown_files files = []"
    then have "?tree = new_view_item" by (simp add: BuildTree_entries)
    then show False using p assms(2) by (cases p) (simp_all add: new_view_item_def)
  qed
  note leaves = BuildTree_facts(2) [OF assms(1) this]
  have "image_mset snd (image_mset (apfst (append ?names)) (mset (leaves t))) =
      image_mset snd (filter_mset (\<lambda>x. prefix ?names (fst x)) (mset (leaves ?tree)))"
    by (simp only: leaves_below [OF BuildTree_facts(1) [OF assms(1)] p])
  also have "\<dots> = image_mset (\<lambda>fe. \<lparr>vd_type = FILE, vd_entry = fe\<rparr>) (mset (files_below sep ?names files))"
    unfolding leaves filter_mset_image_mset image_mset.compositionality
    by (simp add: comp_def files_below_def filter_filter_mset flip: mset_filter)
  finally show ?thesis by (simp add: image_mset.compositionality comp_def)
qed


definition sample_storage :: "file_entry list" where
  "sample_storage =
     [\<lparr>fe_path = ''t/a/1'', fe_offset = 0, fe_size = 5, fe_pad = False\<rparr>,
      \<lparr>fe_path = ''t/.pad/3'', fe_offset = 5, fe_size = 3, fe_pad = True\<rparr>,
      \<lparr>fe_path = ''t/b'', fe_offset = 8, fe_size = 9, fe_pad = False\<rparr>,
      \<lparr>fe_path = ''t/a/2'', fe_offset = 17, fe_size = 7, fe_pad = False\<rparr>]"


text \<open>
  An empty file has the offset of the file after it, and the lookup finds that one: the priority
  of the empty file cannot be set, and setting it changes its neighbour's.
\<close>

lemma empty_file_priority_lost:
  "let files = [\<lparr>fe_path = ''t/a'', fe_offset = 0, fe_size = 0, fe_pad = False\<rparr>,
                \<lparr>fe_path = ''t/b'', fe_offset = 0, fe_size = 5, fe_pad = False\<rparr>]
   in case item_at (BuildTree (CHR ''/'') files new_view_item) [0, 0] of
        None \<Rightarrow> False
      | Some t \<Rightarrow> item_name t = ''a'' \<and> SetItemPriority files 0 t [1, 1] = [1, 0]"
  by code_simp

end
