(* ===== verification/Settings.thy ===== *)
theory Settings
  imports Qt_Bytes Qt_Maps
begin

text \<open>
  The settings of the program: \<open>QApplicationSettings.cpp\<close> over Qt's settings store, and the
  groups that file torrents by their suffixes (\<open>GroupForFileFiltering.cpp\<close>), which are kept
  there as one text each. The stored values have the type \<open>'v\<close>, with an invalid one among them.
\<close>

section \<open>The store of Qt\<close>

text \<open>
  The values by their full keys, with a slash between a group and a key, and the stack of the groups
  that were begun.
\<close>

record 'v qsettings =
  st_values :: "(bytes, 'v) qmap"
  st_groups :: "bytes list"

definition st_prefix :: "'v qsettings \<Rightarrow> bytes" where
  "st_prefix s = concat (map (\<lambda>g. g @ ''/'') (st_groups s))"

definition beginGroup :: "bytes \<Rightarrow> 'v qsettings \<Rightarrow> 'v qsettings" where
  "beginGroup g s = s\<lparr>st_groups := st_groups s @ [g]\<rparr>"

definition endGroup :: "'v qsettings \<Rightarrow> 'v qsettings" where
  "endGroup s = s\<lparr>st_groups := butlast (st_groups s)\<rparr>"

definition st_put :: "bytes \<Rightarrow> 'v \<Rightarrow> 'v qsettings \<Rightarrow> 'v qsettings" where
  "st_put k v s = s\<lparr>st_values := qm_insert (st_prefix s @ k) v (st_values s)\<rparr>"

definition st_get :: "'v \<Rightarrow> bytes \<Rightarrow> 'v qsettings \<Rightarrow> 'v" where
  "st_get invalid k s = qm_value invalid (st_values s) (st_prefix s @ k)"

text \<open>The keys of the current group that are in no group below it, in order.\<close>

definition childKeys :: "'v qsettings \<Rightarrow> bytes list" where
  "childKeys s =
     (let p = st_prefix s in
      filter (\<lambda>k. CHR ''/'' \<notin> set k)
        (map (\<lambda>(k, v). drop (length p) k) (filter (\<lambda>(k, v). starts_with k p) (st_values s))))"

text \<open>Removing the empty key removes the current group.\<close>

definition st_clear :: "'v qsettings \<Rightarrow> 'v qsettings" where
  "st_clear s = s\<lparr>st_values := filter (\<lambda>(k, v). \<not> starts_with k (st_prefix s)) (st_values s)\<rparr>"

section \<open>Application settings\<close>

definition enter_group :: "bytes \<Rightarrow> 'v qsettings \<Rightarrow> 'v qsettings" where
  "enter_group g s = beginGroup g (if st_groups s \<noteq> [] then endGroup s else s)"

definition app_setValue :: "bytes \<Rightarrow> bytes \<Rightarrow> 'v \<Rightarrow> 'v qsettings \<Rightarrow> 'v qsettings" where
  "app_setValue g k v s = endGroup (st_put k v (enter_group g s))"

definition app_value :: "'v \<Rightarrow> bytes \<Rightarrow> bytes \<Rightarrow> 'v \<Rightarrow> 'v qsettings \<Rightarrow> 'v qsettings \<times> 'v" where
  "app_value invalid g k defaultVal s =
     (let s = enter_group g s;
          res = st_get invalid k s
      in if res = invalid \<and> defaultVal \<noteq> invalid
         then (endGroup (st_put k defaultVal s), defaultVal)
         else (endGroup s, res))"

definition getGroupValues :: "'v \<Rightarrow> bytes \<Rightarrow> 'v qsettings \<Rightarrow> 'v qsettings \<times> (bytes, 'v) qmap" where
  "getGroupValues invalid g s =
     (let s = enter_group g s in
      (endGroup s, fold (\<lambda>k. qm_insert k (st_get invalid k s)) (childKeys s) []))"

definition setGroupValues :: "'v \<Rightarrow> bytes \<Rightarrow> (bytes, 'v) qmap \<Rightarrow> 'v qsettings \<Rightarrow> 'v qsettings" where
  "setGroupValues invalid g values s =
     endGroup (fold (\<lambda>k. st_put k (qm_value invalid values k)) (map fst values) (enter_group g s))"

section \<open>Filter groups\<close>

record filter_group =
  fg_name :: bytes
  fg_path :: bytes
  fg_extensions :: "bytes set"

definition make_group :: "bytes \<Rightarrow> bytes \<Rightarrow> bytes \<Rightarrow> filter_group" where
  "make_group name extensions savepath =
     \<lparr>fg_name = name, fg_path = savepath,
      fg_extensions = set (filter (\<lambda>e. e \<noteq> []) (split_on (CHR ''|'') extensions))\<rparr>"

definition group_Contains :: "bytes \<Rightarrow> filter_group \<Rightarrow> bool" where
  "group_Contains extension g \<longleftrightarrow> extension \<in> fg_extensions g"

text \<open>The order in which a hash set is walked is an argument.\<close>

definition group_Extensions :: "(bytes set \<Rightarrow> bytes list) \<Rightarrow> filter_group \<Rightarrow> bytes" where
  "group_Extensions order g = concat (map (\<lambda>e. e @ ''|'') (order (fg_extensions g)))"

text \<open>
  Qt's place markers: a percent sign, perhaps an L, and one or two digits. \<open>arg\<close> replaces every
  marker with the lowest number.
\<close>

datatype arg_part = Text char | Marker nat bytes

definition digit_value :: "char \<Rightarrow> nat option" where
  "digit_value c =
     (let n = (of_char c :: nat) in if 48 \<le> n \<and> n \<le> 57 then Some (n - 48) else None)"

definition marker :: "bytes \<Rightarrow> (nat \<times> nat) option" where
  "marker s =
     (let l = (if starts_with s ''L'' then 1 else 0)
      in case map digit_value (take 2 (drop l s)) of
           Some d # Some e # _ \<Rightarrow> Some (10 * d + e, l + 2)
         | Some d # _ \<Rightarrow> Some (d, l + 1)
         | _ \<Rightarrow> None)"

function arg_parts :: "bytes \<Rightarrow> arg_part list" where
  "arg_parts [] = []"
| "arg_parts (c # s) =
     (if c = CHR ''%'' then
        (case marker s of
           Some (n, k) \<Rightarrow> Marker n (c # take k s) # arg_parts (drop k s)
         | None \<Rightarrow> Text c # arg_parts s)
      else Text c # arg_parts s)"
  by pat_completeness auto
termination by (relation "measure length") auto

fun marker_numbers :: "arg_part list \<Rightarrow> nat list" where
  "marker_numbers [] = []"
| "marker_numbers (Text c # ps) = marker_numbers ps"
| "marker_numbers (Marker n t # ps) = n # marker_numbers ps"

definition qstring_arg :: "bytes \<Rightarrow> bytes \<Rightarrow> bytes" where
  "qstring_arg s a =
     (let ps = arg_parts s; ns = marker_numbers ps
      in concat (map (\<lambda>p. case p of Text c \<Rightarrow> [c]
                         | Marker n t \<Rightarrow> if list_all (\<lambda>m. n \<le> m) ns then a else t) ps))"

definition group_text :: "(bytes set \<Rightarrow> bytes list) \<Rightarrow> filter_group \<Rightarrow> bytes" where
  "group_text order g =
     qstring_arg (qstring_arg ''savepath;;%1;;extensions;;%2'' (fg_path g)) (group_Extensions order g)"

definition SaveFilterGropups ::
  "(bytes set \<Rightarrow> bytes list) \<Rightarrow> (bytes \<Rightarrow> 'v) \<Rightarrow> filter_group list \<Rightarrow> 'v qsettings \<Rightarrow> 'v qsettings" where
  "SaveFilterGropups order str filters s =
     endGroup (fold (\<lambda>g. st_put (fg_name g) (str (group_text order g))) filters
       (st_clear (beginGroup ''FileFiltering'' s)))"

text \<open>The split at a separator of two characters.\<close>

fun split_two :: "char \<Rightarrow> char \<Rightarrow> bytes \<Rightarrow> bytes list" where
  "split_two a b (x # y # s) =
     (if x = a \<and> y = b then [] # split_two a b s
      else case split_two a b (y # s) of [] \<Rightarrow> [[x]] | t # ts \<Rightarrow> (x # t) # ts)"
| "split_two a b s = [s]"

definition group_of_text :: "bytes \<Rightarrow> bytes \<Rightarrow> filter_group list run" where
  "group_of_text name t =
     (let tmpVal = split_two (CHR '';'') (CHR '';'') t in
      if tmpVal ! 0 \<noteq> ''savepath'' \<and> length tmpVal < 4 then Done []
      else if length tmpVal \<le> 3 then Fault
      else Done [make_group name (tmpVal ! 3) (tmpVal ! 1)])"

fun filter_loop :: "('v \<Rightarrow> bytes) \<Rightarrow> 'v \<Rightarrow> 'v qsettings \<Rightarrow> bytes list \<Rightarrow> filter_group list run" where
  "filter_loop toString invalid s [] = Done []"
| "filter_loop toString invalid s (k # ks) =
     rbind (group_of_text k (toString (st_get invalid k s)))
       (\<lambda>g. rbind (filter_loop toString invalid s ks) (\<lambda>gs. Done (g @ gs)))"

definition GetFileFilterGroups ::
  "('v \<Rightarrow> bytes) \<Rightarrow> 'v \<Rightarrow> 'v qsettings \<Rightarrow> ('v qsettings \<times> filter_group list) run" where
  "GetFileFilterGroups toString invalid s =
     (let s = enter_group ''FileFiltering'' s
      in rbind (filter_loop toString invalid s (childKeys s)) (\<lambda>gs. Done (endGroup s, gs)))"

section \<open>The text of a group\<close>

lemma arg_parts_plain: "CHR ''%'' \<notin> set u \<Longrightarrow> arg_parts (u @ v) = map Text u @ arg_parts v"
  by (induction u) auto

lemma marker_numbers_append: "marker_numbers (ps @ qs) = marker_numbers ps @ marker_numbers qs"
  by (induction ps rule: marker_numbers.induct) auto

lemma marker_numbers_Text [simp]: "marker_numbers (map Text u) = []"
  by (induction u) auto

lemma Text_chars: "concat (map (\<lambda>p. case p of Text c \<Rightarrow> [c] | Marker n t \<Rightarrow> f n t) (map Text u)) = u"
  by (induction u) auto

lemma marker_one: "marker (CHR ''1'' # CHR '';'' # s) = Some (1, 1)"
  by (simp add: marker_def starts_with_def digit_value_def)

lemma marker_two: "marker ''2'' = Some (2, 1)"
  by (simp add: marker_def starts_with_def digit_value_def)

lemma group_text_plain:
  assumes "CHR ''%'' \<notin> set (fg_path g)"
  shows "group_text order g =
    ''savepath;;'' @ fg_path g @ '';;extensions;;'' @ group_Extensions order g"
proof -
  let ?one = "CHR ''%'' # CHR ''1'' # CHR '';'' # '';extensions;;'' @ ''%2''"
  have two: "arg_parts ''%2'' = [Marker 2 ''%2'']" by (simp add: marker_two)
  have "arg_parts ?one = Marker 1 ''%1'' # arg_parts ('';;extensions;;'' @ ''%2'')"
    by (subst arg_parts.simps) (simp add: marker_one)
  then have one: "arg_parts ?one = Marker 1 ''%1'' # map Text '';;extensions;;'' @ [Marker 2 ''%2'']"
    using arg_parts_plain [of "'';;extensions;;''" "''%2''"] two by simp
  have "arg_parts (''savepath;;'' @ ?one) =
      map Text ''savepath;;'' @ Marker 1 ''%1'' # map Text '';;extensions;;'' @ [Marker 2 ''%2'']"
    using arg_parts_plain [of "''savepath;;''" ?one] one by simp
  then have first: "qstring_arg ''savepath;;%1;;extensions;;%2'' (fg_path g) =
      ''savepath;;'' @ fg_path g @ '';;extensions;;%2''"
    by (simp add: qstring_arg_def Let_def)
  have "arg_parts ((''savepath;;'' @ fg_path g @ '';;extensions;;'') @ ''%2'') =
      map Text (''savepath;;'' @ fg_path g @ '';;extensions;;'') @ [Marker 2 ''%2'']"
    using assms arg_parts_plain [of "''savepath;;'' @ fg_path g @ '';;extensions;;''" "''%2''"] two by simp
  then have "qstring_arg ((''savepath;;'' @ fg_path g @ '';;extensions;;'') @ ''%2'') (group_Extensions order g) =
      (''savepath;;'' @ fg_path g @ '';;extensions;;'') @ group_Extensions order g"
    unfolding qstring_arg_def Let_def by (simp only: marker_numbers_append marker_numbers_Text map_append
        concat_append Text_chars) simp
  then show ?thesis unfolding group_text_def first by simp
qed

lemma split_two_append: "c \<notin> set x \<Longrightarrow> split_two c c (x @ c # c # s) = x # split_two c c s"
proof (induction x)
  case (Cons y x)
  then have "y \<noteq> c" by auto
  with Cons show ?case by (cases x) simp_all
qed simp

lemma split_two_last: "c \<notin> set x \<Longrightarrow> split_two c c x = [x]"
  by (induction c c x rule: split_two.induct) auto

lemma group_of_plain_text:
  assumes "CHR '';'' \<notin> set path" "CHR '';'' \<notin> set exts"
  shows "group_of_text name (''savepath;;'' @ path @ '';;extensions;;'' @ exts) = Done [make_group name exts path]"
proof -
  have "split_two (CHR '';'') (CHR '';'') (''savepath'' @ CHR '';'' # CHR '';'' # path @ CHR '';'' # CHR '';'' #
      ''extensions'' @ CHR '';'' # CHR '';'' # exts) = [''savepath'', path, ''extensions'', exts]"
    unfolding split_two_append [OF assms(1)] split_two_last [OF assms(2)]
    by (subst split_two_append, simp)
      (simp only: split_two_append [OF assms(1)], subst split_two_append, simp, simp only: split_two_last [OF assms(2)])
  then show ?thesis by (simp add: group_of_text_def)
qed

lemma split_bars:
  "\<forall>e \<in> set es. CHR ''|'' \<notin> set e \<Longrightarrow> split_on (CHR ''|'') (concat (map (\<lambda>e. e @ ''|'') es)) = es @ [[]]"
  by (induction es) (simp_all add: split_on_append)

text \<open>What a group must be to survive.\<close>

definition plain_group :: "filter_group \<Rightarrow> bool" where
  "plain_group g \<longleftrightarrow> CHR ''/'' \<notin> set (fg_name g) \<and>
     CHR ''%'' \<notin> set (fg_path g) \<and> CHR '';'' \<notin> set (fg_path g) \<and> finite (fg_extensions g) \<and>
     (\<forall>e \<in> fg_extensions g. e \<noteq> [] \<and> CHR ''|'' \<notin> set e \<and> CHR '';'' \<notin> set e)"

lemma group_text_back:
  assumes "plain_group g" "\<And>S. finite S \<Longrightarrow> set (order S) = S"
  shows "group_of_text (fg_name g) (group_text order g) = Done [g]"
proof -
  have set: "set (order (fg_extensions g)) = fg_extensions g" using assms by (simp add: plain_group_def)
  have bars: "\<forall>e \<in> set (order (fg_extensions g)). CHR ''|'' \<notin> set e"
    using assms(1) unfolding set by (simp add: plain_group_def)
  have "filter (\<lambda>e. e \<noteq> []) (order (fg_extensions g)) = order (fg_extensions g)"
    using assms(1) set by (intro filter_True) (simp add: plain_group_def)
  then have "make_group (fg_name g) (group_Extensions order g) (fg_path g) = g"
    using set by (simp add: make_group_def group_Extensions_def split_bars [OF bars])
  moreover have "CHR '';'' \<notin> set (group_Extensions order g)"
    using assms(1) set by (auto simp: group_Extensions_def plain_group_def)
  ultimately show ?thesis
    using assms(1) by (simp add: group_text_plain group_of_plain_text plain_group_def del: append.simps)
qed

section \<open>Saving and reading the groups\<close>

lemma prefix_less: "p @ a < p @ b \<longleftrightarrow> a < (b :: bytes)"
  by (induction p) simp_all

lemma st_prefix_put [simp]: "st_prefix (st_put k v s) = st_prefix s"
  by (simp add: st_put_def st_prefix_def)

lemma put_all_prefix: "st_prefix (fold (\<lambda>g. st_put (n g) (v g)) gs s) = st_prefix s"
  by (induction gs arbitrary: s) simp_all

lemma put_all_groups: "st_groups (fold (\<lambda>g. st_put (n g) (v g)) gs s) = st_groups s"
  by (induction gs arbitrary: s) (simp_all add: st_put_def)

lemma put_all_values:
  "st_values (fold (\<lambda>g. st_put (n g) (v g)) gs s) =
   fold (\<lambda>(k, x). qm_insert k x) (map (\<lambda>g. (st_prefix s @ n g, v g)) gs) (st_values s)"
  by (induction gs arbitrary: s) (simp_all add: st_put_def st_prefix_def)

lemma fold_insert_keys:
  "fst ` set (fold (\<lambda>(k, v). qm_insert k v) kvs m) = fst ` set kvs \<union> fst ` set m"
proof (induction kvs arbitrary: m)
  case (Cons kv kvs)
  show ?case by (cases kv) (simp add: Cons.IH qm_insert_keys Un_commute)
qed simp

text \<open>The keys of the current group, in strict order.\<close>

lemma childKeys_sorted:
  assumes "qm_ok (st_values s)"
  shows "sorted_wrt (<) (childKeys s)"
proof -
  let ?p = "st_prefix s"
  have "sorted_wrt (<) (map (\<lambda>(k, v). drop (length ?p) k) (filter (\<lambda>(k, v). starts_with k ?p) m))"
    if "qm_ok m" for m :: "(bytes, 'a) qmap"
    using that
  proof (induction m)
    case (Cons kv m)
    obtain k v where kv: "kv = (k, v)" by (cases kv)
    have "drop (length ?p) k < drop (length ?p) k'" if "(k', v') \<in> set m" "starts_with k ?p" "starts_with k' ?p" for k' v'
    proof -
      have "k < k'" using Cons.prems that(1) by (force simp: qm_ok_Cons kv)
      then show ?thesis using that(2,3) by (auto simp: starts_with_iff prefix_less)
    qed
    then show ?case using Cons by (auto simp: qm_ok_Cons kv)
  qed simp
  from this [OF assms] show ?thesis by (simp add: childKeys_def Let_def sorted_wrt_filter)
qed

lemma childKeys_set:
  "set (childKeys s) = {k. st_prefix s @ k \<in> fst ` set (st_values s) \<and> CHR ''/'' \<notin> set k}"
  by (force simp: childKeys_def Let_def starts_with_iff)

lemma filter_loop_groups:
  assumes "\<And>k. k \<in> set ks \<Longrightarrow> \<exists>g \<in> G. fg_name g = k \<and> group_of_text k (toString (st_get invalid k s)) = Done [g]"
  shows "\<exists>gs. filter_loop toString invalid s ks = Done gs \<and> map fg_name gs = ks \<and> set gs \<subseteq> G"
  using assms
proof (induction ks)
  case (Cons k ks)
  obtain gs where gs: "filter_loop toString invalid s ks = Done gs" "map fg_name gs = ks" "set gs \<subseteq> G"
    using Cons by auto
  obtain g where "g \<in> G" "fg_name g = k" "group_of_text k (toString (st_get invalid k s)) = Done [g]"
    using Cons.prems [of k] by auto
  with gs show ?case by (intro exI [of _ "g # gs"]) simp
qed simp


definition sample_groups :: "filter_group list" where
  "sample_groups =
     [\<lparr>fg_name = ''video'', fg_path = ''D:/films'', fg_extensions = {''avi'', ''mkv''}\<rparr>,
      \<lparr>fg_name = ''music'', fg_path = ''D:/music'', fg_extensions = {''mp3''}\<rparr>]"


text \<open>
  Outside these conditions. A stored text that begins as a group but ends early is read out of
  bounds, for the test joins its two halves with the wrong connective; and a marker in the save path
  is taken for the place of the suffixes.
\<close>

lemma short_group_faults:
  assumes "split_two (CHR '';'') (CHR '';'') t = ''savepath'' # ps" "length ps < 3"
  shows "group_of_text name t = Fault"
  using assms by (simp add: group_of_text_def)

lemma marker_in_path:
  "group_text (\<lambda>_. [''avi'']) \<lparr>fg_name = ''v'', fg_path = ''D:/%1'', fg_extensions = {''avi''}\<rparr> =
   ''savepath;;D:/avi|;;extensions;;%2''"
  by code_simp

end
