(* ===== verification/Web_Api.thy ===== *)
theory Web_Api
  imports Static_Files Torrent_Storage Settings Json Json_Serialize
begin

text \<open>
  The web interface: \<open>RequestMapper.cpp\<close> and the controllers it hands the requests to, in
  \<open>webControll/\<close>. What the controllers make the program do (to a torrent, to a file) is a list of
  effects; what libtorrent, the file system and Qt's conversions answer are arguments.
\<close>

section \<open>Effects and answers\<close>

datatype web_effect =
    PauseTorrent nat
  | ResumeTorrent nat
  | RemoveTorrent nat bool
  | WaitForMagnet bytes
  | AddMagnet bytes bytes
  | WriteUpload bytes bytes
  | AddTorrent bytes bytes

definition upper_case :: "bytes \<Rightarrow> bytes" where
  "upper_case s = map (\<lambda>c. let n = (of_char c :: nat) in if 97 \<le> n \<and> n \<le> 122 then char_of (n - 32) else c) s"

definition not_allowed :: "HttpResponse \<Rightarrow> HttpResponse" where
  "not_allowed r =
     write_parts [''<BODY><h3>405 Method Not Allowed.</h3>'', ''</BODY>''] (setStatus 405 ''Method Not Allowed'' r)"

definition bad_request :: "bytes list \<Rightarrow> HttpResponse \<Rightarrow> HttpResponse" where
  "bad_request parts r = write_parts parts (setStatus 400 ''Bad Request'' r)"

definition server_error :: "bytes list \<Rightarrow> HttpResponse \<Rightarrow> HttpResponse" where
  "server_error parts r = write_parts parts (setStatus 500 '' Internal Server Error'' r)"

section \<open>Commands\<close>

text \<open>
  The pointer to the manager, passed where a truth value says whether the downloaded files go
  too, is never null.
\<close>

definition command_effects :: "bytes \<Rightarrow> nat \<Rightarrow> web_effect list" where
  "command_effects action t =
     (if action = ''pause'' then [PauseTorrent t]
      else if action = ''resume'' then [ResumeTorrent t]
      else if action = ''remove'' then [RemoveTorrent t True]
      else [])"

text \<open>
  The controller asks for credentials when its own member says so; only the check of the
  credentials sets that member from the settings.
\<close>

definition commands_service ::
  "(bytes \<Rightarrow> bytes) \<Rightarrow> account \<Rightarrow> HttpRequest \<Rightarrow> HttpResponse \<Rightarrow> bool \<Rightarrow> torrent_storage
    \<Rightarrow> HttpResponse \<times> bool \<times> torrent_storage \<times> web_effect list" where
  "commands_service md5 acc q r requireAuth s =
     (let (r, ok) = (if requireAuth then CheckCreditinals md5 acc q r else (r, True));
          requireAuth = (if requireAuth then ac_requireAuth acc else requireAuth)
      in if \<not> ok then (r, requireAuth, s, [])
         else if upper_case (rq_method q) = ''POST'' then
           (let (s, tor) = GetTorrentByInfoHash (getParameter q ''id'') s
            in (r, requireAuth, s,
                case tor of None \<Rightarrow> [] | Some t \<Rightarrow> command_effects (getParameter q ''action'') t))
         else (not_allowed r, requireAuth, s, []))"

section \<open>Magnet links\<close>

definition magnet_service ::
  "(bytes \<Rightarrow> bytes) \<Rightarrow> account \<Rightarrow> HttpRequest \<Rightarrow> HttpResponse \<Rightarrow> (bytes, bytes) qmap
    \<Rightarrow> HttpResponse \<times> (bytes, bytes) qmap \<times> web_effect list" where
  "magnet_service md5 acc q r savePathMap =
     (case CheckCreditinals md5 acc q r of
        (r, False) \<Rightarrow> (r, savePathMap, [])
      | (r, True) \<Rightarrow>
          if rq_method q = ''POST'' then
            (let magnetLink = getParameter q ''magnetLink''; savePath = getParameter q ''savePath''
             in if magnetLink = [] \<or> savePath = []
                then (setStatus 500 ''Internal server error'' (write_part r ''Invalid data passed'' False), savePathMap, [])
                else (setStatus 200 ''OK'' r, qm_insert magnetLink savePath savePathMap, [WaitForMagnet magnetLink]))
          else (not_allowed r, savePathMap, []))"

text \<open>When the metadata of a link has come, the link is added with its path.\<close>

definition DownloadMetadataCompleted ::
  "bytes \<Rightarrow> (bytes, bytes) qmap \<Rightarrow> (bytes, bytes) qmap \<times> web_effect list" where
  "DownloadMetadataCompleted link savePathMap =
     (let m = (if qm_contains savePathMap link then savePathMap else qm_insert link [] savePathMap)
      in (m, [AddMagnet link (qm_value [] m link)]))"

section \<open>Uploads\<close>

record upload_env =
  up_dir :: bytes
  up_exists :: "bytes \<Rightarrow> bool"
  up_writable :: "bytes \<Rightarrow> bool"
  up_error :: "bytes \<Rightarrow> bytes \<Rightarrow> bytes option"

definition upload_service ::
  "(bytes \<Rightarrow> bytes) \<Rightarrow> account \<Rightarrow> upload_env \<Rightarrow> HttpRequest \<Rightarrow> HttpResponse
    \<Rightarrow> (HttpResponse \<times> web_effect list) run" where
  "upload_service md5 acc env q r =
     (case CheckCreditinals md5 acc q r of
        (r, False) \<Rightarrow> Done (r, [])
      | (r, True) \<Rightarrow>
          if rq_method q = ''POST'' then
            (let save_path = getParameter q ''savePath'';
                 uploaded = up_dir env @ ''/uploaded/'' @ getParameter q ''files[]''
             in if save_path = [] \<or> \<not> up_exists env save_path then
                  Done (bad_request [''<BODY><h3>400 Bad Request.</h3>'', ''<h3>Invalid save-path</h3></BODY>''] r, [])
                else if \<not> up_writable env uploaded then
                  Done (server_error [''<BODY><h3>500  Internal Server Error.</h3>'',
                    ''<h3>Unable to open output file</h3></BODY>''] r, [])
                else (case getUploadedFile q ''files[]'' of
                    None \<Rightarrow> Fault
                  | Some content \<Rightarrow>
                      (let effects = [WriteUpload uploaded content, AddTorrent uploaded save_path]
                       in case up_error env uploaded save_path of
                            None \<Rightarrow> Done (r, effects)
                          | Some message \<Rightarrow>
                              Done (server_error [''<BODY><h3>500  Internal Server Error.</h3>'',
                                ''<h3>'' @ message @ ''</h3></BODY>''] r, effects))))
          else Done (not_allowed r, []))"

section \<open>The list of torrents\<close>

text \<open>
  What is said of a torrent is an argument, the number of torrents excepted. A null pointer in the
  list is followed, as is one outside it.
\<close>

function torrents_loop ::
  "(nat \<Rightarrow> (qtext \<times> 'd qvariant) list) \<Rightarrow> torrent_storage \<Rightarrow> int \<Rightarrow> int \<Rightarrow> 'd qvariant list run" where
  "torrents_loop describe s hi i =
     (if i < hi then
        rbind (torrent_at s i) (\<lambda>t. case t of None \<Rightarrow> Fault
          | Some t \<Rightarrow> rbind (torrents_loop describe s hi (i + 1))
              (\<lambda>ts. Done (QMap (qm_insert (qs ''torrentsCount'') (QInt (int (storage_count s))) (describe t)) # ts)))
      else Done [])"
  by pat_completeness auto
termination by (relation "measure (\<lambda>(d, s, hi, i). nat (hi - i))") auto

declare torrents_loop.simps [simp del]

definition torrents_service ::
  "('d qvariant \<Rightarrow> bytes) \<Rightarrow> (nat \<Rightarrow> (qtext \<times> 'd qvariant) list) \<Rightarrow> torrent_storage
    \<Rightarrow> HttpRequest \<Rightarrow> HttpResponse \<Rightarrow> HttpResponse run" where
  "torrents_service to_json describe s q r =
     (if upper_case (rq_method q) \<noteq> ''GET'' then Done r
      else if getParameter q ''page'' = [] then Done (not_allowed r)
      else case string_toInt (getParameter q ''page'') of
          None \<Rightarrow> Done (bad_request [''<h3>400 Bad Request.</h3>''] r)
        | Some iPage \<Rightarrow>
            (case string_toInt (getParameter q ''pageSize'') of
               None \<Rightarrow> Done (bad_request [''<BODY><h3>400 Bad Request.</h3></BODY>''] r)
             | Some iPageSize \<Rightarrow>
                 rbind (torrents_loop describe s (min (int (storage_count s)) (i32 (iPage * iPageSize)))
                     (i32 ((iPage - 1) * iPageSize)))
                   (\<lambda>ts. Done (write_part (setHeader ''Content-Type'' ''application/json'' r) (to_json (QList ts)) False))))"

section \<open>Settings\<close>

text \<open>
  The fields of the settings object, in the order of the code, with the conversion that reading
  uses. A read stores the default of a field that is not there yet.
\<close>

datatype field_kind = IntField | TextField | BoolField

definition settings_fields :: "(bytes \<times> field_kind) list" where
  "settings_fields =
     [(''listen_port'', IntField), (''active_downloads'', TextField), (''download_rate_limit'', TextField),
      (''active_limit'', TextField), (''upload_rate_limit'', TextField), (''active_seeds'', TextField),
      (''disk_io_read_mode'', TextField), (''cache_size'', IntField), (''use_disk_read_ahead'', BoolField),
      (''allow_reordered_disk_operations'', BoolField), (''lock_files'', BoolField), (''low_prio_disk'', BoolField),
      (''use_read_cache'', TextField)]"

text \<open>The conversions of a \<open>QVariant\<close> and between texts and bytes.\<close>

record 'd conversions =
  cv_int :: "'d qvariant \<Rightarrow> int"
  cv_text :: "'d qvariant \<Rightarrow> qtext"
  cv_bool :: "'d qvariant \<Rightarrow> bool"
  cv_dec :: "bytes \<Rightarrow> qtext"
  cv_enc :: "qtext \<Rightarrow> bytes"
  cv_double :: "qtext \<Rightarrow> 'd"
  cv_json :: "'d qvariant \<Rightarrow> bytes"
  cv_order :: "bytes set \<Rightarrow> bytes list"

definition read_field ::
  "'d conversions \<Rightarrow> bytes \<times> field_kind \<Rightarrow> 'd qvariant qsettings \<Rightarrow> 'd qvariant qsettings \<times> 'd qvariant" where
  "read_field cv field s =
     (case field of
        (k, IntField) \<Rightarrow>
          (case app_value QInvalid ''Torrent'' k (QInt 0) s of
             (s, v) \<Rightarrow> (s, QInt (if k = ''cache_size'' then i32 (cv_int cv v * 16) else cv_int cv v)))
      | (k, TextField) \<Rightarrow>
          (case app_value QInvalid ''Torrent'' k (QString []) s of (s, v) \<Rightarrow> (s, QString (cv_text cv v)))
      | (k, BoolField) \<Rightarrow>
          (case app_value QInvalid ''Torrent'' k (QBool True) s of (s, v) \<Rightarrow> (s, QBool (cv_bool cv v))))"

definition group_object :: "'d conversions \<Rightarrow> filter_group \<Rightarrow> 'd qvariant" where
  "group_object cv g =
     QMap (qm_insert (qs ''path'') (QString (cv_dec cv (fg_path g)))
       (qm_insert (qs ''extensions'') (QString (cv_dec cv (group_Extensions (cv_order cv) g)))
         (qm_insert (qs ''name'') (QString (cv_dec cv (fg_name g))) [])))"

definition read_fields ::
  "'d conversions \<Rightarrow> 'd qvariant qsettings \<Rightarrow> 'd qvariant qsettings \<times> (qtext \<times> 'd qvariant) list" where
  "read_fields cv s =
     fold (\<lambda>f (s, m). case read_field cv f s of (s, v) \<Rightarrow> (s, qm_insert (qs (fst f)) v m)) settings_fields (s, [])"

definition get_settings ::
  "'d conversions \<Rightarrow> 'd qvariant qsettings \<Rightarrow> HttpResponse \<Rightarrow> (HttpResponse \<times> 'd qvariant qsettings) run" where
  "get_settings cv s r =
     (case read_fields cv s of (s, m) \<Rightarrow>
        rbind (GetFileFilterGroups (cv_enc cv \<circ> cv_text cv) QInvalid s) (\<lambda>(s, gs).
          let m = qm_insert (qs ''filteringGroups'') (QList (map (group_object cv) gs)) m
          in Done (write_part (setHeader ''Content-Type'' ''application/json'' r) (cv_json cv (QMap m)) False, s)))"

definition to_map :: "'d qvariant \<Rightarrow> (qtext \<times> 'd qvariant) list" where
  "to_map v = (case v of QMap m \<Rightarrow> m | _ \<Rightarrow> [])"

definition to_list :: "'d qvariant \<Rightarrow> 'd qvariant list" where
  "to_list v = (case v of QList vs \<Rightarrow> vs | _ \<Rightarrow> [])"

text \<open>Writing takes every field from the object; the bracket gives an invalid value for one it lacks.\<close>

definition field_of :: "(qtext \<times> 'd qvariant) list \<Rightarrow> bytes \<Rightarrow> 'd qvariant" where
  "field_of m k = qm_value QInvalid m (qs k)"

definition group_of_object :: "'d conversions \<Rightarrow> 'd qvariant \<Rightarrow> filter_group" where
  "group_of_object cv v =
     (let text = (\<lambda>k. cv_enc cv (cv_text cv (field_of (to_map v) k)))
      in make_group (text ''name'') (text ''extensions'') (text ''path''))"

definition write_fields :: "'d conversions \<Rightarrow> (qtext \<times> 'd qvariant) list \<Rightarrow> 'd qvariant qsettings \<Rightarrow> 'd qvariant qsettings" where
  "write_fields cv m s =
     fold (\<lambda>(k, kind). app_setValue ''Torrent'' k
        (if k = ''cache_size'' then QInt (cdiv (cv_int cv (field_of m k)) 16) else field_of m k)) settings_fields s"

definition put_settings ::
  "'d conversions \<Rightarrow> 'd qvariant qsettings \<Rightarrow> HttpRequest \<Rightarrow> HttpResponse
    \<Rightarrow> (HttpResponse \<times> 'd qvariant qsettings) run" where
  "put_settings cv s q r =
     rbind (parse (cv_double cv) (Some (cv_dec cv (rq_bodyData q)))) (\<lambda>(v, ok).
       let m = to_map v in
       if ok then
         Done (r, SaveFilterGropups (cv_order cv) (QString \<circ> cv_dec cv)
           (map (group_of_object cv) (to_list (field_of m ''filteringGroups''))) (write_fields cv m s))
       else Done (bad_request [''<BODY><h3>400 Bad Request.</h3></BODY>''] r, s))"

definition settings_service ::
  "(bytes \<Rightarrow> bytes) \<Rightarrow> account \<Rightarrow> 'd conversions \<Rightarrow> HttpRequest \<Rightarrow> HttpResponse \<Rightarrow> 'd qvariant qsettings
    \<Rightarrow> (HttpResponse \<times> 'd qvariant qsettings) run" where
  "settings_service md5 acc cv q r s =
     (case CheckCreditinals md5 acc q r of
        (r, False) \<Rightarrow> Done (r, s)
      | (r, True) \<Rightarrow>
          if rq_method q = ''GET'' then get_settings cv s r
          else if rq_method q = ''PUT'' \<or> rq_method q = ''POST'' then put_settings cv s q r
          else Done (not_allowed r, s))"

section \<open>The mapper\<close>

record 'd web_env =
  we_md5 :: "bytes \<Rightarrow> bytes"
  we_static :: static_config
  we_files :: "bytes \<Rightarrow> fs_node"
  we_now :: int
  we_upload :: upload_env
  we_describe :: "nat \<Rightarrow> (qtext \<times> 'd qvariant) list"
  we_conv :: "'d conversions"

record 'd web_state =
  ws_requireAuth :: bool
  ws_storage :: torrent_storage
  ws_savePaths :: "(bytes, bytes) qmap"
  ws_settings :: "'d qvariant qsettings"
  ws_cache :: file_cache

definition web_service ::
  "'d web_env \<Rightarrow> HttpRequest \<Rightarrow> HttpResponse \<Rightarrow> 'd web_state
    \<Rightarrow> (HttpResponse \<times> 'd web_state \<times> web_effect list) run" where
  "web_service env q r st =
     (let path = getPath q; md5 = we_md5 env; acc = sf_account (we_static env)
      in if starts_with path ''/magnet/api'' then
           (case magnet_service md5 acc q r (ws_savePaths st) of
              (r, m, es) \<Rightarrow> Done (r, st\<lparr>ws_savePaths := m\<rparr>, es))
         else if starts_with path ''/settings/api'' then
           rbind (settings_service md5 acc (we_conv env) q r (ws_settings st))
             (\<lambda>(r, s). Done (r, st\<lparr>ws_settings := s\<rparr>, []))
         else if starts_with path ''/torrent/api'' then
           rbind (torrents_service (cv_json (we_conv env)) (we_describe env) (ws_storage st) q r)
             (\<lambda>r. Done (r, st, []))
         else if starts_with path ''/torrent/upload'' then
           rbind (upload_service md5 acc (we_upload env) q r) (\<lambda>(r, es). Done (r, st, es))
         else if starts_with path ''/torrent/action'' then
           (case commands_service md5 acc q r (ws_requireAuth st) (ws_storage st) of
              (r, flag, s, es) \<Rightarrow> Done (r, st\<lparr>ws_requireAuth := flag, ws_storage := s\<rparr>, es))
         else
           (case static_service md5 (we_static env) (we_files env) (we_now env) q r (ws_cache st) of
              (c, r) \<Rightarrow> Done (r, st\<lparr>ws_cache := c\<rparr>, [])))"

section \<open>Every request of the interface gets one reply\<close>

lemma status_keeps_open: "reply_of s (Open d) r \<Longrightarrow> reply_of s (Open d) (setStatus c t r)"
  by (simp add: setStatus_def streaming_def is_chunked_def sent_def header_is_def)

definition replied :: "bytes \<Rightarrow> HttpResponse \<Rightarrow> bool" where
  "replied s r \<longleftrightarrow> (\<exists>a. reply_of s a r)"

lemma repliedI: "reply_of s a r \<Longrightarrow> replied s r"
  unfolding replied_def by blast

lemma status_replied: "reply_of s Fresh r \<Longrightarrow> replied s (setStatus c t r)"
  by (rule repliedI, rule fresh_status)

lemma parts_reply:
  assumes "reply_of s Fresh r" "\<forall>d \<in> set ds. int (length d) < 2 ^ 31"
  shows "replied s (write_parts ds (setStatus c t r))"
proof (cases "ds = []")
  case True
  then show ?thesis using status_replied [OF assms(1)] by (simp add: write_parts_def)
next
  case False
  show ?thesis
    unfolding write_parts_def
    by (rule repliedI, rule reply_parts [OF _ assms(2) fresh_status [OF assms(1)] False]) simp
qed

lemma not_allowed_reply: "reply_of s Fresh r \<Longrightarrow> replied s (not_allowed r)"
  unfolding not_allowed_def by (rule parts_reply) simp_all

lemma bad_request_reply: "reply_of s Fresh r \<Longrightarrow> int (length d) < 2 ^ 31 \<Longrightarrow> replied s (bad_request [d] r)"
  unfolding bad_request_def by (rule parts_reply) simp_all

lemma json_reply: "reply_of s Fresh r \<Longrightarrow> replied s (write_part (setHeader ''Content-Type'' t r) d False)"
  by (rule repliedI, rule reply_first(1), rule fresh_header) (simp_all add: framing_header_def del: reply_of.simps)

lemma late_status_reply: "reply_of s Fresh r \<Longrightarrow> replied s (setStatus c t (write_part r d False))"
  by (rule repliedI, rule status_keeps_open, rule reply_first(1))

lemmas web_replies = not_allowed_reply json_reply late_status_reply status_replied repliedI

text \<open>A handler that checks the credentials first and then, on the same response, does the rest.\<close>

lemma checked_reply:
  assumes "reply_of s Fresh r" "CheckCreditinals md5 acc q r = (r', ok)"
  shows "ok \<and> r' = r \<or> \<not> ok \<and> replied s r'"
  using check_reply [OF assms] unfolding replied_def by (cases ok) simp_all

lemma commands_reply:
  assumes "reply_of s Fresh r" "commands_service md5 acc q r flag st = (r', x)"
  shows "replied s r'"
proof -
  obtain r1 ok where c: "(if flag then CheckCreditinals md5 acc q r else (r, True)) = (r1, ok)" by force
  then have "ok \<and> r1 = r \<or> \<not> ok \<and> replied s r1"
    using checked_reply [OF assms(1), of md5 acc q r1 ok] by (cases flag) auto
  then show ?thesis
    using assms(2) web_replies [OF assms(1)] unfolding commands_service_def c Let_def
    by (auto split: if_splits prod.splits)
qed

lemma magnet_reply:
  assumes "reply_of s Fresh r" "magnet_service md5 acc q r m = (r', x)"
  shows "replied s r'"
proof -
  obtain r1 ok where c: "CheckCreditinals md5 acc q r = (r1, ok)" by force
  show ?thesis
    using checked_reply [OF assms(1) c] assms(2) c web_replies [OF assms(1)]
    by (auto simp: magnet_service_def Let_def split: if_splits)
qed

lemma upload_reply:
  assumes "reply_of s Fresh r" "upload_service md5 acc env q r = Done (r', es)"
    "\<And>f p m. up_error env f p = Some m \<Longrightarrow> int (length m) < 2 ^ 30"
  shows "replied s r'"
proof -
  obtain r1 ok where c: "CheckCreditinals md5 acc q r = (r1, ok)" by force
  have b: "replied s (bad_request [''<BODY><h3>400 Bad Request.</h3>'', ''<h3>Invalid save-path</h3></BODY>''] r)"
    unfolding bad_request_def by (rule parts_reply [OF assms(1)]) simp
  have e: "replied s (server_error [''<BODY><h3>500  Internal Server Error.</h3>'', d] r)"
    if "int (length d) < 2 ^ 31" for d
    unfolding server_error_def using that by (intro parts_reply [OF assms(1)]) simp
  have m: "replied s (server_error [''<BODY><h3>500  Internal Server Error.</h3>'', ''<h3>'' @ m @ ''</h3></BODY>''] r)"
    if "up_error env f p = Some m" for f p m
    using assms(3) [OF that] by (intro e) simp
  have o: "replied s (server_error [''<BODY><h3>500  Internal Server Error.</h3>'',
      ''<h3>Unable to open output file</h3></BODY>''] r)" by (rule e) simp
  show ?thesis
    using checked_reply [OF assms(1) c]
  proof
    assume "ok \<and> r1 = r"
    then show ?thesis
      using assms(2) c b o m web_replies [OF assms(1)]
      by (auto simp: upload_service_def Let_def simp del: append.simps split: if_splits option.splits)
  qed (use assms(2) c in \<open>auto simp: upload_service_def\<close>)
qed

lemma torrents_reply:
  assumes "reply_of s Fresh r" "torrents_service to_json describe st q r = Done r'"
  shows "replied s r'"
  using assms(2) web_replies [OF assms(1)] bad_request_reply [OF assms(1)] assms(1)
  by (auto simp: torrents_service_def rbind_Done split: if_splits option.splits)

lemma settings_reply:
  assumes "reply_of s Fresh r" "settings_service md5 acc cv q r st = Done (r', st')"
  shows "replied s r'"
proof -
  obtain r1 ok where c: "CheckCreditinals md5 acc q r = (r1, ok)" by force
  have g: "replied s r'" if "get_settings cv st r = Done (r', st')"
    using that web_replies(2) [OF assms(1)] by (auto simp: get_settings_def rbind_Done Let_def split: prod.splits)
  have p: "replied s r'" if "put_settings cv st q r = Done (r', st')"
    using that bad_request_reply [OF assms(1)] repliedI [OF assms(1)]
    by (auto simp: put_settings_def rbind_Done Let_def split: if_splits)
  show ?thesis
    using checked_reply [OF assms(1) c] assms(2) c g p web_replies(1) [OF assms(1)]
    by (auto simp: settings_service_def split: if_splits)
qed

text \<open>The requests the interface answers without running into an undefined step.\<close>

definition web_meant :: "'d web_env \<Rightarrow> 'd web_state \<Rightarrow> HttpRequest \<Rightarrow> bool" where
  "web_meant env st q \<longleftrightarrow> \<not> starts_with (getPath q) ''/..'' \<and> (\<forall>r. \<exists>x. web_service env q r st = Done x) \<and>
     (\<forall>f p m. up_error (we_upload env) f p = Some m \<longrightarrow> int (length m) < 2 ^ 30)"

definition web_response :: "'d web_env \<Rightarrow> 'd web_state \<Rightarrow> HttpRequest \<Rightarrow> HttpResponse \<Rightarrow> HttpResponse" where
  "web_response env st q r = (case web_service env q r st of Done (r', _) \<Rightarrow> r' | _ \<Rightarrow> r)"

lemma web_reply:
  assumes "web_meant env st q" "reply_of s Fresh r"
  shows "replied s (web_response env st q r)"
proof -
  obtain r' st' es where w: "web_service env q r st = Done (r', st', es)"
    using assms(1) unfolding web_meant_def by (metis prod_cases3)
  have "\<And>f p m. up_error (we_upload env) f p = Some m \<Longrightarrow> int (length m) < 2 ^ 30"
    using assms(1) by (simp add: web_meant_def)
  note up = upload_reply [OF assms(2) _ this]
  have static: "replied s r'" if "static_service md5 cfg fs now q r c = (c', r')" for md5 cfg fs now c c' r'
  proof -
    have "\<exists>a. reply_of s a (snd (static_service md5 cfg fs now q r c))"
      by (rule static.one_reply [OF _ assms(2)]) (use assms(1) in \<open>simp add: web_meant_def\<close>)
    then show ?thesis unfolding that snd_conv replied_def .
  qed
  have "replied s r'"
    using w
    by (auto simp: web_service_def Let_def rbind_Done split: if_splits prod.splits
        dest: magnet_reply [OF assms(2)] settings_reply [OF assms(2)] torrents_reply [OF assms(2)] up
          commands_reply [OF assms(2)] static)
  then show ?thesis by (simp add: web_response_def w)
qed

interpretation web: request_service "web_response env st" "web_meant env st"
  by unfold_locales (fold replied_def, rule web_reply)

section \<open>Credentials\<close>


definition sample_conversions :: "unit conversions" where
  "sample_conversions =
     \<lparr>cv_int = (\<lambda>_. 0), cv_text = variant_text, cv_bool = (\<lambda>_. False), cv_dec = qs, cv_enc = (\<lambda>_. []),
      cv_double = (\<lambda>_. ()), cv_json = (\<lambda>_. ''[]''), cv_order = sorted_list_of_set\<rparr>"

definition sample_env :: "unit web_env" where
  "sample_env =
     \<lparr>we_md5 = rev, we_static = sample_config\<lparr>sf_account := sample_account\<rparr>, we_files = (\<lambda>_. Missing 0), we_now = 0,
      we_upload = \<lparr>up_dir = ''/app'', up_exists = (\<lambda>_. True), up_writable = (\<lambda>_. True), up_error = (\<lambda>_ _. None)\<rparr>,
      we_describe = (\<lambda>_. []), we_conv = sample_conversions\<rparr>"

definition sample_storage_state :: "bool \<Rightarrow> unit web_state" where
  "sample_storage_state flag =
     \<lparr>ws_requireAuth = flag, ws_storage = append_torrent idle_view 0 (new_storage TORRENT), ws_savePaths = [],
      ws_settings = \<lparr>st_values = [], st_groups = []\<rparr>, ws_cache = []\<rparr>"

text \<open>A request that names the torrent with the hash \<open>A\<close> and has no credentials.\<close>

definition remove_query :: HttpRequest where
  "remove_query = new_request 100 100\<lparr>rq_method := ''POST'', rq_path := ''/torrent/action'',
     rq_parameters := [(''action'', ''remove''), (''id'', ''A'')]\<rparr>"

lemma remove_path: "getPath remove_query = ''/torrent/action''"
  by (simp add: remove_query_def getPath_def urlDecode_def urlDecode_loop.simps indexOf_at_def replace_char_def)


text \<open>
  C34. The commands controller never asks for credentials unless its uninitialised member happens
  to say so. When it does not, no request ever makes it ask, and anyone can pause, resume or remove
  a torrent, whatever the settings; a removal also deletes the downloaded files, because the
  pointer to the manager is passed for the truth value.
\<close>

theorem commands_open_to_all:
  assumes "\<not> ws_requireAuth st"
  shows "(\<forall>q r. web_service env q r st = Fault \<or> web_service env q r st = Loop \<or>
      (\<exists>r' st' es. web_service env q r st = Done (r', st', es) \<and> \<not> ws_requireAuth st')) \<and>
    (\<forall>q r t. \<not> (starts_with (getPath q) ''/torrent/action'' \<and> upper_case (rq_method q) = ''POST'' \<and>
        getParameter q ''action'' = ''remove'' \<and>
        qm_get (ts_map (ws_storage st)) (getParameter q ''id'') = Some (Some t)) \<or>
      web_service env q r st = Done (r, st, [RemoveTorrent t True]))"
proof (intro conjI allI)
  show "web_service env q r st = Fault \<or> web_service env q r st = Loop \<or>
      (\<exists>r' st' es. web_service env q r st = Done (r', st', es) \<and> \<not> ws_requireAuth st')" for q r
  proof (cases "web_service env q r st")
    case (Done x)
    then obtain r' st' es where w: "web_service env q r st = Done (r', st', es)" by (metis prod_cases3)
    then have "\<not> ws_requireAuth st'"
      using assms
      by (auto simp: web_service_def Let_def rbind_Done commands_service_def split: if_splits prod.splits)
    then show ?thesis using w by blast
  qed simp_all
  show "\<not> (starts_with (getPath q) ''/torrent/action'' \<and> upper_case (rq_method q) = ''POST'' \<and>
        getParameter q ''action'' = ''remove'' \<and>
        qm_get (ts_map (ws_storage st)) (getParameter q ''id'') = Some (Some t)) \<or>
      web_service env q r st = Done (r, st, [RemoveTorrent t True])" for q r t
  proof (cases "starts_with (getPath q) ''/torrent/action''")
    case True
    have "\<not> starts_with (getPath q) p" if "p \<in> {''/magnet/api'', ''/settings/api'', ''/torrent/api'', ''/torrent/upload''}" for p
      using True that by (auto simp: starts_with_iff)
    then show ?thesis
      using True assms by (auto simp: web_service_def Let_def commands_service_def command_effects_def
          GetTorrentByInfoHash_def hasTorrent_def qm_contains_def torrent_by_hash_def)
  qed simp
qed

theorem commands_open_to_all_witness:
  "web_service sample_env remove_query (new_response good_socket) (sample_storage_state False) =
     Done (new_response good_socket, sample_storage_state False, [RemoveTorrent 0 True])"
proof -
  have "\<not> ws_requireAuth (sample_storage_state False)" by (simp add: sample_storage_state_def)
  from conjunct2 [OF commands_open_to_all [OF this, of sample_env]]
  have "\<not> (starts_with (getPath remove_query) ''/torrent/action'' \<and> upper_case (rq_method remove_query) = ''POST'' \<and>
        getParameter remove_query ''action'' = ''remove'' \<and>
        qm_get (ts_map (ws_storage (sample_storage_state False))) (getParameter remove_query ''id'') = Some (Some 0)) \<or>
      web_service sample_env remove_query (new_response good_socket) (sample_storage_state False) =
        Done (new_response good_socket, sample_storage_state False, [RemoveTorrent 0 True])" by blast
  moreover have "starts_with (getPath remove_query) ''/torrent/action''" by (simp add: remove_path starts_with_def)
  moreover have "upper_case (rq_method remove_query) = ''POST''" by code_simp
  moreover have "getParameter remove_query ''action'' = ''remove''" "getParameter remove_query ''id'' = ''A''"
    by code_simp+
  moreover have "qm_get (ts_map (ws_storage (sample_storage_state False))) ''A'' = Some (Some 0)" by code_simp
  ultimately show ?thesis by simp
qed

text \<open>
  The list of torrents is given to anyone, and the page numbered zero begins before the list.
\<close>

lemma page_zero_faults:
  assumes "ts_map s \<noteq> []" "upper_case (rq_method q) = ''GET''"
    "getParameter q ''page'' = ''0''" "getParameter q ''pageSize'' = ''1''"
  shows "torrents_service to_json describe s q r = Fault"
proof -
  have n: "string_toInt ''0'' = Some 0" "string_toInt ''1'' = Some 1" by code_simp+
  have "torrents_loop describe s (min (int (storage_count s)) (i32 0)) (i32 (- 1)) = Fault"
    using assms(1) by (subst torrents_loop.simps) (simp add: i32_def torrent_at_def)
  then show ?thesis using assms by (simp add: torrents_service_def n)
qed

end
