(* ===== verification/Sgml.thy ===== *)
theory Sgml
  imports Qt_Bytes Qt_Maps
begin

text \<open>
  The reader of the pages that a search returns: \<open>SGML/QSgml.cpp\<close> and \<open>SGML/QSgmlTag.cpp\<close>.
  A page is a text; what is read is a tree of tags. Positions are those of the text, a negative one
  is the code's \<open>-1\<close> for not found.
\<close>

section \<open>Tags\<close>

datatype TagType =
    eVirtualBeginTag | eVirtualEndTag | eStartTag | eEndTag | eStandalone
  | eDoctype | eCdata | eComment | eStartEmpty | eNoTag

record tag_place =
  StartTagPos :: int
  StartTagLength :: int
  EndTagPos :: int
  EndTagLength :: int

text \<open>The place of a tag is \<open>None\<close> while its members are not set.\<close>

datatype sgml_tag =
  Tag (tg_type: TagType) (tg_name: bytes) (tg_value: bytes) (tg_attributes: "(bytes, bytes) qmap")
    (tg_place: "tag_place option") (tg_children: "sgml_tag list")

text \<open>
  \<open>left\<close> and \<open>mid\<close> of a string: a negative length is the whole rest, a negative position takes its
  distance off the length. \<open>lastIndexOf\<close> of white space.
\<close>

definition qleft :: "bytes \<Rightarrow> int \<Rightarrow> bytes" where
  "qleft s n = (if n < 0 then s else take (nat n) s)"

definition last_space :: "bytes \<Rightarrow> int" where
  "last_space s =
     (let k = length (takeWhile (\<lambda>c. c \<notin> set [CHR '' '', CHR 0x0D, CHR 0x0A, CHR 0x09]) (rev s))
      in if k = length s then - 1 else int (length s - 1 - k))"

section \<open>Names and attributes\<close>

text \<open>The value of an attribute: quotes at either end are cut, an empty one is read out of bounds.\<close>

definition attribute_value :: "bytes \<Rightarrow> bytes run" where
  "attribute_value AtrString =
     (let a = trimmed AtrString in
      if a = [] then Fault
      else if a ! 0 = CHR 0x22 \<or> last a = CHR 0x22 \<or> a ! 0 = CHR 0x27 \<or> last a = CHR 0x27
      then Done (bmid2 a 1 (int (length a) - 2))
      else Done a)"

function attributes_loop ::
  "bytes \<Rightarrow> bytes \<Rightarrow> (bytes, bytes) qmap \<Rightarrow> (bytes, bytes) qmap run" where
  "attributes_loop AttrName AllAtr m =
     (let EndName = indexOf AllAtr (CHR ''='');
          PosQot = indexOf AllAtr (CHR 0x22);
          EndName = (if PosQot < EndName
            then (let iDummy = indexOf_from AllAtr (CHR 0x22) (nat (PosQot + 1))
                  in indexOf_from AllAtr (CHR ''='') (nat (iDummy + 1)))
            else EndName);
          NameString = lower_case AttrName
      in if EndName < 0 then
           rbind (attribute_value AllAtr) (\<lambda>v. Done (qm_insert NameString v m))
         else
           (let StartName = last_space (qleft AllAtr EndName);
                AtrString = qleft AllAtr StartName;
                AttrName = trimmed (bmid2 AllAtr StartName (EndName - StartName))
            in rbind (attribute_value AtrString) (\<lambda>v.
                 attributes_loop AttrName (trimmed (bmid AllAtr (EndName + 1))) (qm_insert NameString v m))))"
  by pat_completeness auto

termination
proof (relation "measure (\<lambda>(n, a, m). length a)", goal_cases)
  case (2 n a m e q e')
  have "indexOf a (CHR ''='') < int (length a)" if "0 \<le> indexOf a (CHR ''='')" for a :: bytes
    using that indexOf_less indexOf_ge0 by metis
  moreover have "indexOf_from a c k < int (length a)" if "0 \<le> indexOf_from a c k" for a :: bytes and c k
    using that indexOf_less [of c "drop k a"] indexOf_ge0 [of "drop k a" c]
    by (auto simp: indexOf_from_def Let_def split: if_splits)
  ultimately have "0 \<le> e' \<and> e' < int (length a)" using 2 by (auto split: if_splits)
  then have "length (bmid a (e' + 1)) < length a" by (auto simp: bmid_def)
  then show ?case using length_trimmed [of "bmid a (e' + 1)"] by simp
qed simp

declare attributes_loop.simps [simp del]

text \<open>The name of a tag and its attributes, from the text between the brackets.\<close>

definition SetNameAttributes :: "bytes \<Rightarrow> (bytes \<times> (bytes, bytes) qmap) run" where
  "SetNameAttributes InnerTag =
     (let s = trimmed InnerTag;
          EndName = indexOf s (CHR '' '');
          Name = lower_case (trimmed (qleft s EndName))
      in if Name = [] then Fault
         else
           (let Name = (if Name ! 0 = CHR ''!'' \<or> Name ! 0 = CHR ''/'' then tl Name else Name);
                AllAtr = trimmed (if EndName < 0 then s else bmid s EndName);
                EndName = indexOf AllAtr (CHR ''='')
            in if EndName < 0 then Done (Name, [])
               else rbind (attributes_loop (trimmed (qleft AllAtr EndName)) (trimmed (bmid AllAtr (EndName + 1))) [])
                      (\<lambda>m. Done (Name, m))))"

definition new_tag :: "TagType \<Rightarrow> bytes \<Rightarrow> sgml_tag run" where
  "new_tag ty inner =
     (if ty \<noteq> eDoctype \<and> ty \<noteq> eCdata \<and> ty \<noteq> eComment
      then rbind (SetNameAttributes inner) (\<lambda>(name, m). Done (Tag ty name [] m None []))
      else Done (Tag ty [] inner [] None []))"

section \<open>Finding brackets\<close>

text \<open>\<open>indexOf\<close> from a position; a negative one counts from the end.\<close>

definition index_from :: "bytes \<Rightarrow> bytes \<Rightarrow> int \<Rightarrow> int" where
  "index_from s p from = indexOf_sub s p (nat (if from < 0 then max 0 (from + int (length s)) else from))"

definition FindStart :: "bytes \<Rightarrow> int \<Rightarrow> int" where
  "FindStart s iPos = index_from s ''<'' iPos"

text \<open>
  The closing bracket outside quotes. An unclosed single quote is read out of bounds; after an
  unclosed double quote the search starts again at the beginning of the text. The fuel is spent one
  step for each position looked at; a search that starts again a second time does so for ever, so
  twice the length and two is enough for every search that ends (\<open>FindEnd_enough\<close>).
\<close>

fun find_end :: "nat \<Rightarrow> bytes \<Rightarrow> int \<Rightarrow> int run" where
  "find_end 0 s i = Loop"
| "find_end (Suc n) s i =
     (if i < int (length s) then
        (if i < 0 then Fault
         else if s ! nat i = CHR ''>'' then Done i
         else if s ! nat i = CHR 0x27 then
           (let j = index_from s [CHR 0x27] (i + 1) in if j < 0 then Fault else find_end n s (j + 1))
         else if s ! nat i = CHR 0x22 then
           (let j = index_from s [CHR 0x22] (i + 1) in find_end n s (j + 1))
         else find_end n s (i + 1))
      else Done (- 1))"

definition FindEnd :: "bytes \<Rightarrow> int \<Rightarrow> int run" where
  "FindEnd s iPos = find_end (2 * length s + 2) s iPos"

definition FindEndComment :: "bytes \<Rightarrow> int \<Rightarrow> int" where
  "FindEndComment s iPos = index_from s ''-->'' iPos"

section \<open>The handlers\<close>

text \<open>
  The state of the reader: the tags that are open, the innermost first and the document last, each
  with the children it has so far, and the three positions.
\<close>

record sgml_state =
  sg_open :: "sgml_tag list"
  sg_start :: int
  sg_end :: int
  sg_pos :: int

definition add_child :: "sgml_tag \<Rightarrow> sgml_tag \<Rightarrow> sgml_tag" where
  "add_child c t = (case t of Tag ty n v m p cs \<Rightarrow> Tag ty n v m p (cs @ [c]))"

definition set_place :: "tag_place \<Rightarrow> sgml_tag \<Rightarrow> sgml_tag" where
  "set_place pl t = (case t of Tag ty n v m p cs \<Rightarrow> Tag ty n v m (Some pl) cs)"

definition whole_place :: "int \<Rightarrow> int \<Rightarrow> tag_place" where
  "whole_place a len = \<lparr>StartTagPos = a, StartTagLength = len, EndTagPos = a, EndTagLength = len\<rparr>"

definition append_last :: "sgml_tag \<Rightarrow> sgml_tag list \<Rightarrow> sgml_tag list" where
  "append_last c open = (case open of [] \<Rightarrow> [] | t # ts \<Rightarrow> add_child c t # ts)"

definition doc_end :: sgml_tag where
  "doc_end = Tag eVirtualEndTag ''endtag'' [] [] None []"

definition HandleCdata :: "bytes \<Rightarrow> sgml_state \<Rightarrow> sgml_state" where
  "HandleCdata s st =
     (let iStart = sg_end st + 1; iEnd = sg_pos st;
          text = trimmed (bmid2 s iStart (iEnd - iStart));
          st = st\<lparr>sg_start := iStart, sg_end := iEnd\<rparr>
      in if text \<noteq> []
         then st\<lparr>sg_open := append_last (Tag eCdata [] text [] (Some (whole_place iStart (iEnd - iStart))) []) (sg_open st)\<rparr>
         else st)"

definition HandleComment :: "bytes \<Rightarrow> sgml_state \<Rightarrow> sgml_state" where
  "HandleComment s st =
     (let iStart = sg_pos st + 4; iEnd = FindEndComment s iStart;
          text = trimmed (bmid2 s iStart (iEnd - iStart));
          tag = Tag eComment [] text [] (Some (whole_place (iStart - 4) (iEnd - iStart + 7))) []
      in st\<lparr>sg_open := append_last tag (sg_open st), sg_start := iStart, sg_end := iEnd + 2, sg_pos := iEnd + 2\<rparr>)"

definition HandleDoctype :: "bytes \<Rightarrow> sgml_state \<Rightarrow> sgml_state run" where
  "HandleDoctype s st =
     (let iStart = sg_pos st in
      rbind (FindEnd s iStart) (\<lambda>iEnd.
        let text = trimmed (bmid2 s (iStart + 2) (iEnd - iStart - 2));
            tag = Tag eDoctype [] text [] (Some (whole_place iStart (iEnd - iStart + 1))) []
        in Done (st\<lparr>sg_open := append_last tag (sg_open st), sg_start := iStart, sg_end := iEnd, sg_pos := iEnd\<rparr>)))"

text \<open>
  An end tag closes the innermost open tag of its name; the tags opened since were standalone and
  give their children to the tag around them.
\<close>

fun close_until :: "bytes \<Rightarrow> sgml_tag list \<Rightarrow> sgml_tag list" where
  "close_until name (t # u # ts) =
     (if tg_name t = name then t # u # ts
      else (case t of Tag ty n v m p cs \<Rightarrow>
        close_until name (fold add_child (Tag eStandalone n v m p [] # cs) u # ts)))"
| "close_until name ts = ts"

definition has_start :: "bytes \<Rightarrow> sgml_tag list \<Rightarrow> bool" where
  "has_start name open = (\<exists>t \<in> set (butlast open). tg_name t = name)"

definition close_tag :: "int \<Rightarrow> int \<Rightarrow> sgml_tag \<Rightarrow> sgml_tag" where
  "close_tag iStart len t =
     (case t of Tag ty n v m p cs \<Rightarrow>
        Tag (if cs = [] then eStartEmpty else ty) n v m
          (map_option (\<lambda>pl. pl\<lparr>EndTagPos := iStart, EndTagLength := len\<rparr>) p) cs)"

definition HandleEndTag :: "bytes \<Rightarrow> sgml_state \<Rightarrow> sgml_state run" where
  "HandleEndTag s st =
     (let iStart = sg_pos st in
      rbind (FindEnd s iStart) (\<lambda>iEnd.
        rbind (SetNameAttributes (trimmed (bmid2 s (iStart + 1) (iEnd - iStart - 1)))) (\<lambda>(name, m).
          let st = st\<lparr>sg_start := iStart, sg_end := iEnd, sg_pos := iEnd\<rparr>
          in if has_start name (sg_open st) then
               (case close_until name (sg_open st) of
                  t # u # ts \<Rightarrow> Done (st\<lparr>sg_open := add_child (close_tag iStart (iEnd - iStart + 1) t) u # ts\<rparr>)
                | _ \<Rightarrow> Fault)
             else Done (st\<lparr>sg_open := append_last doc_end (sg_open st), sg_pos := - 1\<rparr>))))"

definition HandleStartTag :: "bytes \<Rightarrow> sgml_state \<Rightarrow> sgml_state run" where
  "HandleStartTag s st =
     (let iStart = sg_pos st in
      rbind (FindEnd s iStart) (\<lambda>iEnd.
        let text = trimmed (bmid2 s (iStart + 1) (iEnd - iStart - 1));
            st = st\<lparr>sg_start := iStart, sg_end := iEnd, sg_pos := iEnd\<rparr>;
            place = whole_place iStart (iEnd - iStart + 1)
        in if iEnd < 1 then Fault
           else if s ! nat (iEnd - 1) = CHR ''/'' then
             rbind (new_tag eStandalone (qleft text (int (length text) - 1))) (\<lambda>tag.
               Done (st\<lparr>sg_open := append_last (set_place place tag) (sg_open st)\<rparr>))
           else
             rbind (new_tag eStartTag text) (\<lambda>tag. Done (st\<lparr>sg_open := set_place place tag # sg_open st\<rparr>))))"

section \<open>The reader\<close>

text \<open>Inside a script or a style only its own end tag counts.\<close>

definition skip_exception :: "bytes \<Rightarrow> sgml_state \<Rightarrow> sgml_state" where
  "skip_exception s st =
     fold (\<lambda>name st. case sg_open st of
         [] \<Rightarrow> st
       | t # _ \<Rightarrow> if lower_case (tg_name t) = name
                   then st\<lparr>sg_pos := index_from (lower_case s) (''</'' @ name) (sg_pos st) - 1\<rparr> else st)
       [''script'', ''style''] st"

definition char_is :: "bytes \<Rightarrow> int \<Rightarrow> char \<Rightarrow> bool run" where
  "char_is s i c = (if 0 \<le> i \<and> i < int (length s) then Done (s ! nat i = c) else Fault)"

definition handle_tag :: "bytes \<Rightarrow> sgml_state \<Rightarrow> sgml_state run" where
  "handle_tag s st =
     (let i = sg_pos st in
      rbind (char_is s (i + 1) (CHR ''!'')) (\<lambda>bang.
        if bang then
          rbind (char_is s (i + 2) (CHR ''-'')) (\<lambda>d.
            if d then rbind (char_is s (i + 3) (CHR ''-'')) (\<lambda>d.
              if d then Done (HandleComment s st) else HandleDoctype s st)
            else HandleDoctype s st)
        else rbind (char_is s (i + 1) (CHR ''/'')) (\<lambda>slash.
          if slash then HandleEndTag s st else HandleStartTag s st)))"

text \<open>The tags still open are the last children of the ones around them.\<close>

fun collapse :: "sgml_tag list \<Rightarrow> sgml_tag option" where
  "collapse [] = None"
| "collapse [t] = Some t"
| "collapse (t # u # ts) = collapse (add_child t u # ts)"

fun read_tags :: "nat \<Rightarrow> bytes \<Rightarrow> sgml_state \<Rightarrow> sgml_state run" where
  "read_tags 0 s st = Loop"
| "read_tags (Suc n) s st =
     (let st = skip_exception s st;
          st = st\<lparr>sg_pos := FindStart s (sg_pos st)\<rparr>
      in if sg_pos st = - 1 then Done (st\<lparr>sg_open := append_last doc_end (sg_open st)\<rparr>)
         else rbind (handle_tag s (if sg_end st + 1 < sg_pos st then HandleCdata s st else st)) (\<lambda>st.
           if sg_pos st = - 1 then Done st else read_tags n s st))"

text \<open>Two of the positions are not set when the loop begins: \<open>iStart\<close>, \<open>iEnd\<close> are what memory holds.\<close>

definition start_state :: "int \<Rightarrow> int \<Rightarrow> sgml_state" where
  "start_state iStart iEnd =
     \<lparr>sg_open = [Tag eVirtualBeginTag ''doctag'' [] [] None []], sg_start = iStart, sg_end = iEnd, sg_pos = 0\<rparr>"

definition String2Sgml :: "nat \<Rightarrow> int \<Rightarrow> int \<Rightarrow> bytes \<Rightarrow> sgml_tag option run" where
  "String2Sgml fuel iStart iEnd s =
     rbind (read_tags fuel s (start_state iStart iEnd)) (\<lambda>st. Done (collapse (sg_open st)))"

section \<open>Looking up\<close>

text \<open>\<open>getNextElement\<close> walks the tree a parent before its children.\<close>

fun all_tags :: "sgml_tag \<Rightarrow> sgml_tag list" where
  "all_tags (Tag ty n v m p cs) = Tag ty n v m p cs # concat (map all_tags cs)"

text \<open>A lookup stops at the end of the document; without one it walks out of the tree.\<close>

definition get_elements :: "(sgml_tag \<Rightarrow> bool) \<Rightarrow> sgml_tag \<Rightarrow> sgml_tag list run" where
  "get_elements P doc =
     (let ts = all_tags doc; seen = takeWhile (\<lambda>t. tg_type t \<noteq> eVirtualEndTag) ts
      in if length seen = length ts then Fault else Done (filter P seen))"

definition getElementsByName :: "bytes \<Rightarrow> sgml_tag \<Rightarrow> sgml_tag list run" where
  "getElementsByName name = get_elements (\<lambda>t. tg_name t = lower_case name)"

definition hasAttribute :: "bytes \<Rightarrow> sgml_tag \<Rightarrow> bool" where
  "hasAttribute k t = qm_contains (tg_attributes t) k"

text \<open>With an attribute the name is compared as it is given.\<close>

definition getElementsByNameAtr :: "bytes \<Rightarrow> bytes \<Rightarrow> sgml_tag \<Rightarrow> sgml_tag list run" where
  "getElementsByNameAtr name k = get_elements (\<lambda>t. tg_name t = name \<and> hasAttribute k t)"

definition getElementsByNameAtrValue :: "bytes \<Rightarrow> bytes \<Rightarrow> bytes \<Rightarrow> sgml_tag \<Rightarrow> sgml_tag list run" where
  "getElementsByNameAtrValue name k v =
     get_elements (\<lambda>t. tg_name t = name \<and> hasAttribute k t \<and> qm_value [] (tg_attributes t) k = v)"

definition getElementsByAtribute :: "bytes \<Rightarrow> sgml_tag \<Rightarrow> sgml_tag list run" where
  "getElementsByAtribute k = get_elements (hasAttribute k)"

definition getElementsByAtributeValue :: "bytes \<Rightarrow> bytes \<Rightarrow> sgml_tag \<Rightarrow> sgml_tag list run" where
  "getElementsByAtributeValue k v = get_elements (\<lambda>t. qm_get (tg_attributes t) k = Some v)"

definition getInnerText :: "bytes \<Rightarrow> sgml_tag \<Rightarrow> bytes run" where
  "getInnerText s t =
     (if tg_type t = eStandalone then Done []
      else case tg_place t of None \<Rightarrow> Fault
        | Some p \<Rightarrow>
            if 0 < StartTagPos p \<and> 0 < EndTagPos p
            then Done (bmid2 s (StartTagPos p + StartTagLength p) (EndTagPos p - StartTagPos p - StartTagLength p))
            else Done [])"

section \<open>Searching\<close>

lemma index_sub_single: "index_sub [c] s = (if c \<in> set s then Some (length (takeWhile (\<lambda>x. x \<noteq> c) s)) else None)"
  by (induction s) (auto simp: starts_with_def)

lemma index_from_single:
  assumes "c \<notin> set xs"
  shows "index_from (pre @ xs @ c # ys) [c] (int (length pre)) = int (length pre + length xs)"
proof -
  have "takeWhile (\<lambda>x. x \<noteq> c) (xs @ c # ys) = xs" using assms by (induction xs) auto
  then show ?thesis by (simp add: index_from_def indexOf_sub_def index_sub_single)
qed

text \<open>The text of a tag: no bracket outside quotes and every quote closed.\<close>

function quotes_ok :: "bytes \<Rightarrow> bool" where
  "quotes_ok [] = True"
| "quotes_ok (c # cs) =
     (c \<noteq> CHR ''>'' \<and>
      (if c = CHR 0x27 \<or> c = CHR 0x22
       then c \<in> set cs \<and> quotes_ok (tl (dropWhile (\<lambda>x. x \<noteq> c) cs)) else quotes_ok cs))"
  by pat_completeness auto

termination
proof (relation "measure length", goal_cases)
  case (2 c cs)
  have "length (dropWhile (\<lambda>x. x \<noteq> c) cs) \<le> length cs" by (rule length_dropWhile_le)
  then show ?case by simp
qed simp_all

lemma find_end_ok:
  "quotes_ok inner \<Longrightarrow> length inner < n \<Longrightarrow>
   find_end n (pre @ inner @ CHR ''>'' # post) (int (length pre)) = Done (int (length pre + length inner))"
proof (induction inner arbitrary: pre n rule: quotes_ok.induct)
  case 1
  then show ?case by (cases n) (simp_all add: nth_append)
next
  case (2 c cs)
  obtain n' where n: "n = Suc n'" "length cs < n'" using 2(4) by (cases n) auto
  let ?s = "pre @ (c # cs) @ CHR ''>'' # post"
  have at: "?s ! nat (int (length pre)) = c" by (simp add: nth_append)
  have c: "c \<noteq> CHR ''>''" using 2(3) by simp
  show ?case
  proof (cases "c = CHR 0x27 \<or> c = CHR 0x22")
    case True
    then have "c \<in> set cs" "quotes_ok (tl (dropWhile (\<lambda>x. x \<noteq> c) cs))" using 2(3) by auto
    then obtain xs ys where cs: "cs = xs @ c # ys" "c \<notin> set xs" by (meson split_list_first)
    have "dropWhile (\<lambda>x. x \<noteq> c) (xs @ c # ys) = c # ys" using cs(2) by (induction xs) auto
    then have ys: "quotes_ok ys" "tl (dropWhile (\<lambda>x. x \<noteq> c) cs) = ys"
      using \<open>quotes_ok (tl _)\<close> by (simp_all add: cs(1))
    have s: "?s = (pre @ [c]) @ xs @ c # (ys @ CHR ''>'' # post)" by (simp add: cs(1))
    have j: "index_from ?s [c] (int (length pre) + 1) = int (length pre + 1 + length xs)"
      unfolding s using index_from_single [OF cs(2), of "pre @ [c]" "ys @ CHR ''>'' # post"]
      by (simp add: add.commute)
    have "find_end n' ((pre @ c # xs @ [c]) @ ys @ CHR ''>'' # post) (int (length (pre @ c # xs @ [c]))) =
        Done (int (length (pre @ c # xs @ [c]) + length ys))"
      using 2(1) [OF True, unfolded ys(2), of n' "pre @ c # xs @ [c]"] ys(1) n(2) by (simp add: cs(1))
    then have "find_end n' ?s (int (length pre) + 1 + int (length xs) + 1) = Done (int (length pre + length (c # cs)))"
      unfolding s by (simp add: cs(1) algebra_simps)
    then show ?thesis using True c j at n(1) by (auto simp: Let_def algebra_simps)
  next
    case False
    have "find_end n' ((pre @ [c]) @ cs @ CHR ''>'' # post) (int (length (pre @ [c]))) =
        Done (int (length (pre @ [c]) + length cs))"
      using 2(2) [OF False, of n' "pre @ [c]"] 2(3) False n(2) by simp
    then show ?thesis using False c at n(1) by (simp add: algebra_simps)
  qed
qed

lemma FindEnd_tag:
  assumes "quotes_ok inner"
  shows "FindEnd (pre @ inner @ CHR ''>'' # post) (int (length pre)) = Done (int (length pre + length inner))"
  unfolding FindEnd_def by (rule find_end_ok [OF assms]) simp

text \<open>
  The fuel of a search is enough: within one pass over the text it ends or starts again at the
  beginning, and a search that comes back to the beginning does so for ever.
\<close>

lemma index_from_bounds: "0 \<le> k \<Longrightarrow> index_from s [c] k = - 1 \<or> k \<le> index_from s [c] k \<and> index_from s [c] k < int (length s)"
  using length_takeWhile_less [where P = "\<lambda>x. x \<noteq> c" and xs = "drop (nat k) s"]
  by (auto simp: index_from_def indexOf_sub_def index_sub_single split: if_splits)

definition pass_ends :: "bytes \<Rightarrow> nat \<Rightarrow> bool" where
  "pass_ends s i = (\<exists>r. r \<noteq> Loop \<and> (\<forall>n > length s - i. find_end n s (int i) = r))"

definition pass_returns :: "bytes \<Rightarrow> nat \<Rightarrow> bool" where
  "pass_returns s i = (\<exists>m. m \<le> length s - i \<and> (\<forall>n. find_end (Suc m + n) s (int i) = find_end n s 0))"

lemma pass_step:
  assumes "i < j" "j \<le> length s" "\<And>n. find_end (Suc n) s (int i) = find_end n s (int j)"
    and "pass_ends s j \<or> pass_returns s j"
  shows "pass_ends s i \<or> pass_returns s i"
  using assms(4)
proof
  assume "pass_ends s j"
  then obtain r where r: "r \<noteq> Loop" "\<forall>n > length s - j. find_end n s (int j) = r" by (auto simp: pass_ends_def)
  have "find_end n s (int i) = r" if n: "length s - i < n" for n
  proof (cases n)
    case (Suc n')
    then show ?thesis using r(2) assms(1,2) n by (simp add: assms(3) del: find_end.simps)
  qed (use n in simp)
  then show ?thesis using r(1) by (auto simp: pass_ends_def)
next
  assume "pass_returns s j"
  then obtain m where m: "m \<le> length s - j" "\<forall>n. find_end (Suc m + n) s (int j) = find_end n s 0"
    by (auto simp: pass_returns_def)
  have "find_end (Suc (Suc m) + n) s (int i) = find_end n s 0" for n
    using m(2) assms(3) [of "Suc m + n"] by simp
  moreover have "Suc m \<le> length s - i" using m(1) assms(1,2) by simp
  ultimately show ?thesis unfolding pass_returns_def by blast
qed

lemma one_pass: "i \<le> length s \<Longrightarrow> pass_ends s i \<or> pass_returns s i"
proof (induction "length s - i" arbitrary: i rule: less_induct)
  case less
  have step: "pass_ends s i \<or> pass_returns s i"
    if "i < j" "j \<le> length s" "\<And>n. find_end (Suc n) s (int i) = find_end n s (int j)" for j
    by (rule pass_step [OF that]) (use less that(1,2) in simp)
  have ends: "pass_ends s i" if "\<And>n. find_end (Suc n) s (int i) = r" "r \<noteq> Loop" for r
    unfolding pass_ends_def using that by (intro exI [of _ r]) (metis gr0_implies_Suc gr_zeroI not_less_zero)
  show ?case
  proof (cases "i < length s")
    case False
    then show ?thesis using ends [of "Done (- 1)"] by simp
  next
    case i: True
    consider "s ! i = CHR ''>''" | "s ! i = CHR 0x27" | "s ! i = CHR 0x22"
      | "s ! i \<notin> set [CHR ''>'', CHR 0x27, CHR 0x22]" by auto
    then show ?thesis
    proof cases
      case 1
      then show ?thesis using ends [of "Done (int i)"] i by simp
    next
      case 2
      let ?j = "index_from s [CHR 0x27] (int i + 1)"
      show ?thesis
      proof (cases "?j < 0")
        case True
        then show ?thesis using ends [of Fault] i 2 by simp
      next
        case False
        then have b: "int i + 1 \<le> ?j" "?j < int (length s)" using index_from_bounds [of "int i + 1" s "CHR 0x27"] by auto
        then have "i < nat (?j + 1)" "nat (?j + 1) \<le> length s" by arith+
        then show ?thesis by (rule step) (use i 2 b in simp)
      qed
    next
      case 3
      let ?j = "index_from s [CHR 0x22] (int i + 1)"
      show ?thesis
      proof (cases "?j < 0")
        case True
        then have "?j = - 1" using index_from_bounds [of "int i + 1" s "CHR 0x22"] by simp
        then have "find_end (Suc n) s (int i) = find_end n s 0" for n using i 3 by simp
        then have "pass_returns s i" unfolding pass_returns_def by (intro exI [of _ 0]) simp
        then show ?thesis ..
      next
        case False
        then have b: "int i + 1 \<le> ?j" "?j < int (length s)" using index_from_bounds [of "int i + 1" s "CHR 0x22"] by auto
        then have "i < nat (?j + 1)" "nat (?j + 1) \<le> length s" by arith+
        then show ?thesis by (rule step) (use i 3 b in simp)
      qed
    next
      case 4
      then show ?thesis using step [of "i + 1"] i by (simp add: add.commute)
    qed
  qed
qed

lemma find_end_more: "find_end n s i \<noteq> Loop \<Longrightarrow> find_end (n + k) s i = find_end n s i"
  by (induction n s i rule: find_end.induct) (auto simp: Let_def)

lemma find_end_reaches: "find_end n s i \<noteq> Loop \<Longrightarrow> n \<le> k \<Longrightarrow> find_end k s i = find_end n s i"
  using find_end_more [of n s i "k - n"] by simp

lemma returns_for_ever:
  assumes "pass_returns s 0"
  shows "find_end n s 0 = Loop"
proof -
  obtain m where m: "\<And>n. find_end (Suc m + n) s 0 = find_end n s 0" using assms by (auto simp: pass_returns_def)
  have "find_end (q * Suc m) s 0 = Loop" for q
  proof (induction q)
    case (Suc q)
    then show ?case unfolding mult_Suc m .
  qed simp
  then show ?thesis using find_end_reaches [of n s 0 "n * Suc m"] by fastforce
qed

lemma FindEnd_enough:
  assumes "find_end n s (int i) \<noteq> Loop" "i \<le> length s"
  shows "FindEnd s (int i) = find_end n s (int i)"
proof -
  have ended: "find_end k s (int j) = find_end n s (int j)"
    if e: "pass_ends s j" "find_end n s (int j) \<noteq> Loop" "length s - j < k" for j k
  proof -
    obtain r where r: "\<forall>n > length s - j. find_end n s (int j) = r" using e(1) by (auto simp: pass_ends_def)
    moreover have "length s - j < n + Suc (length s - j)" by simp
    ultimately have "find_end (n + Suc (length s - j)) s (int j) = r" by blast
    then show ?thesis using r e(3) find_end_more [OF e(2)] by metis
  qed
  show ?thesis
  proof (cases "pass_ends s i")
    case True
    then show ?thesis unfolding FindEnd_def by (rule ended) (use assms in simp_all)
  next
    case False
    then obtain m where m: "m \<le> length s - i" "\<And>n. find_end (Suc m + n) s (int i) = find_end n s 0"
      using one_pass [OF assms(2)] by (auto simp: pass_returns_def)
    have n: "find_end n s 0 = find_end n s (int i)"
      using m(2) [of n] find_end_more [OF assms(1), of "Suc m"] by (simp add: add.commute)
    then have "pass_ends s 0" using returns_for_ever [of s n] one_pass [of 0 s] assms(1) by auto
    have "FindEnd s (int i) = find_end (2 * length s + 1 - m) s 0"
      using m(2) [of "2 * length s + 1 - m"] m(1) by (simp add: FindEnd_def del: find_end.simps)
    also have "\<dots> = find_end n s 0"
      using ended [OF \<open>pass_ends s 0\<close>, of "2 * length s + 1 - m"] n assms(1) m(1) by simp
    finally show ?thesis by (simp add: n)
  qed
qed

section \<open>Pages\<close>

text \<open>
  A page is a list of elements: the text before the start tag, what the start tag holds, the elements
  inside and the text before the end tag. The parts of a tag are those the reader of names gives.
\<close>

datatype html = Elem (el_lead: bytes) (el_inner: bytes) (el_kids: "html list") (el_trail: bytes)

definition elem_name :: "bytes \<Rightarrow> bytes" where
  "elem_name inner = (case SetNameAttributes (trimmed inner) of Done (name, m) \<Rightarrow> name | _ \<Rightarrow> [])"

definition elem_attributes :: "bytes \<Rightarrow> (bytes, bytes) qmap" where
  "elem_attributes inner = (case SetNameAttributes (trimmed inner) of Done (name, m) \<Rightarrow> m | _ \<Rightarrow> [])"

definition tag_exception :: "bytes \<Rightarrow> bool" where
  "tag_exception name = (lower_case name = ''script'' \<or> lower_case name = ''style'')"

definition end_tag_text :: "bytes \<Rightarrow> bytes" where
  "end_tag_text inner = CHR ''/'' # elem_name inner"

definition tag_text_ok :: "bytes \<Rightarrow> bool" where
  "tag_text_ok inner =
     (inner \<noteq> [] \<and> hd inner \<noteq> CHR ''!'' \<and> hd inner \<noteq> CHR ''/'' \<and> last inner \<noteq> CHR ''/'' \<and> quotes_ok inner \<and>
      SetNameAttributes (trimmed inner) = Done (elem_name inner, elem_attributes inner) \<and>
      \<not> tag_exception (elem_name inner) \<and> quotes_ok (elem_name inner) \<and>
      SetNameAttributes (trimmed (end_tag_text inner)) = Done (elem_name inner, []))"

fun html_ok :: "html \<Rightarrow> bool" where
  "html_ok (Elem lead inner kids trail) =
     (CHR ''<'' \<notin> set lead \<and> CHR ''<'' \<notin> set trail \<and> tag_text_ok inner \<and> list_all html_ok kids)"

fun html_text :: "html \<Rightarrow> bytes" where
  "html_text (Elem lead inner kids trail) =
     lead @ CHR ''<'' # inner @ CHR ''>'' # concat (map html_text kids) @ trail @
       CHR ''<'' # end_tag_text inner @ [CHR ''>'']"

text \<open>The tags it stands for; text is kept, without white space at its ends, where there is any.\<close>

definition cdata :: "nat \<Rightarrow> bytes \<Rightarrow> sgml_tag list" where
  "cdata k text =
     (if trimmed text = [] then []
      else [Tag eCdata [] (trimmed text) [] (Some (whole_place (int k) (int (length text)))) []])"

fun html_tags :: "nat \<Rightarrow> html \<Rightarrow> sgml_tag list" and forest_tags :: "nat \<Rightarrow> html list \<Rightarrow> sgml_tag list" where
  "html_tags k (Elem lead inner kids trail) =
     (let i = k + length lead;
          i' = i + length inner + 2;
          j = i' + length (concat (map html_text kids));
          cs = forest_tags i' kids @ cdata j trail
      in cdata k lead @
         [Tag (if cs = [] then eStartEmpty else eStartTag) (elem_name inner) [] (elem_attributes inner)
           (Some \<lparr>StartTagPos = int i, StartTagLength = int (length inner + 2),
                  EndTagPos = int (j + length trail), EndTagLength = int (length (end_tag_text inner) + 2)\<rparr>) cs])"
| "forest_tags k [] = []"
| "forest_tags k (h # hs) = html_tags k h @ forest_tags (k + length (html_text h)) hs"

fun html_steps :: "html \<Rightarrow> nat" where
  "html_steps (Elem lead inner kids trail) = 2 + sum_list (map html_steps kids)"

section \<open>One round of the reader\<close>

lemma bmid2_part: "bmid2 (pre @ xs @ post) (int (length pre)) (int (length xs)) = xs"
  by (simp add: bmid2_def)

lemma char_is_at: "char_is (pre @ x # post) (int (length pre)) c = Done (x = c)"
  by (simp add: char_is_def)

lemma FindStart_next:
  assumes "CHR ''<'' \<notin> set xs"
  shows "FindStart (pre @ xs @ CHR ''<'' # ys) (int (length pre)) = int (length pre + length xs)"
  unfolding FindStart_def by (rule index_from_single [OF assms])

lemma FindStart_none:
  assumes "CHR ''<'' \<notin> set xs"
  shows "FindStart (pre @ xs) (int (length pre)) = - 1"
  using assms by (simp add: FindStart_def index_from_def indexOf_sub_def index_sub_single)

lemma gap_cdata:
  assumes "sg_open st = Tag ty nm v m p ks # ts" "sg_pos st = int (length pre + length lead)"
    and e: "sg_end st + 1 = int (length pre) \<or> pre = [] \<and> lead = []"
  shows "sg_open (if sg_end st + 1 < sg_pos st then HandleCdata (pre @ lead @ rest) st else st) =
      Tag ty nm v m p (ks @ cdata (length pre) lead) # ts"
  using e
proof
  assume e: "sg_end st + 1 = int (length pre)"
  have cut: "bmid2 (pre @ lead @ rest) (sg_end st + 1) (sg_pos st - (sg_end st + 1)) = lead"
    using bmid2_part [of pre lead rest] e assms(2) by simp
  have nil: "trimmed [] = []" by (simp add: trimmed_def ltrim_def)
  show ?thesis using assms(1,2) e cut nil
    by (cases "lead = []") (simp_all add: HandleCdata_def Let_def cdata_def append_last_def add_child_def)
next
  assume "pre = [] \<and> lead = []"
  then show ?thesis using assms(1,2)
    by (simp add: HandleCdata_def Let_def cdata_def bmid2_def trimmed_def ltrim_def)
qed

lemma HandleCdata_pos: "sg_pos (HandleCdata s st) = sg_pos st"
  by (simp add: HandleCdata_def Let_def)

lemma read_step:
  assumes "sg_open st = Tag ty nm v m p ks # ts" "\<not> tag_exception nm" "FindStart s (sg_pos st) = int i"
  shows "read_tags (Suc n) s st =
    rbind (handle_tag s (let st = st\<lparr>sg_pos := int i\<rparr> in if sg_end st + 1 < sg_pos st then HandleCdata s st else st))
      (\<lambda>st. if sg_pos st = - 1 then Done st else read_tags n s st)"
proof -
  have "skip_exception s st = st" using assms(1,2) by (simp add: skip_exception_def tag_exception_def)
  then show ?thesis using assms(3) by (simp add: Let_def)
qed

lemma read_last:
  assumes "sg_open st = Tag ty nm v m p ks # ts" "\<not> tag_exception nm" "FindStart s (sg_pos st) = - 1"
  shows "\<exists>st'. read_tags (Suc n) s st = Done st' \<and> sg_open st' = Tag ty nm v m p (ks @ [doc_end]) # ts"
proof -
  have "skip_exception s st = st" using assms(1,2) by (simp add: skip_exception_def tag_exception_def)
  then show ?thesis using assms(1,3) by (simp add: Let_def append_last_def add_child_def)
qed

declare read_tags.simps(2) [simp del]

lemma handle_start:
  assumes s: "s = pre @ CHR ''<'' # inner @ CHR ''>'' # post" and ok: "tag_text_ok inner"
    and pos: "sg_pos st = int (length pre)"
  shows "handle_tag s st = Done
    \<lparr>sg_open = Tag eStartTag (elem_name inner) [] (elem_attributes inner)
        (Some (whole_place (int (length pre)) (int (length inner + 2)))) [] # sg_open st,
     sg_start = int (length pre), sg_end = int (length pre + length inner + 1),
     sg_pos = int (length pre + length inner + 1)\<rparr>"
proof -
  let ?i = "int (length pre)"
  obtain c cs where inner: "inner = c # cs" "c \<noteq> CHR ''!''" "c \<noteq> CHR ''/''"
    using ok by (cases inner) (auto simp: tag_text_ok_def)
  have c: "char_is s (?i + 1) x = Done (c = x)" for x
    using char_is_at [of "pre @ [CHR ''<'']" c "cs @ CHR ''>'' # post" x] by (simp add: s inner add.commute)
  have "quotes_ok (CHR ''<'' # inner)" using ok by (simp add: tag_text_ok_def)
  from FindEnd_tag [OF this, of pre post]
  have e: "FindEnd s ?i = Done (?i + int (length inner) + 1)" by (simp add: s add.commute)
  have cut: "bmid2 s (?i + 1) (int (length inner)) = inner"
    using bmid2_part [of "pre @ [CHR ''<'']" inner "CHR ''>'' # post"] by (simp add: s add.commute)
  have "s ! (length pre + length inner) = last inner"
    by (simp add: s nth_append last_conv_nth inner(1))
  then have l: "s ! nat (?i + int (length inner)) \<noteq> CHR ''/''"
    using ok by (simp add: tag_text_ok_def nat_add_distrib)
  have t: "new_tag eStartTag (trimmed inner) = Done (Tag eStartTag (elem_name inner) [] (elem_attributes inner) None [])"
    using ok by (simp add: new_tag_def tag_text_ok_def)
  have "0 < length inner" by (simp add: inner(1))
  then have "handle_tag s st = HandleStartTag s st" using inner(2,3) by (simp add: handle_tag_def Let_def pos c)
  moreover have "HandleStartTag s st = Done
    (st\<lparr>sg_start := ?i, sg_end := ?i + int (length inner) + 1, sg_pos := ?i + int (length inner) + 1,
       sg_open := set_place (whole_place ?i (?i + int (length inner) + 1 - ?i + 1))
         (Tag eStartTag (elem_name inner) [] (elem_attributes inner) None []) # sg_open st\<rparr>)"
    using l \<open>0 < length inner\<close> by (simp add: HandleStartTag_def Let_def pos e cut t)
  ultimately show ?thesis by (simp add: set_place_def add.commute)
qed

lemma handle_end:
  assumes s: "s = pre @ CHR ''<'' # end_tag_text inner @ CHR ''>'' # post" and ok: "tag_text_ok inner"
    and pos: "sg_pos st = int (length pre)"
    and opened: "sg_open st = Tag ty (elem_name inner) v m (Some (whole_place a b)) cs # Tag ty' nm' v' m' p' ks # ts"
  shows "handle_tag s st = Done
    \<lparr>sg_open = Tag ty' nm' v' m' p' (ks @ [Tag (if cs = [] then eStartEmpty else ty) (elem_name inner) v m
        (Some \<lparr>StartTagPos = a, StartTagLength = b, EndTagPos = int (length pre),
               EndTagLength = int (length (end_tag_text inner) + 2)\<rparr>) cs]) # ts,
     sg_start = int (length pre), sg_end = int (length pre + length (end_tag_text inner) + 1),
     sg_pos = int (length pre + length (end_tag_text inner) + 1)\<rparr>"
proof -
  let ?i = "int (length pre)" and ?t = "end_tag_text inner"
  have c: "char_is s (?i + 1) x = Done (CHR ''/'' = x)" for x
    using char_is_at [of "pre @ [CHR ''<'']" "CHR ''/''" "elem_name inner @ CHR ''>'' # post" x]
    by (simp add: s end_tag_text_def add.commute)
  have "quotes_ok (CHR ''<'' # ?t)" using ok by (simp add: tag_text_ok_def end_tag_text_def)
  from FindEnd_tag [OF this, of pre post]
  have e: "FindEnd s ?i = Done (?i + int (length ?t) + 1)" by (simp add: s add.commute)
  have cut: "bmid2 s (?i + 1) (int (length ?t)) = ?t"
    using bmid2_part [of "pre @ [CHR ''<'']" ?t "CHR ''>'' # post"] by (simp add: s add.commute)
  have n: "SetNameAttributes (trimmed ?t) = Done (elem_name inner, [])" using ok by (simp add: tag_text_ok_def)
  have "handle_tag s st = HandleEndTag s st" by (simp add: handle_tag_def Let_def pos c)
  moreover have "HandleEndTag s st = Done
    (st\<lparr>sg_start := ?i, sg_end := ?i + int (length ?t) + 1, sg_pos := ?i + int (length ?t) + 1,
       sg_open := add_child (close_tag ?i (?i + int (length ?t) + 1 - ?i + 1)
         (Tag ty (elem_name inner) v m (Some (whole_place a b)) cs)) (Tag ty' nm' v' m' p' ks) # ts\<rparr>)"
    using opened by (simp add: HandleEndTag_def Let_def pos e cut n has_start_def)
  ultimately show ?thesis by (simp add: add_child_def close_tag_def whole_place_def add.commute)
qed

text \<open>The state between two rounds, behind the bracket that was read last.\<close>

definition settled :: "sgml_tag list \<Rightarrow> int \<Rightarrow> nat \<Rightarrow> sgml_state" where
  "settled open a k = \<lparr>sg_open = open, sg_start = a, sg_end = int k - 1, sg_pos = int k - 1\<rparr>"

lemma settled_simps [simp]:
  "sg_open (settled open a k) = open" "sg_end (settled open a k) = int k - 1" "sg_pos (settled open a k) = int k - 1"
  by (simp_all add: settled_def)

lemma settled_next:
  assumes "CHR ''<'' \<notin> set lead"
  shows "FindStart ((pre @ [CHR ''>'']) @ lead @ CHR ''<'' # ys) (int (length (pre @ [CHR ''>''])) - 1) =
    int (length (pre @ [CHR ''>'']) + length lead)"
  using FindStart_next [of "CHR ''>'' # lead" pre ys] assms by simp

lemma round_start:
  assumes s: "s = pre @ lead @ CHR ''<'' # inner @ CHR ''>'' # post" and ok: "tag_text_ok inner"
    and opened: "sg_open st = Tag ty nm v m p ks # ts" "\<not> tag_exception nm"
    and found: "FindStart s (sg_pos st) = int (length pre + length lead)"
    and e: "sg_end st + 1 = int (length pre) \<or> pre = [] \<and> lead = []"
  shows "read_tags (Suc n) s st = read_tags n s
    (settled (Tag eStartTag (elem_name inner) [] (elem_attributes inner)
        (Some (whole_place (int (length pre + length lead)) (int (length inner + 2)))) [] #
        Tag ty nm v m p (ks @ cdata (length pre) lead) # ts)
      (int (length pre + length lead)) (length pre + length lead + length inner + 2))"
proof -
  let ?st = "st\<lparr>sg_pos := int (length pre + length lead)\<rparr>"
  let ?g = "if sg_end ?st + 1 < sg_pos ?st then HandleCdata s ?st else ?st"
  have g: "sg_open ?g = Tag ty nm v m p (ks @ cdata (length pre) lead) # ts"
    unfolding s by (rule gap_cdata) (use opened(1) e in simp_all)
  have p: "sg_pos ?g = int (length (pre @ lead))" by (simp add: HandleCdata_pos)
  have "s = (pre @ lead) @ CHR ''<'' # inner @ CHR ''>'' # post" by (simp add: s)
  from handle_start [OF this ok p] show ?thesis
    unfolding read_step [OF opened found] Let_def g by (simp add: settled_def add.commute add.left_commute)
qed

lemma round_end:
  assumes s: "s = pre @ trail @ CHR ''<'' # end_tag_text inner @ CHR ''>'' # post" and ok: "tag_text_ok inner"
    and opened: "sg_open st = Tag ty (elem_name inner) v m (Some (whole_place a b)) cs # Tag ty' nm' v' m' p' ks # ts"
    and found: "FindStart s (sg_pos st) = int (length pre + length trail)"
    and e: "sg_end st + 1 = int (length pre)"
  shows "read_tags (Suc n) s st = read_tags n s
    (settled (Tag ty' nm' v' m' p' (ks @
        [Tag (if cs @ cdata (length pre) trail = [] then eStartEmpty else ty) (elem_name inner) v m
          (Some \<lparr>StartTagPos = a, StartTagLength = b, EndTagPos = int (length pre + length trail),
                 EndTagLength = int (length (end_tag_text inner) + 2)\<rparr>) (cs @ cdata (length pre) trail)]) # ts)
      (int (length pre + length trail)) (length pre + length trail + length (end_tag_text inner) + 2))"
proof -
  let ?st = "st\<lparr>sg_pos := int (length pre + length trail)\<rparr>"
  let ?g = "if sg_end ?st + 1 < sg_pos ?st then HandleCdata s ?st else ?st"
  have n: "\<not> tag_exception (elem_name inner)" using ok by (simp add: tag_text_ok_def)
  have g: "sg_open ?g = Tag ty (elem_name inner) v m (Some (whole_place a b)) (cs @ cdata (length pre) trail) #
      Tag ty' nm' v' m' p' ks # ts"
    unfolding s by (rule gap_cdata) (use opened e in simp_all)
  have p: "sg_pos ?g = int (length (pre @ trail))" by (simp add: HandleCdata_pos)
  have "s = (pre @ trail) @ CHR ''<'' # end_tag_text inner @ CHR ''>'' # post" by (simp add: s)
  from handle_end [OF this ok p g] show ?thesis
    unfolding read_step [OF opened n found] Let_def by (simp add: settled_def add.commute add.left_commute)
qed

section \<open>Reading a page\<close>

lemma html_text_last: "\<exists>x. html_text h = x @ [CHR ''>'']"
  by (cases h) (auto intro: exI [of _ "_ @ _"])

lemma forest_text_last: "\<exists>x. (y @ [CHR ''>'']) @ concat (map html_text hs) = x @ [CHR ''>'']"
proof (induction hs rule: rev_induct)
  case (snoc h hs)
  then show ?case using html_text_last [of h] by (metis append.assoc concat.simps concat_append list.map map_append append_Nil2)
qed simp

lemma forest_read:
  "length pre = k \<Longrightarrow> html_ok h \<Longrightarrow> \<not> tag_exception nm \<Longrightarrow> sg_open st = Tag ty nm v m p ks # ts \<Longrightarrow>
   FindStart (pre @ html_text h @ post) (sg_pos st) = int (k + length (el_lead h)) \<Longrightarrow>
   sg_end st + 1 = int k \<or> pre = [] \<and> el_lead h = [] \<Longrightarrow>
   \<exists>a. read_tags (html_steps h + n) (pre @ html_text h @ post) st =
       read_tags n (pre @ html_text h @ post)
         (settled (Tag ty nm v m p (ks @ html_tags k h) # ts) a (k + length (html_text h)))"
  "length pre = k \<Longrightarrow> list_all html_ok hs \<Longrightarrow> \<not> tag_exception nm \<Longrightarrow> pre = pre' @ [CHR ''>''] \<Longrightarrow>
   \<exists>a. read_tags (sum_list (map html_steps hs) + n) (pre @ concat (map html_text hs) @ post)
         (settled (Tag ty nm v m p ks # ts) a0 k) =
       read_tags n (pre @ concat (map html_text hs) @ post)
         (settled (Tag ty nm v m p (ks @ forest_tags k hs) # ts) a (k + length (concat (map html_text hs))))"
proof (induction k h and k hs arbitrary: pre post n ty nm v m p ks ts st and pre pre' post n ty nm v m p ks ts a0
    rule: html_tags_forest_tags.induct)
  case (1 k lead inner kids trail)
  let ?body = "concat (map html_text kids)" and ?closing = "CHR ''<'' # end_tag_text inner @ [CHR ''>''] @ post"
  let ?s = "pre @ html_text (Elem lead inner kids trail) @ post"
  let ?pre1 = "pre @ lead @ CHR ''<'' # inner @ [CHR ''>'']"
  let ?k1 = "k + length lead + length inner + 2"
  let ?place = "whole_place (int (k + length lead)) (int (length inner + 2))"
  let ?around = "Tag ty nm v m p (ks @ cdata k lead) # ts"
  let ?open = "Tag eStartTag (elem_name inner) [] (elem_attributes inner) (Some ?place) [] # ?around"
  have ok: "tag_text_ok inner" "list_all html_ok kids" "CHR ''<'' \<notin> set trail" using 1 by simp_all
  have kind: "\<not> tag_exception (elem_name inner)" using ok(1) by (simp add: tag_text_ok_def)
  have s: "?s = pre @ lead @ CHR ''<'' # inner @ CHR ''>'' # (?body @ trail @ ?closing)" by simp
  have "read_tags (Suc (sum_list (map html_steps kids) + Suc n)) ?s st =
      read_tags (sum_list (map html_steps kids) + Suc n) ?s (settled ?open (int (k + length lead)) ?k1)"
    using round_start [OF s ok(1)] 1 by simp
  moreover have s1: "?s = ?pre1 @ ?body @ (trail @ ?closing)" by simp
  have l1: "length ?pre1 = ?k1" using "1.prems"(1) by simp
  have p1: "?pre1 = (pre @ lead @ CHR ''<'' # inner) @ [CHR ''>'']" by simp
  have "\<exists>b. read_tags (sum_list (map html_steps kids) + Suc n) (?pre1 @ ?body @ (trail @ ?closing))
        (settled ?open (int (k + length lead)) ?k1) =
      read_tags (Suc n) (?pre1 @ ?body @ (trail @ ?closing))
        (settled (Tag eStartTag (elem_name inner) [] (elem_attributes inner) (Some ?place)
          ([] @ forest_tags ?k1 kids) # ?around) b (?k1 + length ?body))"
    by (rule "1.IH" [OF refl refl refl l1 ok(2) kind p1])
  then obtain b where "read_tags (sum_list (map html_steps kids) + Suc n) (?pre1 @ ?body @ (trail @ ?closing))
        (settled ?open (int (k + length lead)) ?k1) =
      read_tags (Suc n) (?pre1 @ ?body @ (trail @ ?closing))
        (settled (Tag eStartTag (elem_name inner) [] (elem_attributes inner) (Some ?place)
          (forest_tags ?k1 kids) # ?around) b (?k1 + length ?body))"
    unfolding append_Nil by (elim exE) (rule that)
  moreover have "read_tags (Suc n) (?pre1 @ ?body @ (trail @ ?closing))
        (settled (Tag eStartTag (elem_name inner) [] (elem_attributes inner) (Some ?place) (forest_tags ?k1 kids) #
          ?around) b (?k1 + length ?body)) =
      read_tags n (?pre1 @ ?body @ (trail @ ?closing))
        (settled (Tag ty nm v m p (ks @ html_tags k (Elem lead inner kids trail)) # ts)
          (int (?k1 + length ?body + length trail)) (k + length (html_text (Elem lead inner kids trail))))"
  proof -
    obtain x where x: "?pre1 @ ?body = x @ [CHR ''>'']"
      using forest_text_last [of "pre @ lead @ CHR ''<'' # inner" kids] that by auto
    have l: "length (?pre1 @ ?body) = ?k1 + length ?body" using "1.prems"(1) by simp
    let ?st = "settled (Tag eStartTag (elem_name inner) [] (elem_attributes inner) (Some ?place)
        (forest_tags ?k1 kids) # ?around) b (?k1 + length ?body)"
    have found: "FindStart ((?pre1 @ ?body) @ trail @ CHR ''<'' # end_tag_text inner @ CHR ''>'' # post) (sg_pos ?st) =
        int (length (?pre1 @ ?body) + length trail)"
      unfolding settled_simps l [symmetric] unfolding x by (rule settled_next [OF ok(3)])
    have e: "sg_end ?st + 1 = int (length (?pre1 @ ?body))" unfolding l by simp
    have tags: "html_tags k (Elem lead inner kids trail) = cdata k lead @
        [Tag (if forest_tags ?k1 kids @ cdata (?k1 + length ?body) trail = [] then eStartEmpty else eStartTag)
          (elem_name inner) [] (elem_attributes inner)
          (Some \<lparr>StartTagPos = int (k + length lead), StartTagLength = int (length inner + 2),
            EndTagPos = int (?k1 + length ?body + length trail),
            EndTagLength = int (length (end_tag_text inner) + 2)\<rparr>)
          (forest_tags ?k1 kids @ cdata (?k1 + length ?body) trail)]"
      by (simp only: html_tags.simps Let_def)
    have len: "?k1 + length ?body + length trail + length (end_tag_text inner) + 2 =
        k + length (html_text (Elem lead inner kids trail))" by simp
    show ?thesis
      using round_end [OF refl ok(1) settled_simps(1) found e, where n = n, unfolded l]
      unfolding tags len [symmetric] append_assoc append_Cons append_Nil by assumption
  qed
  ultimately show ?case by (auto simp: s1 add_ac)
next
  case (2 k)
  then show ?case by auto
next
  case (3 k h hs)
  let ?rest = "concat (map html_text hs)"
  have ok: "html_ok h" "list_all html_ok hs" using "3.prems"(2) by simp_all
  have s: "pre @ concat (map html_text (h # hs)) @ post = pre @ html_text h @ (?rest @ post)" by simp
  obtain lead inner kids trail where h: "h = Elem lead inner kids trail" by (cases h)
  have found: "FindStart (pre @ html_text h @ (?rest @ post)) (sg_pos (settled (Tag ty nm v m p ks # ts) a0 k)) =
      int (k + length (el_lead h))"
    using settled_next [of lead pre' "inner @ CHR ''>'' # concat (map html_text kids) @ trail @
        CHR ''<'' # end_tag_text inner @ CHR ''>'' # ?rest @ post"] ok(1) "3.prems"(1) [symmetric] "3.prems"(4)
    by (simp add: h)
  obtain a where "read_tags (html_steps h + (sum_list (map html_steps hs) + n)) (pre @ html_text h @ (?rest @ post))
        (settled (Tag ty nm v m p ks # ts) a0 k) =
      read_tags (sum_list (map html_steps hs) + n) (pre @ html_text h @ (?rest @ post))
        (settled (Tag ty nm v m p (ks @ html_tags k h) # ts) a (k + length (html_text h)))"
    using "3.IH"(1) [OF "3.prems"(1) ok(1) "3.prems"(3) settled_simps(1) found] by auto
  moreover obtain x where x: "html_text h = x @ [CHR ''>'']" using html_text_last by blast
  have l: "length (pre @ html_text h) = k + length (html_text h)" using "3.prems"(1) by simp
  have e: "pre @ html_text h = (pre @ x) @ [CHR ''>'']" using x by simp
  have "\<exists>b. read_tags (sum_list (map html_steps hs) + n) ((pre @ html_text h) @ ?rest @ post)
        (settled (Tag ty nm v m p (ks @ html_tags k h) # ts) a (k + length (html_text h))) =
      read_tags n ((pre @ html_text h) @ ?rest @ post)
        (settled (Tag ty nm v m p ((ks @ html_tags k h) @ forest_tags (k + length (html_text h)) hs) # ts) b
          (k + length (html_text h) + length ?rest))"
    by (rule "3.IH"(2) [OF l ok(2) "3.prems"(3) e])
  ultimately show ?case by (simp add: add.assoc)
qed

definition page_text :: "html list \<Rightarrow> bytes" where
  "page_text hs = concat (map html_text hs)"

definition page_ok :: "html list \<Rightarrow> bool" where
  "page_ok hs = (list_all html_ok hs \<and> (hs \<noteq> [] \<longrightarrow> el_lead (hd hs) = []))"

definition page_steps :: "html list \<Rightarrow> nat" where
  "page_steps hs = Suc (sum_list (map html_steps hs))"

definition page_doc :: "html list \<Rightarrow> sgml_tag" where
  "page_doc hs = Tag eVirtualBeginTag ''doctag'' [] [] None (forest_tags 0 hs @ [doc_end])"

text \<open>The document is no exception and its first element begins the text.\<close>

lemma doctag_plain: "\<not> tag_exception ''doctag''"
  by (simp add: tag_exception_def lower_case_def)

lemma first_found:
  assumes "html_ok h" "el_lead h = []"
  shows "FindStart (html_text h @ post) 0 = 0"
  using assms FindStart_next [of "[]" "[]"] by (cases h) simp

lemma page_steps_read:
  assumes "page_ok hs" "CHR ''<'' \<notin> set tail"
  shows "\<exists>st. read_tags (page_steps hs + n) (page_text hs @ tail) (start_state g1 g2) = Done st \<and> sg_open st = [page_doc hs]"
proof (cases hs)
  case Nil
  have "FindStart ([] @ tail) (sg_pos (start_state g1 g2)) = - 1"
    using FindStart_none [OF assms(2), of "[]"] by (simp add: start_state_def)
  then show ?thesis
    using read_last [of "start_state g1 g2" eVirtualBeginTag "''doctag''" "[]" "[]" None "[]" "[]" tail n] doctag_plain
    by (simp add: Nil page_text_def page_steps_def page_doc_def start_state_def)
next
  case (Cons h hs')
  have ok: "html_ok h" "list_all html_ok hs'" "el_lead h = []" using assms(1) by (simp_all add: page_ok_def Cons)
  let ?s = "page_text hs @ tail" and ?rest = "concat (map html_text hs')"
  let ?steps = "sum_list (map html_steps hs')"
  have s: "?s = html_text h @ (?rest @ tail)" by (simp add: Cons page_text_def)
  have steps: "page_steps hs + n = html_steps h + (?steps + Suc n)" by (simp add: page_steps_def Cons)
  have found: "FindStart ([] @ html_text h @ (?rest @ tail)) (sg_pos (start_state g1 g2)) = int (0 + length (el_lead h))"
    using first_found [OF ok(1,3)] by (simp add: ok(3) start_state_def)
  have open0: "sg_open (start_state g1 g2) = Tag eVirtualBeginTag ''doctag'' [] [] None [] # []"
    by (simp add: start_state_def)
  have "\<exists>a. read_tags (html_steps h + (?steps + Suc n)) ([] @ html_text h @ (?rest @ tail)) (start_state g1 g2) =
      read_tags (?steps + Suc n) ([] @ html_text h @ (?rest @ tail))
        (settled (Tag eVirtualBeginTag ''doctag'' [] [] None ([] @ html_tags 0 h) # []) a (0 + length (html_text h)))"
    by (rule forest_read(1) [OF list.size(3) ok(1) doctag_plain open0 found]) (simp add: ok(3))
  then obtain a where 1: "read_tags (page_steps hs + n) ?s (start_state g1 g2) = read_tags (?steps + Suc n) ?s
      (settled [Tag eVirtualBeginTag ''doctag'' [] [] None (html_tags 0 h)] a (length (html_text h)))"
    unfolding append_Nil add_0 s [symmetric] steps [symmetric] using that by blast
  obtain x where x: "html_text h = x @ [CHR ''>'']" using html_text_last by blast
  have "\<exists>b. read_tags (?steps + Suc n) (html_text h @ ?rest @ tail)
        (settled (Tag eVirtualBeginTag ''doctag'' [] [] None (html_tags 0 h) # []) a (length (html_text h))) =
      read_tags (Suc n) (html_text h @ ?rest @ tail)
        (settled (Tag eVirtualBeginTag ''doctag'' [] [] None (html_tags 0 h @ forest_tags (length (html_text h)) hs') # []) b
          (length (html_text h) + length ?rest))"
    by (rule forest_read(2) [OF refl ok(2) doctag_plain x])
  then obtain b where 2: "read_tags (page_steps hs + n) ?s (start_state g1 g2) = read_tags (Suc n) ?s
      (settled [Tag eVirtualBeginTag ''doctag'' [] [] None (forest_tags 0 hs)] b (length (page_text hs)))"
    unfolding 1 using that by (auto simp: Cons page_text_def)
  obtain y where y: "page_text hs = y @ [CHR ''>'']"
    using forest_text_last [of x hs'] x by (auto simp: Cons page_text_def)
  have "FindStart ?s (int (length (page_text hs)) - 1) = - 1"
    using FindStart_none [of "CHR ''>'' # tail" y] assms(2) by (simp add: y)
  with read_last [of "settled [Tag eVirtualBeginTag ''doctag'' [] [] None (forest_tags 0 hs)] b (length (page_text hs))"
      eVirtualBeginTag "''doctag''" "[]" "[]" None "forest_tags 0 hs" "[]" ?s n]
  show ?thesis using doctag_plain unfolding 2 by (simp add: page_doc_def)
qed

text \<open>No tag of a page is the end of the document, so a lookup sees all of them.\<close>

lemma cdata_types: "t \<in> set (cdata k x) \<Longrightarrow> u \<in> set (all_tags t) \<Longrightarrow> tg_type u \<noteq> eVirtualEndTag"
  by (auto simp: cdata_def split: if_splits)

lemma all_tags_iff:
  "u \<in> set (all_tags (Tag ty n v m p cs)) \<longleftrightarrow> u = Tag ty n v m p cs \<or> (\<exists>c \<in> set cs. u \<in> set (all_tags c))"
  by simp

lemma html_types:
  "t \<in> set (html_tags k h) \<Longrightarrow> u \<in> set (all_tags t) \<Longrightarrow> tg_type u \<noteq> eVirtualEndTag"
  "t \<in> set (forest_tags k hs) \<Longrightarrow> u \<in> set (all_tags t) \<Longrightarrow> tg_type u \<noteq> eVirtualEndTag"
proof (induction k h and k hs arbitrary: t u and t u rule: html_tags_forest_tags.induct)
  case (1 k lead inner kids trail)
  let ?k1 = "k + length lead + length inner + 2"
  let ?cs = "forest_tags ?k1 kids @ cdata (?k1 + length (concat (map html_text kids))) trail"
  have kids: "tg_type u \<noteq> eVirtualEndTag" if "t \<in> set ?cs" "u \<in> set (all_tags t)" for t u
    using that "1.IH" [OF refl refl refl] cdata_types by (metis Un_iff set_append)
  have "t \<in> set (cdata k lead) \<or> (\<exists>n m p. t = Tag (if ?cs = [] then eStartEmpty else eStartTag) n [] m p ?cs)"
    using "1.prems"(1)
    by (simp only: html_tags.simps Let_def set_append list.set Un_iff insert_iff empty_iff) blast
  then show ?case
  proof
    assume "t \<in> set (cdata k lead)"
    then show ?thesis using cdata_types "1.prems"(2) by blast
  next
    assume "\<exists>n m p. t = Tag (if ?cs = [] then eStartEmpty else eStartTag) n [] m p ?cs"
    then obtain n m p where t: "t = Tag (if ?cs = [] then eStartEmpty else eStartTag) n [] m p ?cs" by blast
    have "u = t \<or> (\<exists>c \<in> set ?cs. u \<in> set (all_tags c))" using "1.prems"(2) unfolding t all_tags_iff .
    moreover have "tg_type t \<noteq> eVirtualEndTag" unfolding t sgml_tag.sel by simp
    ultimately show ?thesis using kids by blast
  qed
next
  case (2 k)
  then show ?case by simp
next
  case (3 k h hs)
  from "3.prems"(1) consider "t \<in> set (html_tags k h)" | "t \<in> set (forest_tags (k + length (html_text h)) hs)"
    by (simp only: forest_tags.simps set_append Un_iff) blast
  then show ?case using "3.IH" "3.prems"(2) by cases blast+
qed

lemma get_elements_page:
  "get_elements P (page_doc hs) = Done (filter P (page_doc hs # concat (map all_tags (forest_tags 0 hs))))"
proof -
  let ?ts = "page_doc hs # concat (map all_tags (forest_tags 0 hs))"
  have all: "all_tags (page_doc hs) = ?ts @ [doc_end]" by (simp add: page_doc_def doc_end_def)
  have "tg_type u \<noteq> eVirtualEndTag" if "u \<in> set ?ts" for u
    using that html_types(2) by (auto simp: page_doc_def)
  then have "takeWhile (\<lambda>t. tg_type t \<noteq> eVirtualEndTag) (?ts @ [doc_end]) = ?ts"
    by (subst takeWhile_append2) (auto simp: doc_end_def)
  then show ?thesis by (simp add: get_elements_def all Let_def)
qed

text \<open>
  C14. Of a page of elements whose tags are closed, whatever text without a tag follows it, the reader
  makes the document of those elements in their order, each with its name, its attributes, its place
  in the text and its children, and nothing of the text behind the last tag; and a lookup by name gives
  exactly the elements of that name in the order of the text, however the name is written.
\<close>

theorem page_read:
  assumes "page_ok hs" "CHR ''<'' \<notin> set tail"
  shows "String2Sgml (page_steps hs + n) iStart iEnd (page_text hs @ tail) = Done (Some (page_doc hs)) \<and>
    getElementsByName name (page_doc hs) =
      Done (filter (\<lambda>t. tg_name t = lower_case name) (page_doc hs # concat (map all_tags (forest_tags 0 hs))))"
proof -
  obtain st where "read_tags (page_steps hs + n) (page_text hs @ tail) (start_state iStart iEnd) = Done st"
      "sg_open st = [page_doc hs]"
    using page_steps_read [OF assms] by blast
  then show ?thesis by (simp add: String2Sgml_def getElementsByName_def get_elements_page)
qed

definition example_page :: "html list" where
  "example_page = [Elem [] ''a href=/x'' [Elem ''one'' ''b'' [] ''two''] ''three'']"

lemma page_read_witness:
  "String2Sgml 5 7 7 (''<a href=/x>one<b>two</b>three</a>'' @ ''four'') = Done (Some (page_doc example_page)) \<and>
   getElementsByName ''B'' (page_doc example_page) =
     Done [Tag eStartTag ''b'' [] []
       (Some \<lparr>StartTagPos = 14, StartTagLength = 3, EndTagPos = 20, EndTagLength = 4\<rparr>)
       [Tag eCdata [] ''two'' [] (Some (whole_place 17 3)) []]]"
proof -
  have ok: "page_ok example_page" by code_simp
  have tail: "CHR ''<'' \<notin> set ''four''" by simp
  have body: "page_text example_page = ''<a href=/x>one<b>two</b>three</a>''" by code_simp
  have steps: "page_steps example_page + 0 = 5" by code_simp
  have found: "filter (\<lambda>t. tg_name t = lower_case ''B'')
      (page_doc example_page # concat (map all_tags (forest_tags 0 example_page))) =
    [Tag eStartTag ''b'' [] []
       (Some \<lparr>StartTagPos = 14, StartTagLength = 3, EndTagPos = 20, EndTagLength = 4\<rparr>)
       [Tag eCdata [] ''two'' [] (Some (whole_place 17 3)) []]]"
    by code_simp
  show ?thesis using page_read [OF ok tail, of 0 7 7 "''B''"] unfolding body steps found .
qed

section \<open>A comment that is not closed\<close>

lemma FindStart_before:
  assumes "CHR ''<'' \<notin> set pre" "k \<le> length pre"
  shows "FindStart (pre @ CHR ''<'' # ys) (int k) = int (length pre)"
proof -
  have "FindStart (take k pre @ drop k pre @ CHR ''<'' # ys) (int (length (take k pre))) =
      int (length (take k pre) + length (drop k pre))"
    by (rule FindStart_next) (use assms(1) in_set_dropD in metis)
  moreover have "take k pre @ drop k pre @ CHR ''<'' # ys = pre @ CHR ''<'' # ys"
    unfolding append_assoc [symmetric] by simp
  ultimately show ?thesis using assms(2) by simp
qed

lemma HandleCdata_open:
  "sg_open st = [Tag ty nm v m p ks] \<Longrightarrow> \<exists>ks'. sg_open (HandleCdata s st) = [Tag ty nm v m p ks']"
  by (simp add: HandleCdata_def Let_def append_last_def add_child_def)

lemma HandleComment_open:
  "sg_open st = [Tag ty nm v m p ks] \<Longrightarrow> \<exists>ks'. sg_open (HandleComment s st) = [Tag ty nm v m p ks']"
  by (simp add: HandleComment_def Let_def append_last_def add_child_def)

lemma comment_round:
  assumes pre: "CHR ''<'' \<notin> set pre" "pre \<noteq> []" and rest: "index_sub ''-->'' rest = None"
    and st: "sg_open st = [Tag ty nm v m p ks]" "\<not> tag_exception nm" "sg_pos st = 0 \<or> sg_pos st = 1"
  obtains st' ks' where "sg_open st' = [Tag ty nm v m p ks']" "sg_pos st' = 1"
    "read_tags (Suc n) (pre @ ''<!--'' @ rest) st = read_tags n (pre @ ''<!--'' @ rest) st'"
proof -
  let ?s = "pre @ ''<!--'' @ rest" and ?st = "st\<lparr>sg_pos := int (length pre)\<rparr>"
  let ?g = "if sg_end ?st + 1 < sg_pos ?st then HandleCdata ?s ?st else ?st"
  obtain k where k: "sg_pos st = int k" "k \<le> length pre"
    using st(3)
  proof
    assume "sg_pos st = 0"
    then show thesis using that [of 0] by simp
  next
    assume "sg_pos st = 1"
    then show thesis using that [of 1] pre(2) by (cases pre) simp_all
  qed
  have found: "FindStart ?s (sg_pos st) = int (length pre)"
    using FindStart_before [OF pre(1) k(2), of "''!--'' @ rest"] by (simp add: k(1))
  have "\<exists>ks'. sg_open ?g = [Tag ty nm v m p ks']"
  proof (cases "sg_end ?st + 1 < sg_pos ?st")
    case True
    show ?thesis unfolding if_P [OF True] by (rule HandleCdata_open) (simp add: st(1))
  next
    case False
    show ?thesis unfolding if_not_P [OF False] by (simp add: st(1))
  qed
  then obtain ks' where g: "sg_open ?g = [Tag ty nm v m p ks']" by blast
  have p: "sg_pos ?g = int (length pre)" by (simp add: HandleCdata_pos)
  have c: "char_is ?s (int (length pre) + 1) x = Done (CHR ''!'' = x)"
      "char_is ?s (int (length pre) + 2) x = Done (CHR ''-'' = x)"
      "char_is ?s (int (length pre) + 3) x = Done (CHR ''-'' = x)" for x
    by (simp_all add: char_is_def nat_add_distrib nth_append)
  have e: "FindEndComment ?s (int (length pre) + 4) = - 1"
    using rest by (simp add: FindEndComment_def index_from_def indexOf_sub_def nat_add_distrib)
  have h: "handle_tag ?s ?g = Done (HandleComment ?s ?g)" by (simp only: handle_tag_def Let_def p c rbind_simps) simp
  have hp: "sg_pos (HandleComment ?s ?g) = 1" by (simp only: HandleComment_def Let_def p e) simp
  have "\<exists>ks''. sg_open (HandleComment ?s ?g) = [Tag ty nm v m p ks'']" by (rule HandleComment_open [OF g])
  moreover have "read_tags (Suc n) ?s st = read_tags n ?s (HandleComment ?s ?g)"
    unfolding read_step [OF st(1,2) found] Let_def h rbind_simps using hp by simp
  ultimately show thesis using that hp by blast
qed

lemma comment_rounds:
  assumes "CHR ''<'' \<notin> set pre" "pre \<noteq> []" "index_sub ''-->'' rest = None" "\<not> tag_exception nm"
    and "sg_open st = [Tag ty nm v m p ks]" "sg_pos st = 0 \<or> sg_pos st = 1"
  shows "read_tags n (pre @ ''<!--'' @ rest) st = Loop"
  using assms(5,6)
proof (induction n arbitrary: st ks)
  case (Suc n)
  obtain st' ks' where "sg_open st' = [Tag ty nm v m p ks']" "sg_pos st' = 1"
      "read_tags (Suc n) (pre @ ''<!--'' @ rest) st = read_tags n (pre @ ''<!--'' @ rest) st'"
    using comment_round [OF assms(1-3) Suc.prems(1) assms(4) Suc.prems(2)] by blast
  then show ?case using Suc.IH by metis
qed simp

text \<open>
  C39. A page with text before a first tag that is a comment without an end is read for ever: no
  number of steps is enough, the search for the tag begins again at the second character each time
  and a comment is added to the document in every round.
\<close>

theorem unterminated_comment_loops:
  assumes "CHR ''<'' \<notin> set pre" "pre \<noteq> []" "index_sub ''-->'' rest = None"
  shows "String2Sgml n iStart iEnd (pre @ ''<!--'' @ rest) = Loop"
  using comment_rounds [OF assms doctag_plain] by (simp add: String2Sgml_def start_state_def)

lemma unterminated_comment_loops_witness: "String2Sgml 1000 0 0 (''x'' @ ''<!--'' @ ''y>'') = Loop"
proof (rule unterminated_comment_loops)
  show "index_sub ''-->'' ''y>'' = None" by code_simp
qed simp_all

end
