(* ===== verification/Search_Pages.thy ===== *)
theory Search_Pages
  imports Sgml
begin

text \<open>
  The search providers that read pages: \<open>ExtratorrentSearchProvider.cpp\<close> and
  \<open>RutorSearchProvider.cpp\<close>. A page that came back is read by the page reader, the table of the
  results is looked up, and its cells are walked through breadth first with a counter that tells
  which column a cell is. What a number with a decimal point is read as and what its product with a
  power of 1024 is cut to are arguments.
\<close>

section \<open>Results and cells\<close>

record search_result =
  sr_name :: bytes
  sr_file :: bytes
  sr_desc :: bytes
  sr_engine :: bytes
  sr_leechers :: int
  sr_seeders :: int
  sr_size :: int

definition new_result :: search_result where
  "new_result = \<lparr>sr_name = [], sr_file = [], sr_desc = [], sr_engine = [], sr_leechers = 0, sr_seeders = 0, sr_size = 0\<rparr>"

definition is_tag :: "bytes \<Rightarrow> sgml_tag \<Rightarrow> bool" where
  "is_tag name t = (lower_case (tg_name t) = name)"

definition getAttributeValue :: "bytes \<Rightarrow> sgml_tag \<Rightarrow> bytes" where
  "getAttributeValue k t = qm_value [] (tg_attributes t) k"

definition checkAttribute :: "bytes \<Rightarrow> bytes \<Rightarrow> sgml_tag \<Rightarrow> bool" where
  "checkAttribute k v t = (qm_get (tg_attributes t) k = Some v)"

text \<open>\<open>replace\<close> of a string: the matches from left to right, none inside what was put in.\<close>

function replace_sub :: "bytes \<Rightarrow> bytes \<Rightarrow> bytes \<Rightarrow> bytes" where
  "replace_sub p r s =
     (if p = [] then s
      else case s of [] \<Rightarrow> []
        | x # xs \<Rightarrow> if starts_with s p then r @ replace_sub p r (drop (length p) s) else x # replace_sub p r xs)"
  by pat_completeness auto

termination
  by (relation "measure (\<lambda>(p, r, s). length s)") (auto simp: neq_Nil_conv)

declare replace_sub.simps [simp del]

text \<open>A count that cannot be read is -1.\<close>

definition count_text :: "bytes \<Rightarrow> int" where
  "count_text s = (case string_toInt s of Some n \<Rightarrow> n | None \<Rightarrow> - 1)"

definition unit_power :: "bytes \<Rightarrow> nat" where
  "unit_power u =
     (case lower_case u of [] \<Rightarrow> 0
      | c # _ \<Rightarrow> if c = CHR ''k'' then 1 else if c = CHR ''m'' then 2 else if c = CHR ''g'' then 3
                  else if c = CHR ''t'' then 4 else 0)"

text \<open>
  The text of a size: \<open>None\<close> when it names no unit; otherwise the size, or \<open>None\<close> inside when the
  number cannot be read.
\<close>

definition size_text :: "(bytes \<Rightarrow> 'd option) \<Rightarrow> (nat \<Rightarrow> 'd \<Rightarrow> int) \<Rightarrow> bytes \<Rightarrow> int option option" where
  "size_text toDouble scaled text =
     (let s = replace_sub ''&nbsp;'' '' '' text in
      if list_ex (contains_sub (lower_case s)) ['' tb'', '' gb'', '' kb'', '' mb'', '' b'']
      then (let parts1 = split_on (CHR '' '') s
            in Some (map_option (scaled (unit_power (parts1 ! 1))) (toDouble (parts1 ! 0))))
      else None)"

section \<open>The walk\<close>

text \<open>The queue: a tag is taken from the front and its children are put at the end.\<close>

lemma size_children: "sum_list (map size (tg_children t)) < size t"
proof (cases t)
  case (Tag ty n v m p cs)
  have "sum_list (map size cs) \<le> size_list size cs" by (induction cs) auto
  then show ?thesis by (simp add: Tag)
qed

function walk :: "(sgml_tag \<Rightarrow> 's \<Rightarrow> 's run) \<Rightarrow> sgml_tag list \<Rightarrow> 's \<Rightarrow> 's run" where
  "walk f [] st = Done st"
| "walk f (t # q) st = rbind (f t st) (\<lambda>st. walk f (q @ tg_children t) st)"
  by pat_completeness auto

termination
proof (relation "measure (\<lambda>(f, q, st). sum_list (map size q))", goal_cases)
  case (2 f t q st st')
  show ?case using size_children [of t] by simp
qed simp

record scrape =
  sc_td :: nat
  sc_results :: "search_result list"
  sc_current :: "search_result option"

definition scrape_start :: scrape where
  "scrape_start = \<lparr>sc_td = 0, sc_results = [], sc_current = None\<rparr>"

definition map_current :: "(search_result \<Rightarrow> search_result) \<Rightarrow> scrape \<Rightarrow> scrape" where
  "map_current f st = st\<lparr>sc_current := map_option f (sc_current st)\<rparr>"

definition set_size :: "int option \<Rightarrow> scrape \<Rightarrow> scrape" where
  "set_size r = map_current (\<lambda>x. x\<lparr>sr_size := (case r of Some n \<Rightarrow> n | None \<Rightarrow> - 1)\<rparr>)"

section \<open>Extratorrent\<close>

definition extra_url :: bytes where
  "extra_url = ''http://extratorrent.cc''"

definition extra_td ::
  "(bytes \<Rightarrow> 'd option) \<Rightarrow> (nat \<Rightarrow> 'd \<Rightarrow> int) \<Rightarrow> bytes \<Rightarrow> sgml_tag \<Rightarrow> scrape \<Rightarrow> scrape run" where
  "extra_td toDouble scaled page t st =
     (if sc_td st = 0 then
        (case find (is_tag ''a'') (tg_children t) of
           None \<Rightarrow> Done st
         | Some a \<Rightarrow> Done (st\<lparr>sc_current := Some (new_result\<lparr>sr_file := extra_url @ getAttributeValue ''href'' a\<rparr>)\<rparr>))
      else if sc_td st = 2 then
        (if checkAttribute ''class'' ''tli'' t \<and> sc_current st \<noteq> None then
           (case find (is_tag ''a'') (tg_children t) of
              None \<Rightarrow> Done st
            | Some a \<Rightarrow> rbind (getInnerText page a) (\<lambda>name.
                Done (map_current (\<lambda>r. r\<lparr>sr_name := name, sr_desc := extra_url @ getAttributeValue ''href'' a\<rparr>) st)))
         else Done st)
      else if sc_td st = 3 then
        rbind (getInnerText page t) (\<lambda>s.
          Done (case size_text toDouble scaled s of None \<Rightarrow> st | Some r \<Rightarrow> set_size r st))
      else if sc_td st = 4 then
        rbind (getInnerText page t) (\<lambda>s. Done (map_current (\<lambda>r. r\<lparr>sr_seeders := count_text s\<rparr>) st))
      else if sc_td st = 5 then
        rbind (getInnerText page t) (\<lambda>s. Done (map_current (\<lambda>r. r\<lparr>sr_leechers := count_text s\<rparr>) st))
      else if sc_td st = 6 then
        (case sc_current st of None \<Rightarrow> Fault
         | Some r \<Rightarrow> Done (st\<lparr>sc_results := sc_results st @ [r\<lparr>sr_engine := ''Extratorrent''\<rparr>], sc_current := None\<rparr>))
      else Done st)"

definition extra_step ::
  "(bytes \<Rightarrow> 'd option) \<Rightarrow> (nat \<Rightarrow> 'd \<Rightarrow> int) \<Rightarrow> bytes \<Rightarrow> sgml_tag \<Rightarrow> scrape \<Rightarrow> scrape run" where
  "extra_step toDouble scaled page t st =
     (if is_tag ''td'' t
      then rbind (extra_td toDouble scaled page t st) (\<lambda>st.
        Done (st\<lparr>sc_td := (if 7 \<le> sc_td st + 1 then 0 else sc_td st + 1)\<rparr>))
      else Done st)"

definition extra_ParseTableBody ::
  "(bytes \<Rightarrow> 'd option) \<Rightarrow> (nat \<Rightarrow> 'd \<Rightarrow> int) \<Rightarrow> bytes \<Rightarrow> sgml_tag list \<Rightarrow> search_result list run" where
  "extra_ParseTableBody toDouble scaled page tableBody =
     rbind (walk (extra_step toDouble scaled page) tableBody scrape_start) (\<lambda>st. Done (sc_results st))"

text \<open>\<open>replyReady\<close>: what is sent as found, or \<open>None\<close> for nothing sent.\<close>

definition extra_replyReady ::
  "(bytes \<Rightarrow> 'd option) \<Rightarrow> (nat \<Rightarrow> 'd \<Rightarrow> int) \<Rightarrow> bytes \<Rightarrow> sgml_tag \<Rightarrow> search_result list option run" where
  "extra_replyReady toDouble scaled page doc =
     rbind (getElementsByAtributeValue ''class'' ''tl'' doc) (\<lambda>tags.
       case tags of [] \<Rightarrow> Done None
       | t # _ \<Rightarrow>
           let tableBody = filter (is_tag ''tr'') (tg_children t)
           in if tableBody = [] then Done None
              else rbind (extra_ParseTableBody toDouble scaled page tableBody) (\<lambda>rs. Done (Some rs)))"

section \<open>Rutor\<close>

definition rutor_url :: bytes where
  "rutor_url = ''http://rutor.org/''"

text \<open>The loop over the children of a cell.\<close>

fun run_all :: "('a \<Rightarrow> 's \<Rightarrow> 's run) \<Rightarrow> 'a list \<Rightarrow> 's \<Rightarrow> 's run" where
  "run_all f [] st = Done st"
| "run_all f (t # ts) st = rbind (f t st) (run_all f ts)"

text \<open>A link to the file begins a result, a link to the description is written through the pointer.\<close>

definition rutor_link :: "bytes \<Rightarrow> sgml_tag \<Rightarrow> scrape \<Rightarrow> scrape run" where
  "rutor_link page a st =
     (if is_tag ''a'' a then
        (let url = getAttributeValue ''href'' a in
         if starts_with url ''http://d.rutor.org'' then Done (st\<lparr>sc_current := Some (new_result\<lparr>sr_file := url\<rparr>)\<rparr>)
         else if starts_with url ''/torrent'' then
           (if sc_current st = None then Fault
            else rbind (getInnerText page a) (\<lambda>name.
              Done (map_current (\<lambda>r. r\<lparr>sr_name := name, sr_desc := rutor_url @ url\<rparr>) st)))
         else Done st)
      else Done st)"

definition rutor_count :: "bytes \<Rightarrow> sgml_tag \<Rightarrow> scrape \<Rightarrow> scrape run" where
  "rutor_count page t st =
     (if is_tag ''span'' t \<and> sc_current st \<noteq> None then
        (if checkAttribute ''class'' ''green'' t then
           rbind (getInnerText page t) (\<lambda>s.
             let innerHtml = replace_sub ''&nbsp;'' [] s; innerTagEnd = indexOf innerHtml (CHR ''>'')
             in Done (map_current (\<lambda>r. r\<lparr>sr_seeders :=
                  (if innerTagEnd < 0 then - 1 else count_text (bmid innerHtml (innerTagEnd + 1)))\<rparr>) st))
         else if checkAttribute ''class'' ''red'' t then
           rbind (getInnerText page t) (\<lambda>s.
             Done (map_current (\<lambda>r. r\<lparr>sr_leechers := count_text (replace_sub ''&nbsp;'' [] s)\<rparr>) st))
         else Done st)
      else Done st)"

text \<open>A size in the third column means that the row has no column for comments.\<close>

definition rutor_td ::
  "(bytes \<Rightarrow> 'd option) \<Rightarrow> (nat \<Rightarrow> 'd \<Rightarrow> int) \<Rightarrow> bytes \<Rightarrow> sgml_tag \<Rightarrow> scrape \<Rightarrow> scrape run" where
  "rutor_td toDouble scaled page t st =
     (if sc_td st = 1 then run_all (rutor_link page) (tg_children t) st
      else if sc_td st = 2 \<or> sc_td st = 3 then
        rbind (getInnerText page t) (\<lambda>s.
          Done (case size_text toDouble scaled s of None \<Rightarrow> st
            | Some r \<Rightarrow>
                (let st' = set_size r st
                 in if r \<noteq> None \<and> sc_current st \<noteq> None \<and> sc_td st = 2 then st'\<lparr>sc_td := 3\<rparr> else st')))
      else if sc_td st = 4 then
        rbind (run_all (rutor_count page) (tg_children t) st) (\<lambda>st.
          Done (case sc_current st of None \<Rightarrow> st
            | Some r \<Rightarrow> st\<lparr>sc_results := sc_results st @ [r\<lparr>sr_engine := ''Rutor''\<rparr>], sc_current := None\<rparr>))
      else Done st)"

definition rutor_step ::
  "(bytes \<Rightarrow> 'd option) \<Rightarrow> (nat \<Rightarrow> 'd \<Rightarrow> int) \<Rightarrow> bytes \<Rightarrow> sgml_tag \<Rightarrow> scrape \<Rightarrow> scrape run" where
  "rutor_step toDouble scaled page t st =
     (if is_tag ''td'' t
      then rbind (rutor_td toDouble scaled page t st) (\<lambda>st.
        Done (st\<lparr>sc_td := (if 5 \<le> sc_td st + 1 then 0 else sc_td st + 1)\<rparr>))
      else Done st)"

definition rutor_ParseTableBody ::
  "(bytes \<Rightarrow> 'd option) \<Rightarrow> (nat \<Rightarrow> 'd \<Rightarrow> int) \<Rightarrow> bytes \<Rightarrow> sgml_tag list \<Rightarrow> search_result list run" where
  "rutor_ParseTableBody toDouble scaled page tableBody =
     rbind (walk (rutor_step toDouble scaled page) tableBody scrape_start) (\<lambda>st. Done (sc_results st))"

text \<open>The parent of the first tag with a property, in the order of the lookups.\<close>

fun first_parent :: "(sgml_tag \<Rightarrow> bool) \<Rightarrow> sgml_tag \<Rightarrow> sgml_tag option"
  and first_parent_in :: "(sgml_tag \<Rightarrow> bool) \<Rightarrow> sgml_tag \<Rightarrow> sgml_tag list \<Rightarrow> sgml_tag option" where
  "first_parent P (Tag ty n v m p cs) = first_parent_in P (Tag ty n v m p cs) cs"
| "first_parent_in P t [] = None"
| "first_parent_in P t (c # cs) =
     (if P c then Some t
      else case first_parent P c of Some u \<Rightarrow> Some u | None \<Rightarrow> first_parent_in P t cs)"

definition rutor_replyReady ::
  "(bytes \<Rightarrow> 'd option) \<Rightarrow> (nat \<Rightarrow> 'd \<Rightarrow> int) \<Rightarrow> bytes \<Rightarrow> sgml_tag \<Rightarrow> search_result list option run" where
  "rutor_replyReady toDouble scaled page doc =
     rbind (getElementsByAtributeValue ''class'' ''backgr'' doc) (\<lambda>tags.
       if tags = [] then Done None
       else case first_parent (\<lambda>t. qm_get (tg_attributes t) ''class'' = Some ''backgr'') doc of
         None \<Rightarrow> Fault
       | Some resaltsTable \<Rightarrow>
           let tableBody = filter (is_tag ''tr'') (tl (tg_children resaltsTable))
           in if tableBody = [] then Done None
              else rbind (rutor_ParseTableBody toDouble scaled page tableBody) (\<lambda>rs. Done (Some rs)))"

section \<open>The walk, level by level\<close>

lemma run_all_append: "run_all f (xs @ ys) st = rbind (run_all f xs st) (run_all f ys)"
  by (induction xs arbitrary: st) (simp_all add: rbind_def split: run.splits)

lemma run_all_quiet: "(\<And>t st. t \<in> set ts \<Longrightarrow> f t st = Done st) \<Longrightarrow> run_all f ts st = Done st"
  by (induction ts) simp_all

lemma run_all_filter: "(\<And>t st. \<not> P t \<Longrightarrow> f t st = Done st) \<Longrightarrow> run_all f (filter P ts) st = run_all f ts st"
  by (induction ts arbitrary: st) (simp_all add: rbind_def split: run.splits)

lemma walk_level:
  "walk f (ts @ q) st = rbind (run_all f ts st) (walk f (q @ concat (map tg_children ts)))"
proof (induction ts arbitrary: q st)
  case (Cons t ts)
  have "walk f (t # ts @ q) st = rbind (f t st) (\<lambda>st. walk f (ts @ q @ tg_children t) st)" by simp
  then show ?case by (simp add: Cons rbind_def split: run.splits)
qed simp

lemma all_tags_self: "t \<in> set (all_tags t)"
  by (cases t) simp

lemma all_tags_child: "c \<in> set (tg_children t) \<Longrightarrow> u \<in> set (all_tags c) \<Longrightarrow> u \<in> set (all_tags t)"
  by (cases t) auto

lemma walk_quiet:
  "(\<And>t u st. t \<in> set q \<Longrightarrow> u \<in> set (all_tags t) \<Longrightarrow> f u st = Done st) \<Longrightarrow> walk f q st = Done st"
proof (induction f q st rule: walk.induct)
  case (2 f t q st)
  have t: "f t st = Done st" by (rule "2.prems" [of t]) (simp_all add: all_tags_self)
  have "walk f (q @ tg_children t) st = Done st"
    by (rule "2.IH") (use "2.prems" all_tags_child in fastforce)
  then show ?case by (simp add: t)
qed simp

section \<open>A table of results\<close>

text \<open>
  A row as the site writes it: seven cells, no cell inside a cell, a link in the first one, and a
  place in the text for every tag whose text is read.
\<close>

definition placed :: "sgml_tag \<Rightarrow> bool" where
  "placed t = (tg_type t = eStandalone \<or> tg_place t \<noteq> None)"

definition cells :: "sgml_tag \<Rightarrow> sgml_tag list" where
  "cells r = filter (is_tag ''td'') (tg_children r)"

definition link :: "sgml_tag \<Rightarrow> sgml_tag option" where
  "link c = find (is_tag ''a'') (tg_children c)"

definition placed_link :: "sgml_tag \<Rightarrow> bool" where
  "placed_link c = (case link c of None \<Rightarrow> True | Some a \<Rightarrow> placed a)"

definition row_ok :: "sgml_tag \<Rightarrow> bool" where
  "row_ok r =
     (\<not> is_tag ''td'' r \<and> length (cells r) = 7 \<and>
      list_all (\<lambda>c. list_all (\<lambda>u. \<not> is_tag ''td'' u) (concat (map all_tags (tg_children c)))) (tg_children r) \<and>
      link (cells r ! 0) \<noteq> None \<and> list_all placed [cells r ! 3, cells r ! 4, cells r ! 5] \<and>
      placed_link (cells r ! 2))"

text \<open>What the row says, read column by column.\<close>

definition inner :: "bytes \<Rightarrow> sgml_tag \<Rightarrow> bytes" where
  "inner page t = (case getInnerText page t of Done s \<Rightarrow> s | _ \<Rightarrow> [])"

definition title_link :: "sgml_tag \<Rightarrow> sgml_tag option" where
  "title_link c = (if checkAttribute ''class'' ''tli'' c then link c else None)"

definition row_result ::
  "(bytes \<Rightarrow> 'd option) \<Rightarrow> (nat \<Rightarrow> 'd \<Rightarrow> int) \<Rightarrow> bytes \<Rightarrow> sgml_tag \<Rightarrow> search_result" where
  "row_result toDouble scaled page r =
     \<lparr>sr_name = (case title_link (cells r ! 2) of Some a \<Rightarrow> inner page a | None \<Rightarrow> []),
      sr_file = extra_url @ getAttributeValue ''href'' (the (link (cells r ! 0))),
      sr_desc = (case title_link (cells r ! 2) of Some a \<Rightarrow> extra_url @ getAttributeValue ''href'' a | None \<Rightarrow> []),
      sr_engine = ''Extratorrent'',
      sr_leechers = count_text (inner page (cells r ! 5)),
      sr_seeders = count_text (inner page (cells r ! 4)),
      sr_size = (case size_text toDouble scaled (inner page (cells r ! 3)) of
          None \<Rightarrow> 0 | Some None \<Rightarrow> - 1 | Some (Some n) \<Rightarrow> n)\<rparr>"

lemma placed_inner: "placed t \<Longrightarrow> getInnerText page t = Done (inner page t)"
  by (auto simp: placed_def inner_def getInnerText_def split: option.splits)

lemma list7: "length xs = 7 \<Longrightarrow> xs = [xs ! 0, xs ! 1, xs ! 2, xs ! 3, xs ! 4, xs ! 5, xs ! 6]"
  by (rule nth_equalityI) (auto simp: less_Suc_eq numeral_eq_Suc)

lemma extra_step_other: "\<not> is_tag ''td'' t \<Longrightarrow> extra_step toDouble scaled page t st = Done st"
  by (simp add: extra_step_def)

lemma extra_cells:
  assumes td: "is_tag ''td'' t"
  shows "link t = Some a \<Longrightarrow> extra_step toDouble scaled page t \<lparr>sc_td = 0, sc_results = rs, sc_current = cur\<rparr> =
      Done \<lparr>sc_td = 1, sc_results = rs,
        sc_current = Some (new_result\<lparr>sr_file := extra_url @ getAttributeValue ''href'' a\<rparr>)\<rparr>"
    and "extra_step toDouble scaled page t \<lparr>sc_td = 1, sc_results = rs, sc_current = cur\<rparr> =
      Done \<lparr>sc_td = 2, sc_results = rs, sc_current = cur\<rparr>"
    and "placed_link t \<Longrightarrow>
      extra_step toDouble scaled page t \<lparr>sc_td = 2, sc_results = rs, sc_current = Some r\<rparr> =
      Done \<lparr>sc_td = 3, sc_results = rs, sc_current = Some (case title_link t of None \<Rightarrow> r
        | Some a \<Rightarrow> r\<lparr>sr_name := inner page a, sr_desc := extra_url @ getAttributeValue ''href'' a\<rparr>)\<rparr>"
    and "placed t \<Longrightarrow> extra_step toDouble scaled page t \<lparr>sc_td = 3, sc_results = rs, sc_current = Some r\<rparr> =
      Done \<lparr>sc_td = 4, sc_results = rs, sc_current = Some (case size_text toDouble scaled (inner page t) of
        None \<Rightarrow> r | Some z \<Rightarrow> r\<lparr>sr_size := (case z of Some n \<Rightarrow> n | None \<Rightarrow> - 1)\<rparr>)\<rparr>"
    and "placed t \<Longrightarrow> extra_step toDouble scaled page t \<lparr>sc_td = 4, sc_results = rs, sc_current = Some r\<rparr> =
      Done \<lparr>sc_td = 5, sc_results = rs, sc_current = Some (r\<lparr>sr_seeders := count_text (inner page t)\<rparr>)\<rparr>"
    and "placed t \<Longrightarrow> extra_step toDouble scaled page t \<lparr>sc_td = 5, sc_results = rs, sc_current = Some r\<rparr> =
      Done \<lparr>sc_td = 6, sc_results = rs, sc_current = Some (r\<lparr>sr_leechers := count_text (inner page t)\<rparr>)\<rparr>"
    and "extra_step toDouble scaled page t \<lparr>sc_td = 6, sc_results = rs, sc_current = Some r\<rparr> =
      Done \<lparr>sc_td = 0, sc_results = rs @ [r\<lparr>sr_engine := ''Extratorrent''\<rparr>], sc_current = None\<rparr>"
  using td
  by (auto simp: extra_step_def extra_td_def link_def title_link_def placed_link_def map_current_def set_size_def placed_inner
      split: option.splits)

lemma extra_row:
  assumes "row_ok r"
  shows "run_all (extra_step toDouble scaled page) (tg_children r) \<lparr>sc_td = 0, sc_results = rs, sc_current = None\<rparr> =
    Done \<lparr>sc_td = 0, sc_results = rs @ [row_result toDouble scaled page r], sc_current = None\<rparr>"
proof -
  let ?c = "\<lambda>i. cells r ! i"
  have len: "length (cells r) = 7" using assms by (simp add: row_ok_def)
  have td: "is_tag ''td'' (?c i)" if "i < 7" for i
    using nth_mem [of i "cells r"] that len by (simp add: cells_def)
  obtain a where a: "link (?c 0) = Some a" using assms by (auto simp: row_ok_def)
  have ok: "placed (?c 3)" "placed (?c 4)" "placed (?c 5)" "placed_link (?c 2)"
    using assms by (simp_all add: row_ok_def)
  have "run_all (extra_step toDouble scaled page) (tg_children r) \<lparr>sc_td = 0, sc_results = rs, sc_current = None\<rparr> =
      run_all (extra_step toDouble scaled page) [?c 0, ?c 1, ?c 2, ?c 3, ?c 4, ?c 5, ?c 6]
        \<lparr>sc_td = 0, sc_results = rs, sc_current = None\<rparr>"
    using run_all_filter [of "is_tag ''td''" "extra_step toDouble scaled page" "tg_children r"] extra_step_other
      list7 [OF len] unfolding cells_def by metis
  also have "\<dots> = Done \<lparr>sc_td = 0, sc_results = rs @ [row_result toDouble scaled page r], sc_current = None\<rparr>"
    using ok
    by (simp add: td extra_cells extra_cells(2) [unfolded One_nat_def] a row_result_def new_result_def split: option.splits)
  finally show ?thesis .
qed

lemma extra_rows_run:
  "list_all row_ok rows \<Longrightarrow>
   run_all (extra_step toDouble scaled page) (concat (map tg_children rows))
     \<lparr>sc_td = 0, sc_results = rs, sc_current = None\<rparr> =
   Done \<lparr>sc_td = 0, sc_results = rs @ map (row_result toDouble scaled page) rows, sc_current = None\<rparr>"
  by (induction rows arbitrary: rs) (simp_all add: run_all_append extra_row)

text \<open>
  C11. Of a table whose rows have the seven columns of the site the provider makes exactly one result
  for each row, in the order of the rows, with the columns of that row and no other: the walk through
  all cells with one counter reads the table as if row by row.
\<close>

theorem extra_table_read:
  assumes "list_all row_ok rows"
  shows "extra_ParseTableBody toDouble scaled page rows = Done (map (row_result toDouble scaled page) rows)"
proof -
  let ?f = "extra_step toDouble scaled page" and ?kids = "concat (map tg_children rows)"
  let ?closed = "\<lparr>sc_td = 0, sc_results = map (row_result toDouble scaled page) rows, sc_current = None\<rparr>"
  have rows: "run_all ?f rows scrape_start = Done scrape_start"
    by (rule run_all_quiet) (use assms in \<open>auto simp: list_all_iff row_ok_def extra_step_other\<close>)
  have kids: "run_all ?f ?kids scrape_start = Done ?closed"
    using extra_rows_run [OF assms, of toDouble scaled page "[]"] by (simp add: scrape_start_def)
  have rest: "walk ?f (concat (map tg_children ?kids)) ?closed = Done ?closed"
  proof (rule walk_quiet)
    fix t u st assume t: "t \<in> set (concat (map tg_children ?kids))" and u: "u \<in> set (all_tags t)"
    then obtain r c where "r \<in> set rows" "c \<in> set (tg_children r)" "t \<in> set (tg_children c)" by auto
    then have "\<not> is_tag ''td'' u" using assms u unfolding list_all_iff row_ok_def by fastforce
    then show "?f u st = Done st" by (rule extra_step_other)
  qed
  have "walk ?f rows scrape_start = walk ?f ?kids scrape_start"
    using walk_level [of ?f rows "[]" scrape_start] rows by simp
  also have "\<dots> = Done ?closed" using walk_level [of ?f ?kids "[]" scrape_start] kids rest by simp
  finally show ?thesis by (simp add: extra_ParseTableBody_def)
qed

text \<open>A page of the site with one result.\<close>

definition example_table :: html where
  "example_table = Elem [] ''table class=tl''
     [Elem [] ''tr''
       [Elem [] ''td'' [Elem [] ''a href=/f/1'' [] ''get''] [],
        Elem [] ''td'' [] ''Books'',
        Elem [] ''td class=tli'' [Elem [] ''a href=/t/1'' [] ''Title''] [],
        Elem [] ''td'' [] ''5&nbsp;MB'',
        Elem [] ''td'' [] ''12'',
        Elem [] ''td'' [] ''-'',
        Elem [] ''td'' [] []] []] []"

definition example_rows :: "sgml_tag list" where
  "example_rows = filter (is_tag ''tr'') (concat (map tg_children (forest_tags 0 [example_table])))"

lemma extra_table_read_witness:
  "extra_ParseTableBody string_toInt (\<lambda>k n. n * 1024 ^ k) (page_text [example_table]) example_rows =
   Done [\<lparr>sr_name = ''Title'', sr_file = ''http://extratorrent.cc/f/1'', sr_desc = ''http://extratorrent.cc/t/1'',
     sr_engine = ''Extratorrent'', sr_leechers = - 1, sr_seeders = 12, sr_size = 5242880\<rparr>]"
proof -
  have ok: "list_all row_ok example_rows" by code_simp
  have results: "map (row_result string_toInt (\<lambda>k n. n * 1024 ^ k) (page_text [example_table])) example_rows =
    [\<lparr>sr_name = ''Title'', sr_file = ''http://extratorrent.cc/f/1'', sr_desc = ''http://extratorrent.cc/t/1'',
     sr_engine = ''Extratorrent'', sr_leechers = - 1, sr_seeders = 12, sr_size = 5242880\<rparr>]"
    by code_simp
  show ?thesis using extra_table_read [OF ok, of string_toInt "\<lambda>k n. n * 1024 ^ k" "page_text [example_table]"]
    unfolding results .
qed

text \<open>A row of seven cells without a link makes the provider work on a null pointer.\<close>

lemma row_without_link_faults:
  assumes "list_all (\<lambda>t. \<not> is_tag ''td'' t) (r # rows)" "length (cells r) = 7" "link (cells r ! 0) = None" "list_all placed (cells r)"
  shows "extra_ParseTableBody toDouble scaled page (r # rows) = Fault"
proof -
  let ?f = "extra_step toDouble scaled page" and ?c = "\<lambda>i. cells r ! i"
  have td: "is_tag ''td'' (?c i)" "getInnerText page (?c i) = Done (inner page (?c i))" if "i < 7" for i
    using nth_mem [of i "cells r"] that assms(2,4) by (simp_all add: cells_def list_all_iff placed_inner)
  have step: "?f (?c i) \<lparr>sc_td = i, sc_results = rs, sc_current = None\<rparr> =
      Done \<lparr>sc_td = Suc i, sc_results = rs, sc_current = None\<rparr>" if "i < 6" for i rs
    using td [of i] assms(3) that
    by (auto simp: extra_step_def extra_td_def link_def map_current_def set_size_def split: option.splits)
  have last: "?f (?c 6) \<lparr>sc_td = 6, sc_results = rs, sc_current = None\<rparr> = Fault" for rs
    using td [of 6] by (simp add: extra_step_def extra_td_def)
  have "run_all ?f (tg_children r) scrape_start =
      run_all ?f [?c 0, ?c 1, ?c 2, ?c 3, ?c 4, ?c 5, ?c 6] scrape_start"
    using run_all_filter [of "is_tag ''td''" ?f "tg_children r"] extra_step_other list7 [OF assms(2)]
    unfolding cells_def by metis
  also have "\<dots> = Fault"
    using step [of 0] step [of 1] step [of 2] step [of 3] step [of 4] step [of 5] last
    by (simp add: scrape_start_def numeral_2_eq_2 [symmetric])
  finally have r: "run_all ?f (tg_children r) scrape_start = Fault" .
  have rows: "run_all ?f (r # rows) scrape_start = Done scrape_start"
    by (rule run_all_quiet) (use assms(1) in \<open>auto simp: list_all_iff extra_step_other\<close>)
  have "walk ?f (r # rows) scrape_start = walk ?f (tg_children r @ concat (map tg_children rows)) scrape_start"
    using walk_level [of ?f "r # rows" "[]" scrape_start] rows by simp
  also have "\<dots> = Fault"
    using walk_level [of ?f "tg_children r" "concat (map tg_children rows)" scrape_start] r by simp
  finally show ?thesis by (simp add: extra_ParseTableBody_def)
qed

end
