(* ===== verification/Search_Engine.thy ===== *)
theory Search_Engine
  imports Search_Pages Settings Json_Roundtrip Torrent_Storage
begin

text \<open>
  A search from the request to the list: the addresses that are asked, the provider that answers in
  JSON (\<open>KickassSearchProvider.cpp\<close>), and \<open>SearchEngine.cpp\<close>, which puts the results of every
  provider into the list of \<open>SearchItemsStorrage.cpp\<close>. The conversions of \<open>QVariant\<close> are arguments.
\<close>

section \<open>What is asked\<close>

text \<open>Categories are bits; \<open>All\<close> is all of them.\<close>

definition All_categories :: int where
  "All_categories = 127"

text \<open>
  Several arguments at once: the markers of a number are replaced by the argument of its rank among
  the numbers that occur.
\<close>

definition multi_arg :: "bytes \<Rightarrow> bytes list \<Rightarrow> bytes" where
  "multi_arg s args =
     (let ps = arg_parts s; ns = sort (remdups (marker_numbers ps))
      in concat (map (\<lambda>p. case p of Text c \<Rightarrow> [c]
           | Marker n t \<Rightarrow> (let i = length (takeWhile (\<lambda>m. m < n) ns) in if i < length args then args ! i else t)) ps))"

definition category_name :: "(int \<times> bytes) list \<Rightarrow> int \<Rightarrow> bytes" where
  "category_name m category = (case map_of m category of None \<Rightarrow> [] | Some n \<Rightarrow> n)"

definition kick_categories :: "(int \<times> bytes) list" where
  "kick_categories = [(64, ''anime''), (8, ''music''), (16, ''tv''), (2, ''xxx''), (0, ''applications''), (4, ''games''),
     (1, ''books''), (32, ''movies'')]"

definition kick_BuildUrl :: "bytes \<Rightarrow> int \<Rightarrow> int \<Rightarrow> bytes" where
  "kick_BuildUrl token category page =
     (if category \<noteq> All_categories
      then multi_arg ''https://kickass.to/json.php?q=%1+category:%2&field=seeders&order=desc&page=%3''
             [token, category_name kick_categories category, int_text 10 page]
      else multi_arg ''https://kickass.to/json.php?q=%1&field=seeders&order=desc&page=%2'' [token, int_text 10 page])"

definition extra_categories :: "(int \<times> bytes) list" where
  "extra_categories = [(64, ''1''), (8, ''5''), (16, ''8''), (2, ''533''), (0, ''7''), (4, ''3''), (1, ''2''), (32, ''4'')]"

definition extra_BuildUrl :: "bytes \<Rightarrow> int \<Rightarrow> int \<Rightarrow> bytes" where
  "extra_BuildUrl token category page =
     (if category \<noteq> All_categories
      then multi_arg ''http://extratorrent.cc/advanced_search/?with=%1&s_cat=%2&page=%3''
             [token, category_name extra_categories category, int_text 10 page]
      else multi_arg ''http://extratorrent.cc/advanced_search/?with=%1&page=%2'' [token, int_text 10 page])"

definition rutor_categories :: "(int \<times> bytes) list" where
  "rutor_categories = [(64, ''10''), (8, ''2''), (16, ''6''), (2, ''1''), (0, ''9''), (4, ''8''), (1, ''11''), (32, ''1'')]"

definition rutor_BuildUrl :: "bytes \<Rightarrow> int \<Rightarrow> int \<Rightarrow> bytes" where
  "rutor_BuildUrl token category page =
     (if category = All_categories
      then multi_arg ''http://alt.rutor.org/search/%2/0/110/2/%1'' [token, int_text 10 (page - 1)]
      else multi_arg ''http://alt.rutor.org/search/%3/%2/110/2/%1''
             [token, category_name rutor_categories category, int_text 10 (page - 1)])"

section \<open>The answer in JSON\<close>

definition toMap :: "'d qvariant \<Rightarrow> (qtext \<times> 'd qvariant) list" where
  "toMap v = (case v of QMap m \<Rightarrow> m | _ \<Rightarrow> [])"

definition toList :: "'d qvariant \<Rightarrow> 'd qvariant list" where
  "toList v = (case v of QList vs \<Rightarrow> vs | _ \<Rightarrow> [])"

definition field :: "(qtext \<times> 'd qvariant) list \<Rightarrow> bytes \<Rightarrow> 'd qvariant" where
  "field m k = qm_value QInvalid m (qs k)"

record 'd conversions =
  cv_toString :: "'d qvariant \<Rightarrow> bytes"
  cv_toInt :: "'d qvariant \<Rightarrow> int"
  cv_toLongLong :: "'d qvariant \<Rightarrow> int"

definition kick_result :: "'d conversions \<Rightarrow> 'd qvariant \<Rightarrow> search_result" where
  "kick_result cv v =
     (let torrentInfo = toMap v in
      \<lparr>sr_name = cv_toString cv (field torrentInfo ''title''),
       sr_file = cv_toString cv (field torrentInfo ''torrentLink''),
       sr_desc = cv_toString cv (field torrentInfo ''link''),
       sr_engine = ''Kickass'',
       sr_leechers = cv_toInt cv (field torrentInfo ''leechs''),
       sr_seeders = cv_toInt cv (field torrentInfo ''seeds''),
       sr_size = cv_toLongLong cv (field torrentInfo ''size'')\<rparr>)"

text \<open>
  What is sent as found, or \<open>None\<close> for nothing sent. The reply is \<open>None\<close> for an error of the
  network.
\<close>

definition kick_replyReady ::
  "(qtext \<Rightarrow> 'd) \<Rightarrow> 'd conversions \<Rightarrow> qtext option \<Rightarrow> search_result list option run" where
  "kick_replyReady dbl cv reply =
     (case reply of None \<Rightarrow> Done None
      | Some data \<Rightarrow> rbind (parse dbl (Some data)) (\<lambda>(json, isValidJson). Done
         (if isValidJson then Some (map (kick_result cv) (toList (field (toMap json) ''list''))) else None)))"

section \<open>The engine\<close>

text \<open>A pointer to a result is its place in the list of the results made so far.\<close>

record search_engine =
  se_results :: "search_result list"
  se_store :: search_store

definition engine_of :: "search_result list \<Rightarrow> nat \<Rightarrow> bytes" where
  "engine_of rs i = sr_engine (rs ! i)"

text \<open>A search empties the list and asks every provider for the page.\<close>

definition DoSerach :: "bytes \<Rightarrow> int \<Rightarrow> int \<Rightarrow> search_engine \<Rightarrow> search_engine \<times> bytes list" where
  "DoSerach token category page se =
     (se\<lparr>se_store := search_clear (se_store se)\<rparr>,
      map (\<lambda>BuildUrl. BuildUrl token category page) [kick_BuildUrl, extra_BuildUrl, rutor_BuildUrl])"

definition OnSearchReady :: "search_result list \<Rightarrow> search_engine \<Rightarrow> search_engine" where
  "OnSearchReady rs se =
     (let heap = se_results se @ rs
      in se\<lparr>se_results := heap, se_store :=
           search_append_all (engine_of heap) [length (se_results se)..<length heap] (se_store se)\<rparr>)"

text \<open>What the list shows.\<close>

definition shown :: "search_engine \<Rightarrow> search_result list" where
  "shown se = map ((!) (se_results se)) (ss_filtered (se_store se))"

section \<open>Every answer is shown\<close>

text \<open>A result passes when no engine is chosen, and otherwise when its engine is another one.\<close>

definition passes_engine :: "bytes \<Rightarrow> bytes \<Rightarrow> bool" where
  "passes_engine e n \<longleftrightarrow> e = [] \<or> lower_case n \<noteq> lower_case e"

lemma search_append_all_fresh:
  "distinct items \<Longrightarrow> set items \<inter> set (ss_items s) = {} \<Longrightarrow>
    search_append_all engine items s =
      s\<lparr>ss_items := ss_items s @ items,
        ss_filtered := ss_filtered s @ filter (\<lambda>i. passes_engine (ss_engine s) (engine i)) items\<rparr>"
proof (induction items arbitrary: s)
  case (Cons i items)
  let ?s = "search_append engine i s"
  have s: "?s = s\<lparr>ss_items := ss_items s @ [i],
      ss_filtered := ss_filtered s @ (if passes_engine (ss_engine s) (engine i) then [i] else [])\<rparr>"
    using Cons.prems(2) by (simp add: search_append_def passes_engine_def Let_def)
  have "search_append_all engine items ?s =
      ?s\<lparr>ss_items := ss_items ?s @ items,
        ss_filtered := ss_filtered ?s @ filter (\<lambda>i. passes_engine (ss_engine ?s) (engine i)) items\<rparr>"
    using Cons.prems by (intro Cons.IH) (auto simp: s)
  then show ?case by (simp add: search_append_all_def s)
qed (simp add: search_append_all_def)

text \<open>The places in the lists are places of results that were made.\<close>

definition places_ok :: "search_engine \<Rightarrow> bool" where
  "places_ok se \<longleftrightarrow> set (ss_items (se_store se)) \<union> set (ss_filtered (se_store se)) \<subseteq> {..<length (se_results se)}"

lemma filter_new_places:
  "map ((!) (heap @ rs)) (filter (\<lambda>i. P ((heap @ rs) ! i)) [length heap..<length heap + length rs]) = filter P rs"
proof -
  have u: "[length heap..<length heap + length rs] = map (\<lambda>i. i + length heap) [0..<length rs]"
    by (simp add: map_add_upt add.commute)
  have "filter P rs = filter P (map ((!) rs) [0..<length rs])" by (simp add: map_nth)
  then show ?thesis unfolding u by (simp add: filter_map o_def nth_append)
qed

lemma OnSearchReady_shown:
  assumes "places_ok se"
  shows "shown (OnSearchReady rs se) =
      shown se @ filter (\<lambda>r. passes_engine (ss_engine (se_store se)) (sr_engine r)) rs"
    and "places_ok (OnSearchReady rs se)"
    and "ss_engine (se_store (OnSearchReady rs se)) = ss_engine (se_store se)"
proof -
  let ?n = "length (se_results se)" and ?heap = "se_results se @ rs" and ?s = "se_store se"
  have a: "search_append_all (engine_of ?heap) [?n..<length ?heap] ?s =
      ?s\<lparr>ss_items := ss_items ?s @ [?n..<length ?heap],
        ss_filtered := ss_filtered ?s @ filter (\<lambda>i. passes_engine (ss_engine ?s) (engine_of ?heap i)) [?n..<length ?heap]\<rparr>"
    using assms by (intro search_append_all_fresh) (auto simp: places_ok_def)
  have "map ((!) ?heap) (ss_filtered ?s) = shown se"
    using assms by (auto simp: shown_def places_ok_def nth_append)
  then show "shown (OnSearchReady rs se) = shown se @ filter (\<lambda>r. passes_engine (ss_engine ?s) (sr_engine r)) rs"
    using filter_new_places [of "se_results se" rs "\<lambda>r. passes_engine (ss_engine ?s) (sr_engine r)"]
    by (simp only: OnSearchReady_def Let_def a) (simp add: shown_def engine_of_def)
  show "places_ok (OnSearchReady rs se)"
    using assms by (simp only: OnSearchReady_def Let_def a) (auto simp: places_ok_def)
  show "ss_engine (se_store (OnSearchReady rs se)) = ss_engine ?s"
    by (simp only: OnSearchReady_def Let_def a) simp
qed

lemma answers_shown:
  "places_ok se \<Longrightarrow> shown (fold OnSearchReady answers se) =
    shown se @ filter (\<lambda>r. passes_engine (ss_engine (se_store se)) (sr_engine r)) (concat answers)"
  by (induction answers arbitrary: se) (simp_all add: OnSearchReady_shown)

lemma DoSerach_empty: "shown (fst (DoSerach token category page se)) = []" "places_ok (fst (DoSerach token category page se))"
    "ss_engine (se_store (fst (DoSerach token category page se))) = ss_engine (se_store se)"
  by (simp_all add: DoSerach_def shown_def places_ok_def search_clear_def)

lemma kick_answer:
  assumes "canonical pl (QMap m)" "qm_get m (qs ''list'') = Some (QList vs)"
  shows "kick_replyReady dbl cv (Some (json_text (QMap m))) = Done (Some (map (kick_result cv) vs))"
  using parse_json_text [OF assms(1), of dbl] assms(2)
  by (simp add: kick_replyReady_def toMap_def toList_def field_def qm_value_def)


definition sample_torrent :: "(qtext \<times> nat qvariant) list" where
  "sample_torrent = [(qs ''link'', QString (qs ''d'')), (qs ''title'', QString (qs ''a''))]"

definition sample_answer :: "(qtext \<times> nat qvariant) list" where
  "sample_answer = [(qs ''list'', QList [QMap sample_torrent])]"

definition sample_conversions :: "nat conversions" where
  "sample_conversions = \<lparr>cv_toString = \<lambda>v. case v of QString s \<Rightarrow> map (\<lambda>c. char_of (unat c)) s | _ \<Rightarrow> [],
     cv_toInt = \<lambda>_. 0, cv_toLongLong = \<lambda>_. 0\<rparr>"

lemma sample_answer_canonical: "canonical (\<lambda>_. True) (QMap sample_answer)"
proof -
  have "qc (CHR ''l'') < qc (CHR ''t'')" by (simp add: word_less_nat_alt unat_qc)
  then show ?thesis by (simp add: sample_answer_def sample_torrent_def qs_def qm_ok_def list_all_def)
qed


end
