(* ===== verification/Torrent_Session.thy ===== *)
theory Torrent_Session
  imports Bencode Torrent_Storage File_Tree
begin

text \<open>
  \<open>TorrentManager.cpp\<close>: torrents are added, remembered over a restart, and removed. libtorrent's
  session is an argument: what a torrent file's contents say, and whether the session takes the
  parameters it is given. The files of the data directory are a map from paths to contents; a file
  that cannot be opened or written is not modelled. Bencoding is libtorrent's, read and written as
  in \<open>Bencode\<close>.
\<close>

section \<open>Files\<close>

type_synonym files = "bytes \<Rightarrow> bytes option"

text \<open>The second component is the buffer; a file over the limit is refused.\<close>

definition load_file :: "files \<Rightarrow> bytes \<Rightarrow> int \<times> bytes" where
  "load_file fs filename =
     (case fs filename of None \<Rightarrow> (- 1, [])
      | Some v \<Rightarrow> if 8000000 < length v then (- 2, []) else (0, v))"

text \<open>
  A file is opened without being cut and written from its beginning: what was longer stays behind
  the new contents. The address of the first byte of an empty vector is out of bounds.
\<close>

definition save_file :: "files \<Rightarrow> bytes \<Rightarrow> bytes \<Rightarrow> files run" where
  "save_file fs filename v =
     (if v = [] then Fault
      else Done (fs(filename \<mapsto> v @ drop (length v) (case fs filename of None \<Rightarrow> [] | Some old \<Rightarrow> old))))"

definition data_file :: "bytes \<Rightarrow> char \<Rightarrow> bytes \<Rightarrow> bytes" where
  "data_file dataDir sep n = dataDir @ ''CT_DATA'' @ sep # n"

text \<open>\<open>QFile::copy\<close> does not overwrite, \<open>QFile::remove\<close> of a missing file does nothing.\<close>

definition copy_file :: "bytes \<Rightarrow> bytes \<Rightarrow> files \<Rightarrow> files" where
  "copy_file src dst fs = (if fs dst \<noteq> None \<or> fs src = None then fs else fs(dst := fs src))"

definition remove_file :: "bytes \<Rightarrow> files \<Rightarrow> files" where
  "remove_file f fs = fs(f := None)"

section \<open>Entries\<close>

text \<open>
  Access to a dictionary makes one of an undefined entry and throws on every other kind; likewise
  for a string. \<open>None\<close> is the exception.
\<close>

definition find_key :: "bytes \<Rightarrow> entry \<Rightarrow> entry option option" where
  "find_key k e = (case e of dictionary_t m \<Rightarrow> Some (qm_get m k) | undefined_t \<Rightarrow> Some None | _ \<Rightarrow> None)"

definition entry_string :: "entry \<Rightarrow> bytes option" where
  "entry_string e = (case e of string_t s \<Rightarrow> Some s | undefined_t \<Rightarrow> Some [] | _ \<Rightarrow> None)"

definition set_string :: "bytes \<Rightarrow> bytes \<Rightarrow> entry \<Rightarrow> entry option" where
  "set_string k s e =
     (case e of dictionary_t m \<Rightarrow> Some (dictionary_t (qm_insert k (string_t s) m))
      | undefined_t \<Rightarrow> Some (dictionary_t [(k, string_t s)])
      | _ \<Rightarrow> None)"

section \<open>The manager\<close>

text \<open>A torrent object: the hash and the name its handle tells, its group and its peers by tracker.\<close>

record torrent_object =
  to_hash :: bytes
  to_group :: bytes
  to_trackers :: "(bytes, int) qmap"

text \<open>A pointer to a torrent is its place in the list of the objects made so far.\<close>

record 's manager =
  mg_files :: files
  mg_torrents :: "torrent_object list"
  mg_storage :: torrent_storage
  mg_session :: 's

record torrent_meta =
  mt_hash :: bytes
  mt_name :: bytes
  mt_paths :: "bytes list"

text \<open>What is given to the session; every torrent is added paused, and a duplicate is an error.\<close>

record add_params =
  ap_hash :: bytes
  ap_name :: bytes
  ap_save_path :: bytes
  ap_priorities :: "int list option"
  ap_resume :: "bytes option"
  ap_sequential :: bool

record 's environment =
  en_dataDir :: bytes
  en_sep :: char
  en_info :: "bytes \<Rightarrow> torrent_meta option"
  en_add :: "add_params \<Rightarrow> 's \<Rightarrow> 's option"
  en_now :: "bytes \<Rightarrow> torrent_view"

datatype add_result = Added | Refused | Thrown

definition hash_file :: "'s environment \<Rightarrow> bytes \<Rightarrow> bytes \<Rightarrow> bytes" where
  "hash_file en h ext = data_file (en_dataDir en) (en_sep en) (h @ ext)"

text \<open>What the storage asks a torrent: its own hash and group, the rest of the moment.\<close>

definition view_of :: "'s environment \<Rightarrow> torrent_object list \<Rightarrow> nat \<Rightarrow> torrent_view" where
  "view_of en ts p =
     (let t = ts ! p in (en_now en (to_hash t))\<lparr>tv_infoHash := to_hash t, tv_group := to_group t\<rparr>)"

section \<open>Adding a torrent\<close>

text \<open>What the resume data knows overrides what was asked for.\<close>

definition resume_field :: "bytes \<Rightarrow> entry \<Rightarrow> bytes \<Rightarrow> bytes option" where
  "resume_field k e asked =
     (case find_key k e of None \<Rightarrow> None
      | Some None \<Rightarrow> Some asked
      | Some (Some x) \<Rightarrow> entry_string x)"

definition resume_choice ::
  "bytes \<Rightarrow> bytes \<Rightarrow> bytes \<Rightarrow> bytes \<Rightarrow> (bytes \<times> bytes \<times> bytes) option run" where
  "resume_choice buf name grp save_path =
     rbind (bdecode buf) (\<lambda>e. Done
       (case (resume_field ''torrent_name'' e name, resume_field ''torrent_group'' e grp,
              resume_field ''save_path'' e save_path) of
          (Some n, Some g, Some s) \<Rightarrow> Some (n, g, s)
        | _ \<Rightarrow> None))"

definition new_torrent :: "'s environment \<Rightarrow> bytes \<Rightarrow> bytes \<Rightarrow> 's manager \<Rightarrow> 's manager" where
  "new_torrent en h grp mg =
     (let ts = mg_torrents mg @ [\<lparr>to_hash = h, to_group = grp, to_trackers = []\<rparr>]
      in mg\<lparr>mg_torrents := ts, mg_storage := append_torrent (view_of en ts) (length (mg_torrents mg)) (mg_storage mg)\<rparr>)"

text \<open>The copy of the torrent file under its hash; a copy under its name is removed.\<close>

definition keep_torrent_file :: "'s environment \<Rightarrow> bytes \<Rightarrow> bytes \<Rightarrow> bytes \<Rightarrow> files \<Rightarrow> files" where
  "keep_torrent_file en path h name fs =
     remove_file (hash_file en name ''.torrent'') (copy_file path (hash_file en h ''.torrent'') fs)"

definition AddTorrent ::
  "'s environment \<Rightarrow> bytes \<Rightarrow> bytes \<Rightarrow> bytes \<Rightarrow> (string, int) qmap \<Rightarrow> bytes \<Rightarrow> bool \<Rightarrow> 's manager \<Rightarrow>
     ('s manager \<times> add_result) run" where
  "AddTorrent en path save_path name filePriorities grp sequential mg =
     (case Option.bind (mg_files mg path) (en_info en) of
        None \<Rightarrow> Done (mg, Refused)
      | Some ti \<Rightarrow>
          (let (r, buf) = load_file (mg_files mg) (hash_file en (mt_hash ti) ''.resume'')
           in rbind (if r = 0 then resume_choice buf name grp save_path else Done (Some (name, grp, save_path)))
             (\<lambda>c. case c of None \<Rightarrow> Done (mg, Thrown)
               | Some (name, grp, save_path) \<Rightarrow>
                   (let p = \<lparr>ap_hash = mt_hash ti, ap_name = name, ap_save_path = save_path,
                        ap_priorities = torrent_priorities (en_sep en) filePriorities (mt_paths ti),
                        ap_resume = (if r = 0 then Some buf else None), ap_sequential = sequential\<rparr>
                    in case en_add en p (mg_session mg) of
                         None \<Rightarrow> Done (mg, Refused)
                       | Some ses \<Rightarrow>
                           (let mg = new_torrent en (mt_hash ti) grp (mg\<lparr>mg_session := ses\<rparr>)
                            in Done (mg\<lparr>mg_files := keep_torrent_file en path (mt_hash ti)
                                  (if name = [] then mt_name ti else name) (mg_files mg)\<rparr>, Added))))))"

section \<open>Saving resume data\<close>

text \<open>The group and the name are put into what libtorrent wants kept.\<close>

definition resume_entry :: "bytes \<Rightarrow> bytes \<Rightarrow> entry \<Rightarrow> 's manager \<Rightarrow> entry option" where
  "resume_entry h name e mg =
     (case getTorrent h (mg_storage mg) of None \<Rightarrow> Some e
      | Some p \<Rightarrow>
          Option.bind (set_string ''torrent_group'' (to_group (mg_torrents mg ! p)) e) (set_string ''torrent_name'' name))"

definition save_resume_data ::
  "'s environment \<Rightarrow> bytes \<Rightarrow> bytes \<Rightarrow> entry \<Rightarrow> 's manager \<Rightarrow> ('s manager \<times> bool) run" where
  "save_resume_data en h name e mg =
     (case resume_entry h name e mg of None \<Rightarrow> Done (mg, False)
      | Some e \<Rightarrow>
          rbind (save_file (mg_files mg) (hash_file en h ''.resume'') (bencode e)) (\<lambda>fs.
            Done (mg\<lparr>mg_files := fs\<rparr>, True)))"

section \<open>Starting and stopping\<close>

text \<open>
  The places saved by older versions, a line for each torrent: hash, path and perhaps group between
  bars. A line with one part is read out of bounds; one with more than three is passed over.
\<close>

definition read_path_line :: "bytes \<Rightarrow> (bytes, bytes \<times> bytes) qmap \<Rightarrow> (bytes, bytes \<times> bytes) qmap run" where
  "read_path_line line m =
     (let parts = split_on (CHR ''|'') line in
      if 3 < length parts then Done m
      else if length parts < 2 then Fault
      else Done (qm_insert (parts ! 0) (parts ! 1, if length parts < 3 then [] else parts ! 2) m))"

fun read_path_lines :: "bytes list \<Rightarrow> (bytes, bytes \<times> bytes) qmap \<Rightarrow> (bytes, bytes \<times> bytes) qmap run" where
  "read_path_lines [] m = Done m"
| "read_path_lines (l # ls) m = rbind (read_path_line l m) (read_path_lines ls)"

text \<open>A torrent file that cannot be parsed has no hash, and the loop goes on with the next one.\<close>

fun init_loop ::
  "'s environment \<Rightarrow> (bytes, bytes \<times> bytes) qmap \<Rightarrow> bytes list \<Rightarrow> 's manager \<Rightarrow> ('s manager \<times> bool) run" where
  "init_loop en places [] mg = Done (mg, True)"
| "init_loop en places (f # fs) mg =
     (let infoHash = (case Option.bind (mg_files mg f) (en_info en) of
            None \<Rightarrow> replicate 40 (CHR ''0'') | Some ti \<Rightarrow> mt_hash ti);
          (savePath, grp) = qm_value ([], []) places infoHash
      in rbind (AddTorrent en f savePath [] [] grp False mg) (\<lambda>(mg, r).
           if r = Thrown then Done (mg, False) else init_loop en places fs mg))"

text \<open>\<open>places\<close> are the lines of the old file, when there is one; it is removed once it is read.\<close>

definition initSession ::
  "'s environment \<Rightarrow> bytes list option \<Rightarrow> bytes list \<Rightarrow> 's manager \<Rightarrow> ('s manager \<times> bool) run" where
  "initSession en lines torrentFiles mg =
     (case lines of None \<Rightarrow> init_loop en [] torrentFiles mg
      | Some ls \<Rightarrow>
          rbind (read_path_lines ls []) (\<lambda>places.
            init_loop en places torrentFiles
              (mg\<lparr>mg_files := remove_file (data_file (en_dataDir en) (en_sep en) ''path.resume'') (mg_files mg)\<rparr>)))"

text \<open>
  Removing: the three files that may belong to a torrent, and the slot of the view that takes it out
  of the storage. \<open>remove\<close> is the session's.
\<close>

definition RemoveTorrent ::
  "'s environment \<Rightarrow> (bytes \<Rightarrow> bool \<Rightarrow> 's \<Rightarrow> 's) \<Rightarrow> bytes \<Rightarrow> bytes \<Rightarrow> bool \<Rightarrow> 's manager \<Rightarrow> 's manager" where
  "RemoveTorrent en remove h name delFiles mg =
     mg\<lparr>mg_storage := remove_hash h (mg_storage mg),
        mg_files := remove_file (hash_file en h ''.resume'') (remove_file (hash_file en name ''.torrent'')
          (remove_file (hash_file en h ''.torrent'') (mg_files mg))),
        mg_session := remove h delFiles (mg_session mg)\<rparr>"

section \<open>Alerts\<close>

text \<open>What libtorrent reports. A handle is the hash it is for, with what is asked of it.\<close>

datatype alert =
    tracker_reply bytes bytes int
  | torrent_finished bytes bytes bytes
  | save_resume bytes bytes "entry option"
  | save_resume_failed bytes
  | tracker_error bytes
  | storage_moved bytes bool bytes bytes
  | fastresume_rejected bytes bytes
  | metadata_received bytes "bytes option"
  | portmap bytes
  | quiet
  | other_alert bool bytes

datatype signal = TorrentError bytes bytes | TorrentInfo bytes bytes | TorrentCompleted bytes bytes

datatype handle_call =
  set_max_connections bytes int | call_save_resume_data bytes | call_resume bytes | call_pause bytes
  | auto_managed bytes bool

definition SetTrackerPeersCnt :: "bytes \<Rightarrow> int \<Rightarrow> torrent_object \<Rightarrow> torrent_object" where
  "SetTrackerPeersCnt url n t = t\<lparr>to_trackers := qm_insert url n (to_trackers t)\<rparr>"

definition GetPeerCountForTracker :: "bytes \<Rightarrow> torrent_object \<Rightarrow> int" where
  "GetPeerCountForTracker url t = qm_value 0 (to_trackers t) url"

text \<open>
  One alert: the new state, what is signalled and what is called on its handle. \<open>perTorrent\<close> is the
  limit of connections, \<open>moved\<close> the translated text of a finished move.
\<close>

definition handle_alert ::
  "'s environment \<Rightarrow> int \<Rightarrow> (bytes \<Rightarrow> bytes) \<Rightarrow> alert \<Rightarrow> 's manager \<Rightarrow>
     ('s manager \<times> signal list \<times> handle_call list) run" where
  "handle_alert en perTorrent moved a mg =
     (case a of
        tracker_reply h url n \<Rightarrow>
          Done (case getTorrent h (mg_storage mg) of None \<Rightarrow> mg
            | Some p \<Rightarrow> mg\<lparr>mg_torrents := (mg_torrents mg)[p := SetTrackerPeersCnt url n (mg_torrents mg ! p)]\<rparr>, [], [])
      | torrent_finished h name path \<Rightarrow>
          Done (mg, [TorrentCompleted name path], [set_max_connections h (cdiv perTorrent 2), call_save_resume_data h])
      | save_resume h name e \<Rightarrow>
          (case e of None \<Rightarrow> Done (mg, [], [])
           | Some e \<Rightarrow> rbind (save_resume_data en h name e mg) (\<lambda>(mg, ok). Done (mg, [], [])))
      | tracker_error message \<Rightarrow>
          Done (mg, if \<not> contains_sub message ''-'' \<and> \<not> contains_sub message ''200''
                    then [TorrentError [] message] else [], [])
      | storage_moved h valid name path \<Rightarrow>
          Done (mg, [TorrentInfo name (moved path)], if valid then [call_save_resume_data h, call_resume h] else [])
      | fastresume_rejected h message \<Rightarrow> Done (mg, [TorrentError [] message], [auto_managed h False, call_pause h])
      | metadata_received h t \<Rightarrow>
          Done (case t of None \<Rightarrow> mg
            | Some v \<Rightarrow> mg\<lparr>mg_files := (mg_files mg)(hash_file en h ''.torrent'' \<mapsto> v)\<rparr>, [], [])
      | portmap message \<Rightarrow> Done (mg, [TorrentInfo [] message], [])
      | quiet \<Rightarrow> Done (mg, [], [])
      | save_resume_failed message \<Rightarrow> Done (mg, [TorrentError [] message], [])
      | other_alert error message \<Rightarrow>
          Done (mg, [if error then TorrentError [] message else TorrentInfo [] message], []))"

section \<open>Closing\<close>

text \<open>
  The loop at the end counts the answers to its requests. A batch of alerts that arrived is handled
  as a whole; an exception leaves the loop and the program. With nothing more to arrive the loop
  waits for ever.
\<close>

fun close_batch :: "'s environment \<Rightarrow> alert list \<Rightarrow> int \<Rightarrow> 's manager \<Rightarrow> (int \<times> 's manager) run" where
  "close_batch en [] n mg = Done (n, mg)"
| "close_batch en (a # as) n mg =
     (case a of
        save_resume_failed h \<Rightarrow> close_batch en as (n - 1) mg
      | save_resume h name (Some e) \<Rightarrow>
          rbind (save_resume_data en h name e mg) (\<lambda>(mg, ok). if ok then close_batch en as (n - 1) mg else Fault)
      | save_resume h name None \<Rightarrow> close_batch en as (n - 1) mg
      | _ \<Rightarrow> close_batch en as n mg)"

fun close_loop :: "'s environment \<Rightarrow> alert list list \<Rightarrow> int \<Rightarrow> 's manager \<Rightarrow> 's manager run" where
  "close_loop en batches n mg =
     (if n \<le> 0 then Done mg
      else case batches of [] \<Rightarrow> Loop
        | b # bs \<Rightarrow> rbind (close_batch en b n mg) (\<lambda>(n, mg). close_loop en bs n mg))"

text \<open>A torrent is asked for its data when its handle is valid, it has metadata and something to save.\<close>

record close_status =
  cs_hash :: bytes
  cs_valid :: bool
  cs_metadata :: bool
  cs_need_save :: bool

definition resume_requests :: "close_status list \<Rightarrow> bytes list" where
  "resume_requests sts = map cs_hash (filter (\<lambda>st. cs_valid st \<and> cs_metadata st \<and> cs_need_save st) sts)"

text \<open>\<open>state\<close> is the session's own state, saved last.\<close>

definition onClose ::
  "'s environment \<Rightarrow> close_status list \<Rightarrow> alert list list \<Rightarrow> entry \<Rightarrow> 's manager \<Rightarrow> 's manager run" where
  "onClose en sts batches state mg =
     rbind (close_loop en batches (int (length (resume_requests sts))) mg) (\<lambda>mg.
       rbind (save_file (mg_files mg) (en_dataDir en @ ''CT_DATA/actual.state'') (bencode state)) (\<lambda>fs.
         Done (mg\<lparr>mg_files := fs\<rparr>)))"

text \<open>
  The wait ends when as many answers arrive as there were requests: no batch is waited for in vain,
  and what a batch takes from the count is its number of answers.
\<close>

definition is_answer :: "alert \<Rightarrow> bool" where
  "is_answer a = (case a of save_resume_failed h \<Rightarrow> True | save_resume h name e \<Rightarrow> True | _ \<Rightarrow> False)"

lemma save_resume_data_no_loop: "save_resume_data en h name e mg \<noteq> Loop"
  by (simp add: save_resume_data_def save_file_def split: option.split)

lemma close_batch_counts:
  "close_batch en b n mg \<noteq> Loop \<and>
    (\<forall>n' mg'. close_batch en b n mg = Done (n', mg') \<longrightarrow> n' = n - int (length (filter is_answer b)))"
proof (induction b arbitrary: n mg)
  case (Cons a b)
  show ?case
  proof (cases "\<exists>h name e. a = save_resume h name (Some e)")
    case True
    then obtain h name e where a: "a = save_resume h name (Some e)" by blast
    show ?thesis
    proof (cases "save_resume_data en h name e mg")
      case (Done r)
      obtain mg1 ok where r: "r = (mg1, ok)" by (cases r)
      then show ?thesis using Cons.IH [of "n - 1" mg1] by (cases ok) (auto simp: a Done is_answer_def)
    qed (use save_resume_data_no_loop [of en h name e mg] in \<open>simp_all add: a\<close>)
  next
    case False
    then show ?thesis using Cons.IH [of n mg] Cons.IH [of "n - 1" mg]
      by (auto simp: is_answer_def split: alert.splits option.splits)
  qed
qed simp

lemma close_loop_ends:
  "n \<le> int (length (filter is_answer (concat batches))) \<Longrightarrow> close_loop en batches n mg \<noteq> Loop"
proof (induction batches arbitrary: n mg)
  case (Cons b batches)
  note c = close_batch_counts [of en b n mg]
  show ?case
  proof (cases "close_batch en b n mg")
    case (Done r)
    obtain n' mg' where r: "r = (n', mg')" by (cases r)
    then have "n' = n - int (length (filter is_answer b))" using c Done by simp
    then have "n' \<le> int (length (filter is_answer (concat batches)))" using Cons.prems by simp
    from Cons.IH [OF this] show ?thesis by (simp add: Done r)
  qed (use c in simp_all)
qed simp

lemma onClose_ends:
  "length (resume_requests sts) \<le> length (filter is_answer (concat batches)) \<Longrightarrow>
    onClose en sts batches state mg \<noteq> Loop"
  using close_loop_ends [of "int (length (resume_requests sts))" batches en mg]
  unfolding onClose_def save_file_def
  by (cases "close_loop en batches (int (length (resume_requests sts))) mg") simp_all

section \<open>What is kept over a restart\<close>

lemma bdecode_written:
  assumes "encodable n e" "n \<le> 100"
  shows "bdecode (bencode e @ t) = Done e"
  using decode_encoded [OF assms(1), of 0 t] assms(2) by (simp add: bdecode_def)

lemma encodable_insert:
  assumes "encodable (Suc (Suc d)) (dictionary_t m)" "length k < 2 ^ 31" "length s < 2 ^ 31"
  shows "encodable (Suc (Suc d)) (dictionary_t (qm_insert k (string_t s) m))"
  using assms qm_insert_set [of k "string_t s" m] by (fastforce simp: qm_ok_insert)

lemma saved_file: "save_file fs f v = Done fs' \<Longrightarrow> fs' f = Some w \<Longrightarrow> \<exists>t. w = v @ t"
  by (auto simp: save_file_def split: if_splits)

lemma resume_field_insert:
  "resume_field k (dictionary_t (qm_insert k' (string_t s) m)) asked =
    (if k = k' then Some s else resume_field k (dictionary_t m) asked)"
  by (simp add: resume_field_def find_key_def qm_get_insert entry_string_def)

lemma saved_choice:
  assumes e: "encodable (Suc (Suc d)) (dictionary_t m)" "d \<le> 98" "length name < 2 ^ 31" "length grp < 2 ^ 31"
    and p: "getTorrent h (mg_storage mg) = Some p" "to_group (mg_torrents mg ! p) = grp"
    and path: "qm_get m ''save_path'' = Some (string_t sp)"
    and save: "save_resume_data en h name (dictionary_t m) mg = Done (mg', ok)"
    and v: "mg_files mg' (hash_file en h ''.resume'') = Some v"
  shows "resume_choice v n g s = Done (Some (name, grp, sp))"
proof -
  let ?m = "qm_insert ''torrent_name'' (string_t name) (qm_insert ''torrent_group'' (string_t grp) m)"
  have r: "resume_entry h name (dictionary_t m) mg = Some (dictionary_t ?m)"
    by (simp add: resume_entry_def p set_string_def)
  have ok: "encodable (Suc (Suc d)) (dictionary_t ?m)"
    by (intro encodable_insert) (use e in simp_all)
  obtain fs where fs: "save_file (mg_files mg) (hash_file en h ''.resume'') (bencode (dictionary_t ?m)) = Done fs"
      "mg_files mg' = fs"
    using save unfolding save_resume_data_def r by (auto simp: rbind_Done simp del: bencode.simps)
  obtain w where "v = bencode (dictionary_t ?m) @ w"
    using saved_file [OF fs(1)] v unfolding fs(2) by blast
  then have "bdecode v = Done (dictionary_t ?m)" using bdecode_written [OF ok] e(2) by simp
  moreover have "resume_field ''save_path'' (dictionary_t ?m) s = Some sp"
    by (simp add: resume_field_insert) (simp add: resume_field_def find_key_def path entry_string_def)
  ultimately show ?thesis by (simp add: resume_choice_def resume_field_insert)
qed

text \<open>
  C10. What a torrent was is kept over a restart. After libtorrent's resume data were saved for a
  torrent in the list, over whatever an earlier file held, adding its torrent file in a new run gives
  the session its saved path and its name, with the saved file as resume data, and puts it into the
  list with the group it had, whatever path, name and group were asked for; as long as the file is
  not over eight million bytes and the session takes the torrent.
\<close>

theorem resume_restored:
  assumes e: "encodable (Suc (Suc d)) (dictionary_t m)" "d \<le> 98" "length name < 2 ^ 31" "length grp < 2 ^ 31"
    and p: "getTorrent h (mg_storage mg) = Some p" "to_group (mg_torrents mg ! p) = grp"
    and path: "qm_get m ''save_path'' = Some (string_t sp)"
    and save: "save_resume_data en h name (dictionary_t m) mg = Done (mg', ok)"
    and v: "mg_files mg' (hash_file en h ''.resume'') = Some v" "length v \<le> 8000000"
    and restart: "mg_files run (hash_file en h ''.resume'') = Some v" "\<not> hasTorrent h (mg_storage run)"
    and torrent: "Option.bind (mg_files run f) (en_info en) = Some ti" "mt_hash ti = h"
      "(if name = [] then mt_name ti else name) \<noteq> h"
    and taken: "en_add en \<lparr>ap_hash = h, ap_name = name, ap_save_path = sp,
      ap_priorities = torrent_priorities (en_sep en) prios (mt_paths ti), ap_resume = Some v,
      ap_sequential = sequential\<rparr> (mg_session run) = Some ses"
  shows "\<exists>run' q. AddTorrent en f asked_path asked_name prios asked_group sequential run = Done (run', Added) \<and>
    mg_session run' = ses \<and> getTorrent h (mg_storage run') = Some q \<and> mg_files run' (hash_file en h ''.torrent'') \<noteq> None \<and>
    mg_torrents run' ! q = \<lparr>to_hash = h, to_group = grp, to_trackers = []\<rparr>"
proof -
  have choice: "resume_choice v asked_name asked_group asked_path = Done (Some (name, grp, sp))"
    by (rule saved_choice [OF e p path save v(1)])
  have load: "load_file (mg_files run) (hash_file en h ''.resume'') = (0, v)"
    using restart(1) v(2) by (simp add: load_file_def)
  define kept where "kept = (if name = [] then mt_name ti else name)"
  let ?ts = "mg_torrents run @ [\<lparr>to_hash = h, to_group = grp, to_trackers = []\<rparr>]"
  let ?run = "run\<lparr>mg_session := ses, mg_torrents := ?ts,
      mg_storage := append_torrent (view_of en ?ts) (length (mg_torrents run)) (mg_storage run),
      mg_files := keep_torrent_file en f h kept (mg_files run)\<rparr>"
  have "AddTorrent en f asked_path asked_name prios asked_group sequential run = Done (?run, Added)"
    using taken torrent(2) by (simp add: AddTorrent_def torrent(1) load choice new_torrent_def Let_def kept_def)
  moreover have "getTorrent h (mg_storage ?run) = Some (length (mg_torrents run))"
    using restart(2) by (simp add: append_torrent_def view_of_def getTorrent_def qm_get_insert Let_def)
  moreover have "keep_torrent_file en f h kept (mg_files run) (hash_file en h ''.torrent'') \<noteq> None"
    using torrent(1,3) by (auto simp: keep_torrent_file_def copy_file_def remove_file_def hash_file_def data_file_def kept_def
        bind_eq_Some_conv)
  ultimately show ?thesis by (intro exI [of _ ?run] exI [of _ "length (mg_torrents run)"]) simp
qed

text \<open>A run that saves over a longer file, and the next one.\<close>

definition example_view :: torrent_view where
  "example_view = \<lparr>tv_infoHash = [], tv_group = [], tv_active = False, tv_downloading = False, tv_seeding = False,
     tv_progress = 0, tv_uploadSpeed = [], tv_downloadSpeed = []\<rparr>"

definition example_env :: "add_params list environment" where
  "example_env = \<lparr>en_dataDir = ''/d/'', en_sep = CHR ''/'',
     en_info = (\<lambda>v. if v = ''T'' then Some \<lparr>mt_hash = ''ab'', mt_name = ''film'', mt_paths = [''film'']\<rparr> else None),
     en_add = (\<lambda>p s. Some (p # s)), en_now = (\<lambda>h. example_view)\<rparr>"

definition example_old :: "add_params list manager" where
  "example_old = \<lparr>mg_files = [''/d/CT_DATA/ab.resume'' \<mapsto> replicate 90 (CHR ''x'')],
     mg_torrents = [\<lparr>to_hash = ''ab'', to_group = ''Video'', to_trackers = []\<rparr>],
     mg_storage = (new_storage NO_FILTER_TYPE)\<lparr>ts_map := [(''ab'', Some 0)]\<rparr>, mg_session = []\<rparr>"

definition example_data :: entry where
  "example_data = dictionary_t [(''save_path'', string_t ''/home'')]"

definition example_file :: bytes where
  "example_file = ''d9:save_path5:/home13:torrent_group5:Video12:torrent_name4:Filme'' @ replicate 26 (CHR ''x'')"

definition example_run :: "add_params list manager" where
  "example_run = \<lparr>mg_files = [''/d/CT_DATA/ab.resume'' \<mapsto> example_file, ''/t'' \<mapsto> ''T''],
     mg_torrents = [], mg_storage = new_storage NO_FILTER_TYPE, mg_session = []\<rparr>"

theorem resume_restored_witness:
  "\<exists>run' q. AddTorrent example_env ''/t'' ''/tmp'' ''x'' [] ''y'' False example_run = Done (run', Added) \<and>
    mg_session run' = [\<lparr>ap_hash = ''ab'', ap_name = ''Film'', ap_save_path = ''/home'', ap_priorities = None,
      ap_resume = Some example_file, ap_sequential = False\<rparr>] \<and>
    getTorrent ''ab'' (mg_storage run') = Some q \<and> mg_files run' (hash_file example_env ''ab'' ''.torrent'') \<noteq> None \<and>
    mg_torrents run' ! q = \<lparr>to_hash = ''ab'', to_group = ''Video'', to_trackers = []\<rparr>"
proof -
  have len: "length example_file = 90" by code_simp
  obtain m where m: "example_data = dictionary_t m" "m = [(''save_path'', string_t ''/home'')]"
    by (simp add: example_data_def)
  let ?saved = "example_old\<lparr>mg_files := (mg_files example_old)(''/d/CT_DATA/ab.resume'' \<mapsto> example_file)\<rparr>"
  have name: "hash_file example_env ''ab'' ''.resume'' = ''/d/CT_DATA/ab.resume''" by code_simp
  let ?kept = "dictionary_t [(''save_path'', string_t ''/home''), (''torrent_group'', string_t ''Video''),
      (''torrent_name'', string_t ''Film'')]"
  have written: "bencode ?kept = ''d9:save_path5:/home13:torrent_group5:Video12:torrent_name4:Filme''" by code_simp
  have r: "resume_entry ''ab'' ''Film'' (dictionary_t m) example_old = Some ?kept"
    by (simp add: resume_entry_def example_old_def getTorrent_def set_string_def m(2))
  have "save_file (mg_files example_old) ''/d/CT_DATA/ab.resume''
      ''d9:save_path5:/home13:torrent_group5:Video12:torrent_name4:Filme'' =
    Done ((mg_files example_old)(''/d/CT_DATA/ab.resume'' \<mapsto> example_file))"
    by (simp add: save_file_def example_old_def example_file_def)
  then have save: "save_resume_data example_env ''ab'' ''Film'' (dictionary_t m) example_old = Done (?saved, True)"
    by (simp only: save_resume_data_def name r option.case written rbind_simps)
  show ?thesis
  proof (rule resume_restored [OF _ _ _ _ _ _ _ save])
    show "encodable (Suc (Suc 0)) (dictionary_t m)" unfolding m(2) by (simp add: qm_ok_def)
    show "length example_file \<le> 8000000" by (simp add: len)
  qed (simp_all add: name m(2), simp_all add: example_old_def example_run_def example_env_def getTorrent_def
      hasTorrent_def qm_contains_def new_storage_def torrent_priorities_def, simp_all)
qed

end
