(* ===== verification/Torrent_Info.thy ===== *)
theory Torrent_Info
  imports Settings
begin

text \<open>
  What the program tells of a torrent (\<open>Torrent.cpp\<close>) with its helpers (\<open>StaticHelpers.cpp\<close>, the
  kinds of files of \<open>StyleEngene.cpp\<close>), and the test for a newer version (\<open>UpdateNotyfier.cpp\<close>).
  libtorrent's handle is a record of what it answers; what is called on it is a list of calls.
\<close>

section \<open>Kinds of files\<close>

datatype file_kind = DISK | DOCUMENT | PICTURE | VIDEO | ARCHIVE | AUDIO | APP

definition suffixes :: "file_kind \<Rightarrow> bytes list" where
  "suffixes k =
     (case k of
        DISK \<Rightarrow> [''mdx'', ''mds'', ''mdf'', ''iso'', ''b5t'', ''b6t'', ''bwt'', ''ccd'', ''cdi'', ''nrg'', ''pdi'', ''isz'']
      | DOCUMENT \<Rightarrow> [''abw'', ''csv'', ''doc'', ''dvi'', ''htm'', ''html'', ''ini'', ''log'', ''odp'',
          ''ods'', ''odt'', ''pdf'', ''ppt'', ''ps'', ''rtf'', ''tex'', ''txt'', ''xml'']
      | PICTURE \<Rightarrow> [''bmp'', ''gif'', ''jpg'', ''jpeg'', ''pcx'', ''png'', ''psd'', ''ras'', ''tga'', ''ico'', ''tiff'']
      | VIDEO \<Rightarrow> [''3gp'', ''asf'', ''avi'', ''mov'', ''mpeg'', ''mpg'', ''mp4'', ''mkv'', ''mov'',
          ''ogm'', ''ogv'', ''qt'', ''rm'', ''wmv'', ''m2ts'']
      | ARCHIVE \<Rightarrow> [''7z'', ''ace'', ''bz2'', ''cbz'', ''gz'', ''gzip'', ''lzma'', ''rar'', ''sft'', ''tar'', ''zip'']
      | AUDIO \<Rightarrow> [''aac'', ''ac3'', ''aiff'', ''ape'', ''au'', ''flac'', ''m3u'', ''m4a'', ''mid'', ''midi'', ''mp2'',
          ''mp3'', ''mpc'', ''nsf'', ''oga'', ''ogg'', ''ra'', ''ram'', ''shn'', ''voc'', ''wav'', ''wma'']
      | APP \<Rightarrow> [''bat'', ''cmd'', ''com'', ''exe''])"

definition kind_name :: "file_kind \<Rightarrow> bytes" where
  "kind_name k =
     (case k of DISK \<Rightarrow> ''iso'' | DOCUMENT \<Rightarrow> ''doc'' | PICTURE \<Rightarrow> ''picture'' | VIDEO \<Rightarrow> ''movie''
      | ARCHIVE \<Rightarrow> ''archive'' | AUDIO \<Rightarrow> ''audio'' | APP \<Rightarrow> ''app'')"

text \<open>The first kind that lists the suffix; the name of the type is left as it was without one.\<close>

definition guess_type :: "bytes \<Rightarrow> bytes \<Rightarrow> bytes" where
  "guess_type suffix old =
     (if suffix = [] then old
      else case find (\<lambda>k. lower_case suffix \<in> set (suffixes k)) [DISK, DOCUMENT, PICTURE, VIDEO, ARCHIVE, AUDIO, APP] of
        None \<Rightarrow> old | Some k \<Rightarrow> kind_name k)"

text \<open>The suffix of a file's name: what follows the last dot, in the part after the last slash.\<close>

definition file_suffix :: "bytes \<Rightarrow> bytes" where
  "file_suffix path =
     (let name = rev (takeWhile (\<lambda>c. c \<noteq> CHR ''/'') (rev path))
      in if CHR ''.'' \<in> set name then rev (takeWhile (\<lambda>c. c \<noteq> CHR ''.'') (rev name)) else [])"

section \<open>The suffix of a torrent\<close>

text \<open>The loop over the files, given by their suffixes, with the counts so far.\<close>

fun base_suffix_loop :: "bytes list \<Rightarrow> (bytes, nat) qmap \<Rightarrow> nat \<Rightarrow> bytes \<Rightarrow> bytes" where
  "base_suffix_loop [] suffixesCount maxSuffix base = base"
| "base_suffix_loop (x # xs) suffixesCount maxSuffix base =
     (if x \<in> set (suffixes DISK) then x
      else if x \<in> set (suffixes VIDEO) then x
      else (let suffixesCount = (if \<not> qm_contains suffixesCount x then qm_insert x 1 suffixesCount
                   else qm_insert x (qm_value 0 suffixesCount x + 1) suffixesCount);
                n = qm_value 0 suffixesCount x
            in if maxSuffix < n then base_suffix_loop xs suffixesCount n x
               else base_suffix_loop xs suffixesCount maxSuffix base))"

definition GetBaseSuffix :: "bytes list \<Rightarrow> bytes" where
  "GetBaseSuffix paths = base_suffix_loop (map file_suffix paths) [] 0 []"

section \<open>A torrent\<close>

record file_entry =
  fe_path :: bytes
  fe_size :: int
  fe_priority :: int

record torrent =
  tr_imageFiles :: "bytes list"
  tr_hasMedia :: bool
  tr_size :: int
  tr_base_suffix :: bytes
  tr_type :: bytes
  tr_group_name :: bytes

text \<open>
  The loop of the constructors over the files: images are put together from the path they are saved
  under and their own without a separator, unwanted files do not count.
\<close>

definition scan_file :: "bytes \<Rightarrow> file_entry \<Rightarrow> torrent \<Rightarrow> torrent" where
  "scan_file save_path f t =
     (let currentSuffix = lower_case (file_suffix (fe_path f));
          t = (if 0 < fe_priority f \<and> currentSuffix \<in> set (suffixes DISK)
               then t\<lparr>tr_imageFiles := tr_imageFiles t @ [save_path @ fe_path f]\<rparr> else t)
      in if 0 < fe_priority f
         then (let t = (if currentSuffix \<in> set (suffixes VIDEO) \<or> currentSuffix \<in> set (suffixes AUDIO)
                        then t\<lparr>tr_hasMedia := True\<rparr> else t)
               in t\<lparr>tr_size := i64 (tr_size t + fe_size f)\<rparr>)
         else t)"

definition scan_files :: "bytes \<Rightarrow> file_entry list \<Rightarrow> torrent \<Rightarrow> torrent" where
  "scan_files save_path fs t =
     (let t = fold (scan_file save_path) fs t; base = GetBaseSuffix (map fe_path fs)
      in t\<lparr>tr_base_suffix := base, tr_type := (if base \<noteq> [] then guess_type base (tr_type t) else ''folder'')\<rparr>)"

definition new_Torrent :: "bytes \<Rightarrow> bytes \<Rightarrow> file_entry list \<Rightarrow> torrent" where
  "new_Torrent group_name save_path fs =
     scan_files save_path fs \<lparr>tr_imageFiles = [], tr_hasMedia = False, tr_size = 0, tr_base_suffix = [],
       tr_type = [], tr_group_name = group_name\<rparr>"

text \<open>The copy begins with what memory holds in the members it does not set.\<close>

definition copy_Torrent :: "int \<Rightarrow> bool \<Rightarrow> bytes \<Rightarrow> file_entry list \<Rightarrow> torrent" where
  "copy_Torrent sz media save_path fs =
     scan_files save_path fs \<lparr>tr_imageFiles = [], tr_hasMedia = media, tr_size = sz, tr_base_suffix = [],
       tr_type = [], tr_group_name = []\<rparr>"

definition isDaemonToolsMountable :: "torrent \<Rightarrow> bool" where
  "isDaemonToolsMountable t = (0 < length (tr_imageFiles t))"

section \<open>The handle\<close>

record handle_status =
  hs_valid :: bool
  hs_state :: int
  hs_paused :: bool
  hs_seed :: bool
  hs_sequential :: bool
  hs_super_seeding :: bool
  hs_download_rate :: int
  hs_upload_rate :: int
  hs_error :: bytes

definition isActive :: "handle_status \<Rightarrow> bool" where
  "isActive h = (2 * 1024 < hs_download_rate h \<or> 2 * 1024 < hs_upload_rate h \<or> hs_state h = 1)"

definition isDownloading :: "handle_status \<Rightarrow> bool" where
  "isDownloading h = (hs_valid h \<and> 2 \<le> hs_state h \<and> hs_state h \<le> 3)"

definition isPaused :: "handle_status \<Rightarrow> bool" where
  "isPaused h = (hs_valid h \<and> hs_paused h)"

definition isSeeding :: "handle_status \<Rightarrow> bool" where
  "isSeeding h = (hs_valid h \<and> (hs_state h = 4 \<or> hs_seed h))"

definition hasError :: "handle_status \<Rightarrow> bool" where
  "hasError h = (hs_valid h \<and> 0 < length (hs_error h))"

definition GetErrorMessage :: "handle_status \<Rightarrow> bytes" where
  "GetErrorMessage h = (if hs_valid h \<and> 0 < length (hs_error h) then hs_error h @ [CHR 0x0A] else [])"

definition state_str :: "bytes list" where
  "state_str = [''STATE_FILE_CHEACKING (q)'', ''STATE_FILE_CHEACKING'', ''STATE_DOWNLOADING'', ''STATE_DOWNLOADING'',
     ''STATE_SEEDING'', ''STATE_SEEDING'', ''STATE_PREPARING'', ''STATE_FILE_CHEACKING (r)'']"

definition GetStatusString :: "(bytes \<Rightarrow> bytes) \<Rightarrow> handle_status \<Rightarrow> bytes run" where
  "GetStatusString translate h =
     (if hs_valid h then
        (if 0 \<le> hs_state h \<and> hs_state h < int (length state_str)
         then Done (translate (state_str ! nat (hs_state h)) @ (if hs_sequential h then '' [S]'' else []))
         else Fault)
      else Done [])"

datatype torrent_call =
    auto_managed bool | pause bool | scrape_tracker | resume | set_sequential_download bool | super_seeding bool
  | save_resume_data | force_recheck | force_reannounce

definition torrent_pause :: "handle_status \<Rightarrow> torrent_call list" where
  "torrent_pause h = (if hs_valid h then [auto_managed False, pause False, scrape_tracker] else [])"

definition torrent_stop :: "handle_status \<Rightarrow> torrent_call list" where
  "torrent_stop h = (if hs_valid h then [auto_managed False, pause True] else [])"

definition torrent_resume :: "handle_status \<Rightarrow> torrent_call list" where
  "torrent_resume h = (if hs_valid h then [resume] else [])"

definition seqensialDownload :: "handle_status \<Rightarrow> torrent_call list" where
  "seqensialDownload h = (if hs_valid h then [set_sequential_download (\<not> hs_sequential h)] else [])"

definition SuperSeed :: "handle_status \<Rightarrow> torrent_call list" where
  "SuperSeed h = (if hs_valid h then [super_seeding (\<not> hs_super_seeding h)] else [])"

definition setGroup :: "bytes \<Rightarrow> torrent \<Rightarrow> torrent \<times> torrent_call list" where
  "setGroup g t = (t\<lparr>tr_group_name := g\<rparr>, [save_resume_data])"

definition GetDownloadedPieces :: "bool \<Rightarrow> (nat \<Rightarrow> bool) \<Rightarrow> nat \<Rightarrow> nat list" where
  "GetDownloadedPieces valid have_piece max_num = (if valid then filter have_piece [0..<max_num] else [])"

text \<open>A piece that is being fetched: its index, its finished blocks and those being written.\<close>

definition GetDownloadingPieces :: "bool \<Rightarrow> (nat \<times> int \<times> int) list \<Rightarrow> nat list" where
  "GetDownloadingPieces valid pieces =
     (if valid then map fst (filter (\<lambda>(i, finished, writing). 0 < finished + writing) pieces) else [])"

text \<open>All torrents of the session: a number for each handle and what it answers.\<close>

definition StartAllTorrents :: "handle_status list \<Rightarrow> (nat \<times> torrent_call list) list" where
  "StartAllTorrents hs =
     map (\<lambda>(i, h). (i, [resume])) (filter (\<lambda>(i, h). hs_valid h \<and> hs_paused h) (enumerate 0 hs))"

definition PauseAllTorrents :: "handle_status list \<Rightarrow> (nat \<times> torrent_call list) list" where
  "PauseAllTorrents hs =
     map (\<lambda>(i, h). (i, [auto_managed False, pause False])) (filter (\<lambda>(i, h). hs_valid h \<and> \<not> hs_paused h) (enumerate 0 hs))"

section \<open>Times and priorities as text\<close>

definition filePriorityToString :: "(bytes \<Rightarrow> bytes) \<Rightarrow> int \<Rightarrow> bytes" where
  "filePriorityToString translate priority =
     (if 0 < priority then
        (if priority = 0 then translate ''FILETAB_PRIORITY_ZERO''
         else if priority < 3 then translate ''FILETAB_PRIORITY_LOW''
         else if 3 \<le> priority \<and> priority < 6 then translate ''FILETAB_PRIORITY_MEDIUM''
         else if 6 \<le> priority then translate ''FILETAB_PRIORITY_HIGH''
         else [])
      else [])"

text \<open>\<open>sprintf\<close> with at least two digits.\<close>

definition two_digits :: "int \<Rightarrow> bytes" where
  "two_digits n = (let s = int_text 10 n in if length s < 2 then CHR ''0'' # s else s)"

definition toTimeString :: "(bytes \<Rightarrow> bytes) \<Rightarrow> int \<Rightarrow> bytes" where
  "toTimeString translate seconds =
     (if seconds < 0 then []
      else (let Week = cdiv seconds (7 * 24 * 60 * 60);
                seconds = seconds - Week * (7 * 24 * 60 * 60);
                day = cdiv seconds (24 * 60 * 60);
                seconds = seconds - day * (24 * 60 * 60);
                hour = cdiv seconds (60 * 60);
                seconds = seconds - hour * 60 * 60;
                mins = cdiv seconds 60;
                seconds = seconds - mins * 60
            in (if 0 < Week then qstring_arg (translate ''%1 WEEK '') (int_text 10 Week) else []) @
               (if 0 < day then qstring_arg (translate ''%1 DAY '') (int_text 10 day) else []) @
               (if 0 \<le> hour then two_digits hour @ '':'' else []) @
               (if 0 \<le> mins then two_digits mins @ '':'' else []) @
               two_digits seconds))"

section \<open>A newer version\<close>

text \<open>A part that is not a number counts as zero; parts past the fourth count nothing.\<close>

definition VERSION :: "int list" where
  "VERSION = [0, 9, 2, 8]"

fun version_loop :: "bytes list \<Rightarrow> int \<Rightarrow> int \<Rightarrow> int" where
  "version_loop [] mul recevedVersion = recevedVersion"
| "version_loop (p # ps) mul recevedVersion =
     version_loop ps (cdiv mul 10) (i32 (recevedVersion + i32 (mul * or_zero (string_toInt p))))"

text \<open>The errors reported, by their number, and the version to tell of. An error does not end the handler.\<close>

definition replyFinished :: "bytes \<Rightarrow> nat \<times> bytes option" where
  "replyFinished str =
     (let currentVersion = 1000 * VERSION ! 0 + 100 * VERSION ! 1 + 10 * VERSION ! 2 + VERSION ! 3;
          parts = split_on (CHR ''.'') str;
          recevedVersion = version_loop parts 1000 0
      in (if length parts \<noteq> 4 then 1 else 0, if currentVersion < recevedVersion then Some str else None))"

section \<open>The most frequent suffix\<close>

text \<open>
  The counts are those of the suffixes passed; the maximum is reached by the suffix chosen and by no
  other before it.
\<close>

definition counts_of :: "bytes list \<Rightarrow> (bytes, nat) qmap \<Rightarrow> bool" where
  "counts_of seen m = (qm_ok m \<and> (\<forall>x. qm_get m x = (if x \<in> set seen then Some (count_list seen x) else None)))"

lemma counts_step:
  assumes "counts_of seen m"
  shows "counts_of (seen @ [x]) (if \<not> qm_contains m x then qm_insert x 1 m else qm_insert x (qm_value 0 m x + 1) m)"
    and "qm_value 0 (if \<not> qm_contains m x then qm_insert x 1 m else qm_insert x (qm_value 0 m x + 1) m) x =
      count_list seen x + 1"
  using assms by (auto simp: counts_of_def qm_contains_def qm_value_def qm_get_insert qm_ok_insert count_list_0_iff)

definition special :: "bytes \<Rightarrow> bool" where
  "special x = (x \<in> set (suffixes DISK) \<or> x \<in> set (suffixes VIDEO))"

lemma base_suffix_special:
  "x \<in> set xs \<Longrightarrow> special x \<Longrightarrow> Some (base_suffix_loop xs m n b) = find special xs"
  by (induction xs arbitrary: m n b) (auto simp: special_def Let_def)

lemma base_suffix_frequent:
  assumes "counts_of seen m" "list_all (\<lambda>x. \<not> special x) xs"
    and "\<forall>x. count_list seen x \<le> n" "if seen = [] then n = 0 else count_list seen b = n \<and> b \<in> set seen"
  shows "let r = base_suffix_loop xs m n b in seen @ xs \<noteq> [] \<longrightarrow>
    r \<in> set (seen @ xs) \<and> (\<forall>x. count_list (seen @ xs) x \<le> count_list (seen @ xs) r)"
  using assms
proof (induction xs arbitrary: seen m n b)
  case Nil
  then show ?case by auto
next
  case (Cons x xs)
  let ?m = "if \<not> qm_contains m x then qm_insert x 1 m else qm_insert x (qm_value 0 m x + 1) m"
  let ?c = "count_list seen x + 1"
  note c = counts_step [OF Cons.prems(1), of x]
  have x: "x \<notin> set (suffixes DISK)" "x \<notin> set (suffixes VIDEO)" using Cons.prems(2) by (simp_all add: special_def)
  show ?case
  proof (cases "n < ?c")
    case True
    have "\<forall>y. count_list (seen @ [x]) y \<le> ?c" using Cons.prems(3) True by (auto simp: count_list_append intro: le_SucI order_trans)
    from Cons.IH [OF c(1) _ this, of x] Cons.prems(2)
    show ?thesis using True x by (simp add: c(2) count_list_append)
  next
    case False
    then have s: "seen \<noteq> []" "b \<noteq> x" using Cons.prems(4) by (auto split: if_splits)
    have "\<forall>y. count_list (seen @ [x]) y \<le> n" using Cons.prems(3) False by (auto simp: count_list_append)
    from Cons.IH [OF c(1) _ this, of b] Cons.prems(2,4) s
    show ?thesis using False x by (simp add: c(2) count_list_append)
  qed
qed

text \<open>
  C37. The suffix that gives a torrent its icon is the first suffix of a disk image or a video among
  its files, where it has one, and otherwise one that no other suffix outnumbers.
\<close>

theorem base_suffix_chosen:
  assumes "paths \<noteq> []"
  shows "let xs = map file_suffix paths; r = GetBaseSuffix paths in
    r \<in> set xs \<and>
    (case find special xs of Some x \<Rightarrow> r = x | None \<Rightarrow> (\<forall>x. count_list xs x \<le> count_list xs r))"
proof (cases "find special (map file_suffix paths)")
  case None
  then have "list_all (\<lambda>x. \<not> special x) (map file_suffix paths)" by (simp add: find_None_iff list_all_iff)
  from base_suffix_frequent [of "[]" "[]", OF _ this, of 0 "[]"] show ?thesis
    using None assms by (simp add: counts_of_def Let_def GetBaseSuffix_def)
next
  case (Some x)
  then have x: "x \<in> set (map file_suffix paths)" "special x" by (auto simp: find_Some_iff)
  from base_suffix_special [OF this, of "[]" 0 "[]"] have "GetBaseSuffix paths = x" using Some by (simp add: GetBaseSuffix_def)
  then show ?thesis using Some x(1) by (simp add: Let_def)
qed

lemma base_suffix_chosen_witness:
  "GetBaseSuffix [''t/a.txt'', ''t/b.mp3'', ''t/c.mp3''] = ''mp3'' \<and> GetBaseSuffix [''a.mp3'', ''b.iso'', ''c.mp3''] = ''iso''"
proof -
  have s: "map file_suffix [''t/a.txt'', ''t/b.mp3'', ''t/c.mp3''] = [''txt'', ''mp3'', ''mp3'']"
      "map file_suffix [''a.mp3'', ''b.iso'', ''c.mp3''] = [''mp3'', ''iso'', ''mp3'']" by code_simp+
  have f: "find special [''txt'', ''mp3'', ''mp3''] = None" "find special [''mp3'', ''iso'', ''mp3''] = Some ''iso''"
    by code_simp+
  have "GetBaseSuffix [''t/a.txt'', ''t/b.mp3'', ''t/c.mp3''] = ''mp3''"
    using base_suffix_chosen [of "[''t/a.txt'', ''t/b.mp3'', ''t/c.mp3'']"] unfolding Let_def s f option.case
    by (auto dest: spec [of _ "''mp3''"])
  moreover have "GetBaseSuffix [''a.mp3'', ''b.iso'', ''c.mp3''] = ''iso''"
    using base_suffix_chosen [of "[''a.mp3'', ''b.iso'', ''c.mp3'']"] unfolding Let_def s f option.case by blast
  ultimately show ?thesis by blast
qed

section \<open>Times\<close>

text \<open>The clock of a time under a day tells the time.\<close>

definition clock_seconds :: "int \<Rightarrow> int \<Rightarrow> int \<Rightarrow> int" where
  "clock_seconds h m s = (h * 60 + m) * 60 + s"

lemma toTimeString_clock:
  assumes "0 \<le> h" "h < 24" "0 \<le> m" "m < 60" "0 \<le> s" "s < 60"
  shows "toTimeString translate (clock_seconds h m s) = two_digits h @ '':'' @ two_digits m @ '':'' @ two_digits s"
proof -
  have d: "clock_seconds h m s div 604800 = 0" "clock_seconds h m s div 86400 = 0" "clock_seconds h m s div 3600 = h"
      "(clock_seconds h m s - h * 3600) div 60 = m" "0 \<le> clock_seconds h m s"
    using assms by (auto simp: clock_seconds_def)
  then show ?thesis using assms by (simp add: toTimeString_def Let_def cdiv_nonneg clock_seconds_def)
qed

section \<open>Versions\<close>

definition version_text :: "nat \<Rightarrow> nat \<Rightarrow> nat \<Rightarrow> nat \<Rightarrow> bytes" where
  "version_text a b c d = join_with ''.'' (map (nat_text 10) [a, b, c, d])"

definition version_less :: "nat list \<Rightarrow> nat list \<Rightarrow> bool" where
  "version_less xs ys = ((xs, ys) \<in> lexord {(x, y). x < y})"

lemma string_toInt_nat: "n < 2 ^ 31 \<Longrightarrow> string_toInt (nat_text 10 n) = Some (int n)"
  using trimmed_int_text [of "int n"] parse_signed_text [of "int n"]
  by (simp add: string_toInt_def int_text_def int_in_def)

lemma version_parts: "split_on (CHR ''.'') (version_text a b c d) = map (nat_text 10) [a, b, c, d]"
proof -
  have "CHR ''.'' \<notin> set (nat_text 10 n)" for n
  proof
    assume "CHR ''.'' \<in> set (nat_text 10 n)"
    then obtain d where "d < 10" "CHR ''.'' = digit_char d" using nat_text_chars [of 10 "CHR ''.''" n] by auto
    then have "(of_char (CHR ''.'') :: nat) = 48 + d" using of_char_digit_char [of d] by simp
    then show False by simp
  qed
  then show ?thesis unfolding version_text_def by (intro split_join) auto
qed

text \<open>
  C31. The program tells of a new version exactly when it is newer than its own 0.9.2.8, as long as
  every part of the version has one digit.
\<close>

theorem newer_version_told:
  assumes "a < 10" "b < 10" "c < 10" "d < 10"
  shows "replyFinished (version_text a b c d) =
    (0, if version_less [0, 9, 2, 8] [a, b, c, d] then Some (version_text a b c d) else None)"
proof -
  have n: "string_toInt (nat_text 10 n) = Some (int n)" if "n < 10" for n
    using string_toInt_nat [of n] that by simp
  let ?v = "1000 * a + 100 * b + 10 * c + d"
  have v: "version_loop [nat_text 10 a, nat_text 10 b, nat_text 10 c, nat_text 10 d] 1000 0 = int ?v"
    using assms n by (simp add: or_zero_def cdiv_nonneg i32_id in_i32_def)
  have l: "version_less [0, 9, 2, 8] [a, b, c, d] \<longleftrightarrow> 928 < ?v"
    using assms by (simp add: version_less_def) arith
  have "replyFinished (version_text a b c d) = (0, if 928 < int ?v then Some (version_text a b c d) else None)"
    unfolding replyFinished_def version_parts list.map v Let_def by (simp add: VERSION_def)
  then show ?thesis unfolding l by simp
qed

lemma newer_version_told_witness: "replyFinished ''1.0.0.0'' = (0, Some ''1.0.0.0'') \<and> replyFinished ''0.9.2.8'' = (0, None)"
proof -
  have t: "version_text 1 0 0 0 = ''1.0.0.0''" "version_text 0 9 2 8 = ''0.9.2.8''" by code_simp+
  show ?thesis using newer_version_told [of 1 0 0 0] newer_version_told [of 0 9 2 8]
    unfolding t by (simp add: version_less_def)
qed

text \<open>With two digits an older version is told of, and a newer one is not.\<close>

lemma version_two_digits:
  "replyFinished ''0.9.1.19'' = (0, Some ''0.9.1.19'')" "replyFinished ''1.0.0.0.0'' = (1, Some ''1.0.0.0.0'')"
  by code_simp+

end
