(* ===== verification/Spec2Isabelle.thy ===== *)
theory Spec2Isabelle
  imports Json_Roundtrip Http_Session_Store Http_Request_Spec Static_Files Tracker Torrent_Storage Scheduler Ip_Filter File_Tree File_View Settings Web_Api Search_Engine
    Torrent_Session Torrent_Info
begin

text \<open>
  \<^bold>\<open>CuteTorrent\<close>: a verification development of the program's own logic.

  CuteTorrent is a BitTorrent client on Qt and libtorrent. All paths below are under
  \<open>src/CuteTorrent/src/\<close> unless they begin with \<open>ThirdParties\<close>. libtorrent moves the
  data; the program itself is what stands around it: a web server for remote control and a tracker,
  the JSON and bencoding they speak, the collections behind the lists the user sees, the trees of
  files, the scheduler and the settings. These are the parts modelled here.

  \<^bold>\<open>Conventions.\<close> A class is a record, an operation a function from the old state to the new one.
  Byte arrays and, outside the JSON reader, strings are lists of characters; the JSON reader works
  on 16-bit code units. An \<open>int\<close> of the program is an integer cut to its width by \<open>i32\<close>,
  \<open>u32\<close> or \<open>i64\<close> where it can overflow; addresses are 32-bit words. A step that the
  language leaves undefined (an index out of range, a null pointer followed) is the outcome
  \<open>Fault\<close> of the type \<open>run\<close>, a loop that makes no progress is \<open>Loop\<close>; the program's own error
  values are options, sums or flags, as in the code. What is outside the source (the clock, the file
  system, the socket's capacity, a hash function, the conversions of doubles and of \<open>QVariant\<close>, the
  walk order of a hash set) is an argument; no theorem assumes more of it than its statement says.

  \<^bold>\<open>Shared theories.\<close>
  \<open>Prelude\<close> has the type \<open>run\<close> and the arithmetic of the machine integers;
  \<open>Qt_Bytes\<close> the operations of \<open>QByteArray\<close> and \<open>QString\<close> the code uses (trim, find, split, join,
  numbers from and to text); \<open>Qt_Maps\<close> Qt's maps with the locale \<open>keyed_store\<close>, the contract of a
  store with keys, interpreted on \<open>QMap\<close> and \<open>QMultiMap\<close>; \<open>Qt_Cache\<close> the least-recently-used
  \<open>QCache\<close>.

  \<^bold>\<open>JSON\<close> (\<open>json/json.cpp\<close>). \<open>Json\<close> is the reader: tokens, strings, numbers, values with mutual
  recursion through objects and arrays. The recursion is bounded by fuel, twice the length of the
  text and one more; \<open>parse_total\<close> (C2) proves that this is always enough, so that the reader returns
  on every text. \<open>Json_Serialize\<close> is the writer, \<open>Json_Roundtrip\<close> shows that what the writer writes
  the reader reads back (C1).

  \<^bold>\<open>The web server\<close> (\<open>http/\<close>). A connection handler owns a socket, a request that is being read
  and a response. \<open>Http_Url\<close> is the percent decoding with its inverse (C4). \<open>Http_Cookie\<close> is one
  cookie, as text and back (C3). \<open>Http_Request\<close> is the state machine that reads a request:
  \<open>readRequest\<close>, \<open>readHeader\<close>, \<open>readBody\<close>, the parts of a form with files, parameters and cookies.
  \<open>Http_Request_Safety\<close> shows that its status only moves forward (C5), that the bytes kept stay
  within the configured size (C6), and that the reading loop ends with fuel one more than the bytes
  that arrived (C7). \<open>Http_Request_Spec\<close> says what a request sent by a client is read as (C8), that
  form parameters come through (C9), and shows two faults.
  \<open>Http_Response\<close> is the other side: header block, framing, chunks (C12). \<open>Http_Reply\<close> abstracts a
  response to what the client gets of it; \<open>write_part\<close> implements the abstract write (C22). Its locale
  \<open>request_service\<close> is the contract between the connection handler and whoever answers a request:
  a new response in, one reply out. It is interpreted on the static files, the default handler, the
  tracker and the whole web interface. \<open>Http_Session\<close> is the reference-counted session (with
  the assignment that never frees), \<open>Http_Session_Store\<close> the table with its expiry timer: in every
  run the counts equal the references held (C15), and the timer ends what has expired (C16).
  \<open>Http_Server\<close> is the handler, the pool and the listener: the address lists (C17), a handler is
  given to one connection at a time (C18), the clean-up ends only idle ones (C19). \<open>Http_Auth\<close> is the
  digest authentication (C20). \<open>Static_Files\<close> serves the document root through the cache: a complete
  request gets exactly one answer through the whole handler (C23), the cache never shows (C24), the
  guarded prefix is served all the same (C26), the cache stays within its budget (C27).

  \<^bold>\<open>The web interface\<close> (\<open>webControll/\<close>). \<open>Web_Api\<close> is the mapper with its services: commands to
  torrents, magnet links, uploads, the list of torrents, the settings. Refused credentials change
  nothing (C25), except that the commands controller need not ask for them at all (C34). \<open>Ip_Filter\<close>
  reads the address filter and composes it with the connection handler's test (C35). \<open>Settings\<close> is
  \<open>QApplicationSettings.cpp\<close> over a model of Qt's settings store, with the filter groups that
  survive being saved (C13).

  \<^bold>\<open>The tracker\<close> (\<open>tracker/\<close>, \<open>ThirdParties/libtorrent-rasterbar-1.0.2\<close>). \<open>Bencode\<close> is
  libtorrent's bencoding, reader and writer, with the round trip (C28); a declared string longer than
  the input is the outcome the code has for it, and a container that does not advance is \<open>Loop\<close>.
  \<open>Tracker\<close> keeps the table of torrents and peers: it stays well formed (C29), an announce is
  answered with the peers it should be (C30), and a hash with a zero byte is
  refused.

  \<^bold>\<open>Lists, trees, times.\<close> \<open>Torrent_Storage\<close> has \<open>TorrentStorrage.cpp\<close> and
  \<open>SearchItemsStorrage.cpp\<close>: the map, the list and the shown list agree in every run (C32), and adding
  torrents one by one shows what filtering anew would (C33). \<open>Item_Tree\<close> is the tree that
  \<open>FileTreeModel.cpp\<close> and \<open>FileViewModel.cpp\<close> build from paths: a pointer is the rows that lead to an
  item; with paths none of which begins another, every path becomes one leaf. \<open>File_Tree\<close> is the dialog
  that opens a torrent: what the user unchecks is what the session skips (C21); checking the last file
  of a folder reaches too far, and a magnet link has a fault of its own where the separator is
  not the slash. \<open>File_View\<close> is the view of a running torrent: a row tells the size of the files under it
  and sets the priority of exactly those (C40). \<open>Scheduler\<close> is the task queue, its timer and its file:
  a task alone is performed once, on time (C36), the one after it may not be.

  \<^bold>\<open>Torrents.\<close> \<open>Torrent_Session\<close> is \<open>TorrentManager.cpp\<close> around libtorrent's session, which is an
  argument with a state of its own: torrents are added with their resume data, put into
  \<open>Torrent_Storage\<close>, restored at the start, removed, and asked for what is to be kept when the program
  closes; the alerts in between change the state, signal and call. The data directory is a map from paths to
  contents. What was saved for a torrent is what it gets back in the next run (C10), over whatever the
  file held before. The loop that waits at the end takes the batches of alerts that arrive as an argument
  and is \<open>Loop\<close> when they are used up; with as many answers among them as there were requests it
  ends (\<open>onClose_ends\<close>). \<open>Torrent_Info\<close> is \<open>Torrent.cpp\<close> with its helpers
  (\<open>StaticHelpers.cpp\<close>, \<open>StyleEngene.cpp\<close>): what a torrent is made of its files, what it tells, and
  the calls on its handle; the suffix that gives it its icon (C37). \<open>UpdateNotyfier.cpp\<close> is there too:
  a newer version is told of as long as its parts have one digit (C31).

  \<^bold>\<open>Pages.\<close> \<open>Sgml\<close> is the reader of the pages that a search returns (\<open>SGML/\<close>): names and
  attributes of a tag, the search for its closing bracket, the stack of open tags, the lookups. A page
  whose tags are closed is read as the tree of its elements and a lookup finds all of them (C14); the
  steps that takes are two for each element and one more, which the theorem gives as fuel. The search
  for a bracket has fuel twice the length of the text and two, which is proved enough. A comment that
  is not closed is read for ever (C39). \<open>Search_Pages\<close> has the providers that read pages
  (\<open>ExtratorrentSearchProvider.cpp\<close>, \<open>RutorSearchProvider.cpp\<close>): the walk over the cells of the
  table of results, shown to be a reading row by row (C11).
  \<open>Search_Engine\<close> has the addresses asked, the provider that answers in JSON
  (\<open>KickassSearchProvider.cpp\<close>), which uses the reader of \<open>Json\<close>, and \<open>SearchEngine.cpp\<close>: from a
  JSON answer to the list the user sees, with the answers of the other providers around it (C38).

  \<^bold>\<open>Not modelled.\<close> Widgets, dialogs, delegates, styles and icons (\<open>CuteTorrent.cpp\<close>, \<open>*Dialog.cpp\<close>,
  \<open>*Delegate.cpp\<close>, the rest of \<open>StyleEngene.cpp\<close>, \<open>customWindow\<close>, \<open>VideoPlayer\<close>) draw and forward clicks.
  Of \<open>TorrentManager.cpp\<close> and \<open>Torrent.cpp\<close> the session's settings, magnet links, and the getters that
  only forward or format floating point are left out; of the searches the network. The feed reader is
  libtorrent's. Of \<open>SGML\<close> the writing of a
  page back to text is left out. \<open>backupwizard\<close> packs and unpacks files. \<open>qtsingleapplication\<close>, the rest of
  \<open>ThirdParties\<close> and \<open>GeneratedFiles\<close> are vendored or generated. Floating point (sizes for display,
  progress) is an argument or left out. Threads are not interleaved below the level of one handler's
  step: the operations of a locked class are atomic here, as its mutex makes them.
\<close>

end
